(* ===== verification/Prelude.thy ===== *)
theory Prelude
  imports Complex_Main "HOL-Library.Char_ord" "HOL-Library.List_Lexorder"
    "HOL-Library.Product_Lexorder" "HOL-Library.Sublist"
begin

text \<open>
  What the components share: the Python values the code computes with and the generic facts
  about them.

  \<^item> Floats (\<open>time.time()\<close>, percentages, credits, prices) are exact rationals, so rounding of
    IEEE doubles is not modelled; integers are \<open>int\<close>. A naive UTC \<open>datetime\<close> is its number of
    microseconds, the resolution Python keeps.
  \<^item> Strings are lists of bytes; case folding and stripping act on the ASCII characters.
  \<^item> An exception that leaves a function is the left part of a sum.
  \<^item> \<open>min\<close> and \<open>max\<close> with a key return the first extremal element and raise on an empty list.
\<close>

named_theorems py_eval \<open>definitions of the Python primitives, for evaluating concrete inputs\<close>

type_synonym pyfloat = rat
type_synonym datetime = int

section \<open>Exceptions\<close>

datatype py_error = ValueError | ZeroDivisionError

text \<open>Sequencing: the rest of a function runs only if the call returned.\<close>

definition bind_sum :: "'e + 'a \<Rightarrow> ('a \<Rightarrow> 'e + 'b) \<Rightarrow> 'e + 'b" where
  "bind_sum r k = (case r of Inl e \<Rightarrow> Inl e | Inr x \<Rightarrow> k x)"

lemma bind_sum_simps [simp]:
  "bind_sum (Inl e) k = Inl e"
  "bind_sum (Inr x) k = k x"
  by (simp_all add: bind_sum_def)

lemma bind_sum_eq_Inr [simp]:
  "bind_sum r k = Inr y \<longleftrightarrow> (\<exists>x. r = Inr x \<and> k x = Inr y)"
  by (cases r) auto

section \<open>State and exceptions\<close>

text \<open>A call that reads and writes a state and may raise; the state written before an exception stays.\<close>

type_synonym ('e, 'a, 'w) stateful = "'w \<Rightarrow> ('e + 'a) \<times> 'w"

definition sx_return :: "'a \<Rightarrow> ('e, 'a, 'w) stateful" where
  [py_eval]: "sx_return x w = (Inr x, w)"

definition sx_raise :: "'e \<Rightarrow> ('e, 'a, 'w) stateful" where
  [py_eval]: "sx_raise e w = (Inl e, w)"

definition sx_bind :: "('e, 'a, 'w) stateful \<Rightarrow> ('a \<Rightarrow> ('e, 'b, 'w) stateful) \<Rightarrow> ('e, 'b, 'w) stateful" where
  [py_eval]: "sx_bind m k w = (case m w of (Inl e, w') \<Rightarrow> (Inl e, w') | (Inr x, w') \<Rightarrow> k x w')"

definition sx_modify :: "('w \<Rightarrow> 'w) \<Rightarrow> ('e, unit, 'w) stateful" where
  [py_eval]: "sx_modify f w = (Inr (), f w)"

text \<open>\<open>try ... except\<close>: \<open>h\<close> handles the exception in the state it left.\<close>

definition sx_catch :: "('e, 'a, 'w) stateful \<Rightarrow> ('e \<Rightarrow> ('f, 'a, 'w) stateful) \<Rightarrow> ('f, 'a, 'w) stateful" where
  [py_eval]: "sx_catch m h w = (case m w of (Inl e, w') \<Rightarrow> h e w' | (Inr x, w') \<Rightarrow> (Inr x, w'))"

lemmas sx_defs = sx_return_def sx_raise_def sx_bind_def sx_modify_def sx_catch_def

lemma sx_bind_Inr: "sx_bind m k w = (Inr y, w') \<longleftrightarrow> (\<exists>x w1. m w = (Inr x, w1) \<and> k x w1 = (Inr y, w'))"
  by (auto simp: sx_bind_def split: prod.splits sum.splits)

lemma sx_bind_Inl: "sx_bind m k w = (Inl e, w') \<longleftrightarrow> m w = (Inl e, w') \<or> (\<exists>x w1. m w = (Inr x, w1) \<and> k x w1 = (Inl e, w'))"
  by (auto simp: sx_bind_def split: prod.splits sum.splits)

section \<open>Time\<close>

definition timedelta_seconds :: "int \<Rightarrow> datetime" where
  [py_eval]: "timedelta_seconds s = s * 1000000"

definition timedelta_hours :: "int \<Rightarrow> datetime" where
  [py_eval]: "timedelta_hours h = timedelta_seconds (h * 3600)"

definition timedelta_days :: "int \<Rightarrow> datetime" where
  [py_eval]: "timedelta_days d = timedelta_hours (d * 24)"

text \<open>
  A \<open>datetime\<close> as the code receives it: the wall clock reading and the UTC offset, \<open>None\<close> for a
  naive value. \<open>to_utc_naive\<close> subtracts the offset.
\<close>

datatype pydatetime = PyDatetime (wall: datetime) (utcoffset: "datetime option")

definition to_utc_naive :: "pydatetime \<Rightarrow> datetime" where
  "to_utc_naive v = (case utcoffset v of None \<Rightarrow> wall v | Some off \<Rightarrow> wall v - off)"

section \<open>Numbers\<close>

text \<open>\<open>int(x)\<close> of a float truncates towards zero.\<close>

definition py_int :: "pyfloat \<Rightarrow> int" where
  [py_eval]: "py_int x = (if 0 \<le> x then \<lfloor>x\<rfloor> else \<lceil>x\<rceil>)"

lemma py_int_of_int [simp]: "py_int (of_int n) = n"
  by (simp add: py_int_def)

lemma py_int_nonneg: "0 \<le> x \<Longrightarrow> 0 \<le> py_int x"
  by (simp add: py_int_def)

lemma py_int_mono: "x \<le> y \<Longrightarrow> py_int x \<le> py_int y"
proof -
  assume le: "x \<le> y"
  have "\<lceil>x\<rceil> \<le> \<lfloor>y\<rfloor>" if "x < 0" "0 \<le> y"
  proof -
    from that(1) have "\<lceil>x\<rceil> \<le> 0" by (simp add: ceiling_le_iff)
    also from that(2) have "0 \<le> \<lfloor>y\<rfloor>" by simp
    finally show ?thesis .
  qed
  with le show ?thesis by (auto simp: py_int_def floor_mono ceiling_mono)
qed

text \<open>The rounding of the format \<open>.0f\<close>: to the nearest integer, a tie to the even one.\<close>

definition round_half_even :: "pyfloat \<Rightarrow> int" where
  [py_eval]: "round_half_even x =
     (let f = \<lfloor>x\<rfloor>; d = x - of_int f
      in if d < 1 / 2 then f else if d > 1 / 2 then f + 1
         else if even f then f else f + 1)"

lemma round_half_even_of_int [simp]: "round_half_even (of_int n) = n"
  by (simp add: round_half_even_def)

lemma round_half_even_close: "\<bar>of_int (round_half_even x) - x\<bar> \<le> 1 / 2"
proof -
  have "of_int \<lfloor>x\<rfloor> \<le> x" "x < of_int \<lfloor>x\<rfloor> + 1" by linarith+
  then show ?thesis unfolding round_half_even_def Let_def by auto
qed

section \<open>Strings\<close>

definition is_space :: "char \<Rightarrow> bool" where
  [py_eval]: "is_space c =
     (let n = (of_char c :: nat) in (9 \<le> n \<and> n \<le> 13) \<or> (28 \<le> n \<and> n \<le> 32))"

definition lower_char :: "char \<Rightarrow> char" where
  [py_eval]: "lower_char c =
     (let n = (of_char c :: nat) in if 65 \<le> n \<and> n \<le> 90 then char_of (n + 32) else c)"

definition py_lower :: "string \<Rightarrow> string" where
  [py_eval]: "py_lower s = map lower_char s"

definition rstrip :: "string \<Rightarrow> string" where
  [py_eval]: "rstrip s = rev (dropWhile is_space (rev s))"

definition strip :: "string \<Rightarrow> string" where
  [py_eval]: "strip s = rstrip (dropWhile is_space s)"

lemma lower_char_idem [simp]: "lower_char (lower_char c) = lower_char c"
  by (simp add: lower_char_def Let_def)

lemma is_space_lower_char [simp]: "is_space (lower_char c) = is_space c"
  by (auto simp: lower_char_def is_space_def Let_def)

lemma py_lower_idem [simp]: "py_lower (py_lower s) = py_lower s"
  by (simp add: py_lower_def)

lemma py_lower_eq_Nil [simp]: "py_lower s = [] \<longleftrightarrow> s = []"
  by (simp add: py_lower_def)

lemma dropWhile_is_space_py_lower:
  "dropWhile is_space (py_lower s) = py_lower (dropWhile is_space s)"
  by (induction s) (simp_all add: py_lower_def)

lemma rev_py_lower: "rev (py_lower s) = py_lower (rev s)"
  by (simp add: py_lower_def rev_map)

lemma strip_py_lower: "strip (py_lower s) = py_lower (strip s)"
  by (simp add: strip_def rstrip_def dropWhile_is_space_py_lower rev_py_lower)

lemma dropWhile_idem: "dropWhile P (dropWhile P xs) = dropWhile P xs"
  by (induction xs) auto

lemma dropWhile_rev_dropWhile_rev:
  assumes "dropWhile P xs = xs"
  shows "dropWhile P (rev (dropWhile P (rev xs))) = rev (dropWhile P (rev xs))"
proof (cases "rev (dropWhile P (rev xs))")
  case Nil
  then show ?thesis unfolding Nil by simp
next
  case (Cons y ys)
  have "xs = rev (dropWhile P (rev xs)) @ rev (takeWhile P (rev xs))"
    by (metis rev_append rev_rev_ident takeWhile_dropWhile_id)
  with Cons obtain zs where "xs = y # zs" by auto
  with assms have "\<not> P y" by (metis dropWhile_eq_Cons_conv)
  then show ?thesis unfolding Cons by simp
qed

lemma strip_idem [simp]: "strip (strip s) = strip s"
  using dropWhile_rev_dropWhile_rev [OF dropWhile_idem, of is_space s]
  by (simp add: strip_def rstrip_def dropWhile_idem)

text \<open>A string is true when it is not empty; \<open>None\<close> is false.\<close>

definition truthy_str :: "string option \<Rightarrow> bool" where
  [py_eval]: "truthy_str v = (case v of None \<Rightarrow> False | Some s \<Rightarrow> s \<noteq> [])"

text \<open>A number is true when it is not zero; \<open>None\<close> is false.\<close>

definition truthy_num :: "'a :: zero option \<Rightarrow> bool" where
  [py_eval]: "truthy_num v = (case v of None \<Rightarrow> False | Some x \<Rightarrow> x \<noteq> 0)"

definition or_zero :: "'a :: zero option \<Rightarrow> 'a" where
  [py_eval]: "or_zero v = (case v of None \<Rightarrow> 0 | Some x \<Rightarrow> x)"

lemma truthy_num_simps [simp]:
  "\<not> truthy_num None" "truthy_num (Some x) = (x \<noteq> 0)"
  by (simp_all add: truthy_num_def)

lemma or_zero_simps [simp]: "or_zero None = 0" "or_zero (Some x) = x"
  by (simp_all add: or_zero_def)

lemma truthy_num_the: "truthy_num v \<Longrightarrow> the v = or_zero v"
  by (cases v) simp_all

lemma truthy_str_simps [simp]:
  "\<not> truthy_str None" "truthy_str (Some s) = (s \<noteq> [])"
  by (simp_all add: truthy_str_def)

text \<open>Decimal printing, as \<open>str\<close> and the format \<open>.0f\<close> do it.\<close>

fun show_nat :: "nat \<Rightarrow> string" where
  "show_nat n = (if n < 10 then [char_of (48 + n)]
     else show_nat (n div 10) @ [char_of (48 + n mod 10)])"

declare show_nat.simps [simp del]

definition show_int :: "int \<Rightarrow> string" where
  "show_int i = (if i < 0 then ''-'' @ show_nat (nat (- i)) else show_nat (nat i))"

section \<open>First minimum and maximum by a key\<close>

fun min_from :: "('a \<Rightarrow> 'k :: linorder) \<Rightarrow> 'a \<Rightarrow> 'a list \<Rightarrow> 'a" where
  "min_from f a [] = a"
| "min_from f a (b # bs) = (if f b < f a then min_from f b bs else min_from f a bs)"

definition py_min :: "('a \<Rightarrow> 'k :: linorder) \<Rightarrow> 'a list \<Rightarrow> py_error + 'a" where
  "py_min f xs = (case xs of [] \<Rightarrow> Inl ValueError | x # xs \<Rightarrow> Inr (min_from f x xs))"

fun max_from :: "('a \<Rightarrow> 'k :: linorder) \<Rightarrow> 'a \<Rightarrow> 'a list \<Rightarrow> 'a" where
  "max_from f a [] = a"
| "max_from f a (b # bs) = (if f a < f b then max_from f b bs else max_from f a bs)"

definition py_max :: "('a \<Rightarrow> 'k :: linorder) \<Rightarrow> 'a list \<Rightarrow> py_error + 'a" where
  "py_max f xs = (case xs of [] \<Rightarrow> Inl ValueError | x # xs \<Rightarrow> Inr (max_from f x xs))"

lemma min_from_in: "min_from f a bs \<in> insert a (set bs)"
  by (induction f a bs rule: min_from.induct) auto

lemma min_from_le: "\<forall>b \<in> insert a (set bs). f (min_from f a bs) \<le> f b"
proof (induction f a bs rule: min_from.induct)
  case (2 f a b bs)
  show ?case
  proof (cases "f b < f a")
    case True
    with 2(1) have *: "\<forall>x \<in> insert b (set bs). f (min_from f b bs) \<le> f x" by blast
    then have "f (min_from f b bs) \<le> f b" by blast
    with True have "f (min_from f b bs) \<le> f a" by (meson less_imp_le order.trans)
    with True * show ?thesis by simp
  next
    case False
    with 2(2) have *: "\<forall>x \<in> insert a (set bs). f (min_from f a bs) \<le> f x" by blast
    then have "f (min_from f a bs) \<le> f a" by blast
    with False have "f (min_from f a bs) \<le> f b" by (meson linorder_not_less order.trans)
    with False * show ?thesis by simp
  qed
qed simp

text \<open>Of several elements with the least key, the first one is returned.\<close>

lemma min_from_first: "find (\<lambda>x. f x \<le> f (min_from f a bs)) (a # bs) = Some (min_from f a bs)"
proof (induction bs arbitrary: a)
  case Nil
  show ?case by simp
next
  case (Cons b bs)
  show ?case
  proof (cases "f b < f a")
    case True
    moreover have "f (min_from f b bs) \<le> f b" using min_from_le [where f = f and a = b and bs = bs] by simp
    ultimately have "\<not> f a \<le> f (min_from f b bs)" by (meson leD order.trans)
    then have "find (\<lambda>x. f x \<le> f (min_from f b bs)) (a # b # bs) =
        find (\<lambda>x. f x \<le> f (min_from f b bs)) (b # bs)"
      by (simp only: find.simps if_False)
    with True Cons.IH [of b] show ?thesis by (simp only: min_from.simps if_True)
  next
    case False
    have "find (\<lambda>x. f x \<le> f (min_from f a bs)) (a # b # bs) =
        find (\<lambda>x. f x \<le> f (min_from f a bs)) (a # bs)"
    proof (cases "f a \<le> f (min_from f a bs)")
      case True
      then show ?thesis by (simp only: find.simps if_True)
    next
      case nle: False
      with False have "\<not> f b \<le> f (min_from f a bs)" by (meson leI order.trans)
      with nle show ?thesis by (simp only: find.simps if_False)
    qed
    with False Cons.IH [of a] show ?thesis by (simp only: min_from.simps if_False)
  qed
qed

lemma py_min_Inr_iff [simp]: "(\<exists>m. py_min f xs = Inr m) \<longleftrightarrow> xs \<noteq> []"
  by (cases xs) (simp_all add: py_min_def)

lemma py_min_Nil [simp]: "py_min f [] = Inl ValueError"
  by (simp add: py_min_def)

lemma py_min_in: "py_min f xs = Inr m \<Longrightarrow> m \<in> set xs"
  by (cases xs) (simp_all add: py_min_def, metis insert_iff min_from_in)

lemma py_min_le: "py_min f xs = Inr m \<Longrightarrow> x \<in> set xs \<Longrightarrow> f m \<le> f x"
  by (cases xs) (simp_all add: py_min_def, metis insert_iff min_from_le)

lemma py_min_ok: "xs \<noteq> [] \<Longrightarrow> \<exists>m \<in> set xs. py_min f xs = Inr m"
  using py_min_Inr_iff [of f xs] py_min_in [of f xs] by blast

lemma py_min_first: "py_min f xs = Inr m \<Longrightarrow> find (\<lambda>x. f x \<le> f m) xs = Some m"
  by (cases xs) (auto simp: py_min_def min_from_first simp del: find.simps)

lemma max_from_in: "max_from f a bs \<in> insert a (set bs)"
  by (induction f a bs rule: max_from.induct) auto

lemma max_from_ge: "\<forall>b \<in> insert a (set bs). f b \<le> f (max_from f a bs)"
proof (induction f a bs rule: max_from.induct)
  case (2 f a b bs)
  show ?case
  proof (cases "f a < f b")
    case True
    with 2(1) have *: "\<forall>x \<in> insert b (set bs). f x \<le> f (max_from f b bs)" by blast
    then have "f b \<le> f (max_from f b bs)" by blast
    with True have "f a \<le> f (max_from f b bs)" by (meson less_imp_le order.trans)
    with True * show ?thesis by simp
  next
    case False
    with 2(2) have *: "\<forall>x \<in> insert a (set bs). f x \<le> f (max_from f a bs)" by blast
    then have "f a \<le> f (max_from f a bs)" by blast
    with False have "f b \<le> f (max_from f a bs)" by (meson linorder_not_less order.trans)
    with False * show ?thesis by simp
  qed
qed simp

lemma py_max_Inr_iff [simp]: "(\<exists>m. py_max f xs = Inr m) \<longleftrightarrow> xs \<noteq> []"
  by (cases xs) (simp_all add: py_max_def)

lemma py_max_in: "py_max f xs = Inr m \<Longrightarrow> m \<in> set xs"
  by (cases xs) (simp_all add: py_max_def, metis insert_iff max_from_in)

lemma py_max_ge: "py_max f xs = Inr m \<Longrightarrow> x \<in> set xs \<Longrightarrow> f x \<le> f m"
  by (cases xs) (simp_all add: py_max_def, metis insert_iff max_from_ge)

section \<open>Dicts\<close>

text \<open>A dict is an association list in insertion order; assigning to a key keeps its position.\<close>

fun dict_set :: "'k \<Rightarrow> 'v \<Rightarrow> ('k \<times> 'v) list \<Rightarrow> ('k \<times> 'v) list" where
  "dict_set k v [] = [(k, v)]"
| "dict_set k v ((k', v') # d) = (if k' = k then (k, v) # d else (k', v') # dict_set k v d)"

definition dict_del :: "'k \<Rightarrow> ('k \<times> 'v) list \<Rightarrow> ('k \<times> 'v) list" where
  "dict_del k d = filter (\<lambda>p. fst p \<noteq> k) d"

lemma map_of_dict_set [simp]: "map_of (dict_set k v d) = (map_of d)(k \<mapsto> v)"
  by (induction k v d rule: dict_set.induct) auto

lemma map_of_dict_del [simp]: "map_of (dict_del k d) = (map_of d)(k := None)"
  by (induction d) (auto simp: dict_del_def)

lemma keys_dict_set [simp]: "fst ` set (dict_set k v d) = insert k (fst ` set d)"
  by (induction k v d rule: dict_set.induct) auto

lemma keys_dict_del [simp]: "fst ` set (dict_del k d) = fst ` set d - {k}"
  by (auto simp: dict_del_def)

lemma distinct_dict_set: "distinct (map fst d) \<Longrightarrow> distinct (map fst (dict_set k v d))"
  by (induction k v d rule: dict_set.induct) auto

lemma distinct_dict_del: "distinct (map fst d) \<Longrightarrow> distinct (map fst (dict_del k d))"
  by (induction d) (auto simp: dict_del_def)

section \<open>Lists\<close>

lemma find_SomeD: "find P xs = Some x \<Longrightarrow> x \<in> set xs \<and> P x"
  by (induction xs) (auto split: if_splits)

lemma find_append: "find P (xs @ ys) = (case find P xs of None \<Rightarrow> find P ys | Some x \<Rightarrow> Some x)"
  by (induction xs) auto

lemma find_append_none: "find P xs = None \<Longrightarrow> find P (xs @ ys) = find P ys"
  by (induction xs) (auto split: if_splits)

lemma find_map_key: "(\<And>q. P (f q) = P q) \<Longrightarrow> find P (map f qs) = map_option f (find P qs)"
  by (induction qs) auto

lemma distinct_key_eq: "distinct (map f xs) \<Longrightarrow> x \<in> set xs \<Longrightarrow> y \<in> set xs \<Longrightarrow> f x = f y \<Longrightarrow> x = y"
  by (metis distinct_map inj_onD)

end
