(* ===== verification/Json.thy ===== *)
theory Json
  imports Prelude
begin

text \<open>
  JSON values as the code handles them: \<open>app/core/types.py\<close> names the type, \<open>json.loads\<close> and
  \<open>json.dumps\<close> convert. An object is an association list in insertion order with distinct keys, as a
  Python dict is. A column that holds JSON text is represented by the value the text denotes, or
  \<open>Malformed\<close> when \<open>json.loads\<close> raises.
\<close>

datatype json =
    JNull
  | JBool bool
  | JInt int
  | JFloat pyfloat
  | JStr string
  | JArr "json list"
  | JObj "(string \<times> json) list"

datatype json_text = Malformed | Text json

text \<open>\<open>d.get(k)\<close>, which is \<open>None\<close> both for a missing key and for a null.\<close>

definition jget :: "(string \<times> json) list \<Rightarrow> string \<Rightarrow> json" where
  [py_eval]: "jget d k = (case map_of d k of None \<Rightarrow> JNull | Some v \<Rightarrow> v)"

definition has_key :: "(string \<times> json) list \<Rightarrow> string \<Rightarrow> bool" where
  [py_eval]: "has_key d k = (k \<in> set (map fst d))"

text \<open>\<open>d[k] = v\<close> keeps the position of an existing key.\<close>

fun jset :: "string \<Rightarrow> json \<Rightarrow> (string \<times> json) list \<Rightarrow> (string \<times> json) list" where
  "jset k v [] = [(k, v)]"
| "jset k v ((k', v') # d) = (if k' = k then (k, v) # d else (k', v') # jset k v d)"

text \<open>\<open>d.pop(k, None)\<close>.\<close>

definition jpop :: "string \<Rightarrow> (string \<times> json) list \<Rightarrow> (string \<times> json) list" where
  [py_eval]: "jpop k d = filter (\<lambda>p. fst p \<noteq> k) d"

text \<open>Truth value.\<close>

fun truthy :: "json \<Rightarrow> bool" where
  "truthy JNull = False"
| "truthy (JBool b) = b"
| "truthy (JInt n) = (n \<noteq> 0)"
| "truthy (JFloat x) = (x \<noteq> 0)"
| "truthy (JStr s) = (s \<noteq> [])"
| "truthy (JArr xs) = (xs \<noteq> [])"
| "truthy (JObj d) = (d \<noteq> [])"

fun is_jstr :: "json \<Rightarrow> bool" where
  "is_jstr (JStr s) = True"
| "is_jstr v = False"

fun jstr :: "json \<Rightarrow> string option" where
  "jstr (JStr s) = Some s"
| "jstr v = None"

fun jarr :: "json \<Rightarrow> json list option" where
  "jarr (JArr xs) = Some xs"
| "jarr v = None"

fun jobj :: "json \<Rightarrow> (string \<times> json) list option" where
  "jobj (JObj d) = Some d"
| "jobj v = None"

definition jopt_str :: "string option \<Rightarrow> json" where
  [py_eval]: "jopt_str v = (case v of None \<Rightarrow> JNull | Some s \<Rightarrow> JStr s)"

lemma jstr_eq_Some [simp]: "jstr v = Some s \<longleftrightarrow> v = JStr s"
  by (cases v) auto

lemma jarr_eq_Some [simp]: "jarr v = Some xs \<longleftrightarrow> v = JArr xs"
  by (cases v) auto

lemma jobj_eq_Some [simp]: "jobj v = Some d \<longleftrightarrow> v = JObj d"
  by (cases v) auto

lemma map_of_jset [simp]: "map_of (jset k v d) = (map_of d)(k \<mapsto> v)"
  by (induction k v d rule: jset.induct) auto

lemma set_map_fst_jset [simp]: "fst ` set (jset k v d) = insert k (fst ` set d)"
  by (induction k v d rule: jset.induct) auto

lemma map_of_jpop [simp]: "map_of (jpop k d) = (map_of d)(k := None)"
  by (induction d) (auto simp: jpop_def)

lemma jget_jset [simp]: "jget (jset k v d) k' = (if k' = k then v else jget d k')"
  by (simp add: jget_def)

lemma jget_jpop [simp]: "jget (jpop k d) k' = (if k' = k then JNull else jget d k')"
  by (simp add: jget_def)

lemma has_key_map_of: "has_key d k \<longleftrightarrow> map_of d k \<noteq> None"
  by (simp add: has_key_def map_of_eq_None_iff)

lemma distinct_jset: "distinct (map fst d) \<Longrightarrow> distinct (map fst (jset k v d))"
  by (induction k v d rule: jset.induct) auto

lemma distinct_jpop: "distinct (map fst d) \<Longrightarrow> distinct (map fst (jpop k d))"
  by (induction d) (auto simp: jpop_def)

end
