(* ===== verification/Plan_Usage.thy ===== *)
theory Plan_Usage
  imports Prelude "HOL-Library.AList"
begin

text \<open>
  Account plans and upstream usage windows: \<open>app/core/plan_types.py\<close>, \<open>app/core/usage/__init__.py\<close>,
  \<open>app/core/usage/quota.py\<close> and \<open>app/core/usage/depletion.py\<close>. The lemmas show that plan names are
  normalised into the closed set of plans, that the quota rule blocks exactly the exhausted
  accounts, that weekly rows end up in the secondary window, and the bounds of the usage
  aggregates and of the depletion estimate.
\<close>

section \<open>Plan names\<close>

definition ACCOUNT_PLAN_TYPES :: "string list" where
  "ACCOUNT_PLAN_TYPES =
     [''free'', ''plus'', ''pro'', ''team'', ''business'', ''enterprise'', ''edu'']"

definition RATE_LIMIT_PLAN_TYPES :: "string list" where
  "RATE_LIMIT_PLAN_TYPES = ACCOUNT_PLAN_TYPES @
     [''guest'', ''go'', ''free_workspace'', ''education'', ''quorum'', ''k12'']"

definition clean_plan_type :: "string option \<Rightarrow> string option" where
  "clean_plan_type value = (case value of None \<Rightarrow> None
     | Some v \<Rightarrow> (let cleaned = strip v in if cleaned = [] then None else Some cleaned))"

definition normalize_account_plan_type :: "string option \<Rightarrow> string option" where
  "normalize_account_plan_type value = (case clean_plan_type value of None \<Rightarrow> None
     | Some cleaned \<Rightarrow> (let normalized = py_lower cleaned
         in if normalized \<in> set ACCOUNT_PLAN_TYPES then Some normalized else None))"

definition canonicalize_account_plan_type :: "string option \<Rightarrow> string option" where
  "canonicalize_account_plan_type value = (case clean_plan_type value of None \<Rightarrow> None
     | Some cleaned \<Rightarrow> (let normalized = py_lower cleaned
         in if normalized \<in> set ACCOUNT_PLAN_TYPES then Some normalized else Some cleaned))"

definition coerce_account_plan_type :: "string option \<Rightarrow> string \<Rightarrow> string" where
  "coerce_account_plan_type value dflt = (case clean_plan_type value of None \<Rightarrow> dflt
     | Some cleaned \<Rightarrow> (case canonicalize_account_plan_type (Some cleaned) of
         Some canonical \<Rightarrow> canonical | None \<Rightarrow> dflt))"

definition normalize_rate_limit_plan_type :: "string option \<Rightarrow> string option" where
  "normalize_rate_limit_plan_type value = (case clean_plan_type value of None \<Rightarrow> None
     | Some cleaned \<Rightarrow> (let normalized = py_lower cleaned
         in if normalized \<in> set RATE_LIMIT_PLAN_TYPES then Some normalized else None))"

section \<open>Capacity and window lengths\<close>

definition PLAN_CAPACITY_CREDITS_PRIMARY :: "(string \<times> pyfloat) list" where
  "PLAN_CAPACITY_CREDITS_PRIMARY = [(''free'', 135 / 4), (''plus'', 225), (''business'', 225),
     (''team'', 225), (''edu'', 225), (''pro'', 1500), (''enterprise'', 1500)]"

definition PLAN_CAPACITY_CREDITS_SECONDARY :: "(string \<times> pyfloat) list" where
  "PLAN_CAPACITY_CREDITS_SECONDARY = [(''free'', 1134), (''plus'', 7560), (''business'', 7560),
     (''team'', 7560), (''edu'', 7560), (''pro'', 50400), (''enterprise'', 50400)]"

definition DEFAULT_WINDOW_MINUTES_PRIMARY :: int where
  "DEFAULT_WINDOW_MINUTES_PRIMARY = 300"

definition DEFAULT_WINDOW_MINUTES_SECONDARY :: int where
  "DEFAULT_WINDOW_MINUTES_SECONDARY = 10080"

definition normalize_window_key :: "string option \<Rightarrow> string" where
  "normalize_window_key window =
     (let normalized = py_lower (case window of None \<Rightarrow> [] | Some w \<Rightarrow> w)
      in if normalized \<in> {''primary'', ''5h''} then ''primary''
         else if normalized \<in> {''secondary'', ''7d''} then ''secondary''
         else normalized)"

definition capacity_for_plan :: "string option \<Rightarrow> string \<Rightarrow> pyfloat option" where
  "capacity_for_plan plan_type window = (case normalize_account_plan_type plan_type of
     None \<Rightarrow> None
   | Some normalized \<Rightarrow> (let window_key = normalize_window_key (Some window)
       in if window_key = ''primary'' then map_of PLAN_CAPACITY_CREDITS_PRIMARY normalized
          else if window_key = ''secondary'' then map_of PLAN_CAPACITY_CREDITS_SECONDARY normalized
          else None))"

definition default_window_minutes :: "string \<Rightarrow> int option" where
  "default_window_minutes window =
     (let window_key = normalize_window_key (Some window)
      in if window_key = ''primary'' then Some DEFAULT_WINDOW_MINUTES_PRIMARY
         else if window_key = ''secondary'' then Some DEFAULT_WINDOW_MINUTES_SECONDARY
         else None)"

definition used_credits_from_percent :: "pyfloat option \<Rightarrow> pyfloat option \<Rightarrow> pyfloat option" where
  "used_credits_from_percent used_percent capacity_credits = (case (used_percent, capacity_credits) of
     (Some u, Some c) \<Rightarrow> Some (c * u / 100) | _ \<Rightarrow> None)"

definition remaining_percent_from_used :: "pyfloat option \<Rightarrow> pyfloat option" where
  "remaining_percent_from_used used_percent = map_option (\<lambda>u. max 0 (100 - u)) used_percent"

definition remaining_credits_from_used :: "pyfloat option \<Rightarrow> pyfloat option \<Rightarrow> pyfloat option" where
  "remaining_credits_from_used used_credits capacity_credits = (case (used_credits, capacity_credits) of
     (Some u, Some c) \<Rightarrow> Some (max 0 (c - u)) | _ \<Rightarrow> None)"

definition remaining_credits_from_percent :: "pyfloat option \<Rightarrow> pyfloat option \<Rightarrow> pyfloat option" where
  "remaining_credits_from_percent used_percent capacity_credits =
     remaining_credits_from_used (used_credits_from_percent used_percent capacity_credits)
       capacity_credits"

section \<open>Usage rows and their aggregation\<close>

record usage_window_row =
  row_account_id :: string
  row_used_percent :: "pyfloat option"
  row_reset_at :: "int option"
  row_window_minutes :: "int option"
  row_recorded_at :: "pydatetime option"

record usage_window_summary =
  sum_used_percent :: "pyfloat option"
  sum_capacity_credits :: pyfloat
  sum_used_credits :: pyfloat
  sum_reset_at :: "int option"
  sum_window_minutes :: "int option"

record usage_window_snapshot =
  snap_used_percent :: pyfloat
  snap_capacity_credits :: pyfloat
  snap_used_credits :: pyfloat
  snap_reset_at :: "int option"
  snap_window_minutes :: "int option"

definition normalize_usage_window :: "usage_window_summary \<Rightarrow> usage_window_snapshot" where
  "normalize_usage_window s = \<lparr>snap_used_percent = or_zero (sum_used_percent s),
     snap_capacity_credits = sum_capacity_credits s, snap_used_credits = sum_used_credits s,
     snap_reset_at = sum_reset_at s, snap_window_minutes = sum_window_minutes s\<rparr>"

text \<open>The set of window lengths is kept as a duplicate-free list; \<open>min\<close> of it is order-free.\<close>

definition resolve_window_minutes_values :: "string \<Rightarrow> int list \<Rightarrow> int option" where
  "resolve_window_minutes_values window values = (case values of
     [] \<Rightarrow> default_window_minutes window
   | [v] \<Rightarrow> Some v
   | v # vs \<Rightarrow> (case default_window_minutes window of
       Some d \<Rightarrow> Some d | None \<Rightarrow> Some (min_from id v vs)))"

definition row_window_values :: "usage_window_row list \<Rightarrow> int list" where
  "row_window_values rows =
     remdups (filter (\<lambda>w. w > 0) (List.map_filter row_window_minutes rows))"

definition resolve_window_minutes :: "string \<Rightarrow> usage_window_row list \<Rightarrow> int option" where
  "resolve_window_minutes window rows = resolve_window_minutes_values window (row_window_values rows)"

text \<open>The two running totals of the loop; a row without a percentage or a capacity is skipped.\<close>

fun summarize_totals :: "(string \<Rightarrow> pyfloat option) \<Rightarrow> usage_window_row list \<Rightarrow> pyfloat \<Rightarrow> pyfloat
    \<Rightarrow> pyfloat \<times> pyfloat" where
  "summarize_totals cap [] total_capacity total_used = (total_capacity, total_used)"
| "summarize_totals cap (row # rows) total_capacity total_used =
     (case (row_used_percent row, cap (row_account_id row)) of
        (Some u, Some c) \<Rightarrow> summarize_totals cap rows (total_capacity + c) (total_used + c * u / 100)
      | _ \<Rightarrow> summarize_totals cap rows total_capacity total_used)"

definition summarize_usage_window ::
    "usage_window_row list \<Rightarrow> (string \<rightharpoonup> string) \<Rightarrow> string \<Rightarrow> usage_window_summary" where
  "summarize_usage_window usage_rows plan_of window =
     (let (total_capacity, total_used) =
            summarize_totals (\<lambda>a. capacity_for_plan (plan_of a) window) usage_rows 0 0;
          resets = List.map_filter row_reset_at usage_rows
      in \<lparr>sum_used_percent = (if total_capacity > 0
             then Some (total_used / total_capacity * 100) else None),
          sum_capacity_credits = total_capacity,
          sum_used_credits = total_used,
          sum_reset_at = (case resets of [] \<Rightarrow> None | r # rs \<Rightarrow> Some (min_from id r rs)),
          sum_window_minutes = resolve_window_minutes window usage_rows\<rparr>)"

section \<open>Weekly rows reported in the primary slot\<close>

definition is_weekly_window_minutes :: "int option \<Rightarrow> bool" where
  "is_weekly_window_minutes window_minutes = (case window_minutes of None \<Rightarrow> False
     | Some w \<Rightarrow> (case default_window_minutes ''secondary'' of None \<Rightarrow> False | Some d \<Rightarrow> w = d))"

definition should_prefer_primary_row :: "usage_window_row \<Rightarrow> usage_window_row \<Rightarrow> bool" where
  "should_prefer_primary_row primary_row secondary_row =
     (let p = map_option to_utc_naive (row_recorded_at primary_row);
          s = map_option to_utc_naive (row_recorded_at secondary_row);
          by_reset = (case (row_reset_at primary_row, row_reset_at secondary_row) of
             (Some pr, Some sr) \<Rightarrow> if pr \<noteq> sr then pr > sr else True
           | (Some _, None) \<Rightarrow> True
           | (None, Some _) \<Rightarrow> False
           | (None, None) \<Rightarrow> True)
      in case (p, s) of
           (Some pt, Some st) \<Rightarrow> if pt \<noteq> st then pt > st else by_reset
         | (Some _, None) \<Rightarrow> True
         | (None, Some _) \<Rightarrow> False
         | (None, None) \<Rightarrow> by_reset)"

definition should_use_weekly_primary :: "usage_window_row \<Rightarrow> usage_window_row option \<Rightarrow> bool" where
  "should_use_weekly_primary primary_row secondary_row =
     (if \<not> is_weekly_window_minutes (row_window_minutes primary_row) then False
      else case secondary_row of None \<Rightarrow> True
        | Some s \<Rightarrow> should_prefer_primary_row primary_row s)"

text \<open>A dictionary in insertion order: a later value for a key replaces the earlier in place.\<close>

definition rows_by_account :: "usage_window_row list \<Rightarrow> (string \<times> usage_window_row) list" where
  "rows_by_account rows = fold (\<lambda>r d. AList.update (row_account_id r) r d) rows []"

fun normalize_weekly_loop :: "(string \<times> usage_window_row) list
    \<Rightarrow> (string \<times> usage_window_row) list \<Rightarrow> usage_window_row list
    \<Rightarrow> usage_window_row list \<times> (string \<times> usage_window_row) list" where
  "normalize_weekly_loop [] sec prim = (prim, sec)"
| "normalize_weekly_loop ((account_id, primary_row) # items) sec prim =
     (if is_weekly_window_minutes (row_window_minutes primary_row) then
        (if should_use_weekly_primary primary_row (map_of sec account_id)
         then normalize_weekly_loop items (AList.update account_id primary_row sec) prim
         else normalize_weekly_loop items sec prim)
      else normalize_weekly_loop items sec (prim @ [primary_row]))"

definition normalize_weekly_only_rows :: "usage_window_row list \<Rightarrow> usage_window_row list
    \<Rightarrow> usage_window_row list \<times> usage_window_row list" where
  "normalize_weekly_only_rows primary_rows secondary_rows =
     (let (prim, sec) = normalize_weekly_loop (rows_by_account primary_rows)
            (rows_by_account secondary_rows) []
      in (prim, map snd sec))"

section \<open>The quota rule\<close>

datatype account_status = ACTIVE | RATE_LIMITED | QUOTA_EXCEEDED | PAUSED | DEACTIVATED

definition fallback_primary_reset :: "pyfloat \<Rightarrow> int option \<Rightarrow> pyfloat option" where
  "fallback_primary_reset now primary_window_minutes =
     (let window_minutes = (if truthy_num primary_window_minutes then primary_window_minutes
            else default_window_minutes ''primary'')
      in case window_minutes of None \<Rightarrow> None
         | Some w \<Rightarrow> if w = 0 then None else Some (now + of_int w * 60))"

text \<open>
  The two checks of \<open>runtime_reset > time.time()\<close> are never both reached; \<open>now\<close> is the clock at
  the one that is and \<open>now'\<close> the clock of the fallback reset.
\<close>

definition apply_usage_quota :: "pyfloat \<Rightarrow> pyfloat \<Rightarrow> account_status \<Rightarrow> pyfloat option \<Rightarrow> int option
    \<Rightarrow> int option \<Rightarrow> pyfloat option \<Rightarrow> pyfloat option \<Rightarrow> int option
    \<Rightarrow> account_status \<times> pyfloat option \<times> pyfloat option" where
  "apply_usage_quota now now' status primary_used primary_reset primary_window_minutes
     runtime_reset secondary_used secondary_reset =
   (let held = (truthy_num runtime_reset \<and> the runtime_reset > now);
        sec_reset = map_option of_int secondary_reset :: pyfloat option;
        pri_reset = map_option of_int primary_reset :: pyfloat option;
        primary_step = (\<lambda>status reset_at. case primary_used of
            None \<Rightarrow> (status, primary_used, reset_at)
          | Some p \<Rightarrow>
              if p \<ge> 100 then
                (RATE_LIMITED, Some 100,
                 case pri_reset of Some r \<Rightarrow> Some r
                 | None \<Rightarrow> (let f = fallback_primary_reset now' primary_window_minutes
                     in if truthy_num f then f else reset_at))
              else if status = RATE_LIMITED then
                (if held then (status, primary_used, runtime_reset)
                 else (ACTIVE, primary_used, None))
              else (status, primary_used, reset_at))
    in if status \<in> {DEACTIVATED, PAUSED} then (status, primary_used, runtime_reset)
       else case secondary_used of
         Some s \<Rightarrow>
           if s \<ge> 100 then
             (QUOTA_EXCEEDED, Some 100,
              case sec_reset of Some r \<Rightarrow> Some r | None \<Rightarrow> runtime_reset)
           else if status = QUOTA_EXCEEDED then
             (if held then primary_step status runtime_reset else primary_step ACTIVE None)
           else primary_step status runtime_reset
       | None \<Rightarrow>
           if status = QUOTA_EXCEEDED \<and> sec_reset \<noteq> None then primary_step status sec_reset
           else primary_step status runtime_reset)"

section \<open>Depletion estimate\<close>

record ewma_state =
  rate :: "pyfloat option"
  last_used_percent :: pyfloat
  last_timestamp :: pyfloat
  last_reset_at :: "int option"

definition ewma_update :: "ewma_state option \<Rightarrow> pyfloat \<Rightarrow> pyfloat \<Rightarrow> pyfloat \<Rightarrow> int option
    \<Rightarrow> ewma_state" where
  "ewma_update state used_percent timestamp alpha reset_at =
     (let fresh = \<lparr>rate = None, last_used_percent = used_percent, last_timestamp = timestamp,
                   last_reset_at = reset_at\<rparr>
      in case state of None \<Rightarrow> fresh
         | Some st \<Rightarrow>
           (let dt = timestamp - last_timestamp st;
                window_changed = (reset_at \<noteq> None \<and> last_reset_at st \<noteq> None
                  \<and> reset_at \<noteq> last_reset_at st);
                drop_pct = last_used_percent st - used_percent
            in if dt = 0 then st
               else if drop_pct > 0 \<or> window_changed then fresh
               else (let delta_percent = used_percent - last_used_percent st;
                         raw_rate = max (delta_percent / dt) 0
                     in fresh\<lparr>rate := Some (case rate st of None \<Rightarrow> raw_rate
                          | Some r \<Rightarrow> alpha * raw_rate + (1 - alpha) * r)\<rparr>)))"

definition compute_burn_rate :: "pyfloat \<Rightarrow> pyfloat \<Rightarrow> pyfloat \<Rightarrow> pyfloat" where
  "compute_burn_rate current_rate remaining_percent seconds_until_reset =
     (if current_rate = 0 \<or> seconds_until_reset = 0 then 0
      else let sustainable_rate = remaining_percent / seconds_until_reset
           in if sustainable_rate = 0 then 0 else current_rate / sustainable_rate)"

definition compute_depletion_risk :: "pyfloat \<Rightarrow> pyfloat \<Rightarrow> pyfloat \<Rightarrow> pyfloat" where
  "compute_depletion_risk used_percent rate_per_second seconds_until_reset =
     (let effective_rate = max 0 rate_per_second;
          projected = used_percent + effective_rate * seconds_until_reset
      in min (projected / 100) 1)"

definition compute_safe_usage_percent :: "pyfloat \<Rightarrow> pyfloat \<Rightarrow> pyfloat" where
  "compute_safe_usage_percent seconds_elapsed total_window_seconds =
     (if total_window_seconds = 0 then 0
      else let progress = seconds_elapsed / total_window_seconds
           in min (max progress 0) 1 * 100)"

datatype risk_level = Safe | Warning | Danger | Critical

definition classify_risk :: "pyfloat \<Rightarrow> risk_level" where
  "classify_risk risk =
     (if risk \<ge> 95 / 100 then Critical else if risk \<ge> 80 / 100 then Danger
      else if risk \<ge> 60 / 100 then Warning else Safe)"

definition aggregate_risks :: "pyfloat list \<Rightarrow> pyfloat" where
  "aggregate_risks risks = (case risks of [] \<Rightarrow> 0 | r # rs \<Rightarrow> max_from id r rs)"

text \<open>Notions the statements below use: the latest row of an account, a sequence of updates.\<close>

definition latest_row :: "usage_window_row list \<Rightarrow> string \<Rightarrow> usage_window_row option" where
  "latest_row rows a = find (\<lambda>r. row_account_id r = a) (rev rows)"

definition ewma_run :: "pyfloat \<Rightarrow> (pyfloat \<times> pyfloat \<times> int option) list \<Rightarrow> ewma_state option" where
  "ewma_run alpha obs = fold (\<lambda>(u, t, reset) st. Some (ewma_update st u t alpha reset)) obs None"

section \<open>Plan names are normalised into the closed set\<close>

lemma clean_plan_type_Some:
  "clean_plan_type v = Some c \<Longrightarrow> c \<noteq> [] \<and> strip c = c"
  by (auto simp: clean_plan_type_def Let_def split: option.splits if_splits)

lemma clean_plan_type_idem [simp]:
  "clean_plan_type v = Some c \<Longrightarrow> clean_plan_type (Some c) = Some c"
  using clean_plan_type_Some [of v c] by (simp add: clean_plan_type_def)

lemma account_plan_types_clean:
  "p \<in> set ACCOUNT_PLAN_TYPES \<Longrightarrow> strip p = p \<and> py_lower p = p \<and> p \<noteq> []"
  by (auto simp: ACCOUNT_PLAN_TYPES_def py_eval Let_def)

lemma normalize_account_plan_type_in:
  "normalize_account_plan_type v = Some p \<Longrightarrow> p \<in> set ACCOUNT_PLAN_TYPES"
  by (auto simp: normalize_account_plan_type_def Let_def split: option.splits if_splits)

lemma normalize_account_plan_type_id:
  "p \<in> set ACCOUNT_PLAN_TYPES \<Longrightarrow> normalize_account_plan_type (Some p) = Some p"
  using account_plan_types_clean [of p]
  by (simp add: normalize_account_plan_type_def clean_plan_type_def)

lemma capacity_tables_positive:
  "\<forall>e \<in> set PLAN_CAPACITY_CREDITS_PRIMARY. 0 < snd e"
  "\<forall>e \<in> set PLAN_CAPACITY_CREDITS_SECONDARY. 0 < snd e"
  by (simp_all add: PLAN_CAPACITY_CREDITS_PRIMARY_def PLAN_CAPACITY_CREDITS_SECONDARY_def)

lemma capacity_tables_total:
  "set ACCOUNT_PLAN_TYPES \<subseteq> fst ` set PLAN_CAPACITY_CREDITS_PRIMARY"
  "set ACCOUNT_PLAN_TYPES \<subseteq> fst ` set PLAN_CAPACITY_CREDITS_SECONDARY"
  by (simp_all add: ACCOUNT_PLAN_TYPES_def PLAN_CAPACITY_CREDITS_PRIMARY_def
      PLAN_CAPACITY_CREDITS_SECONDARY_def)

lemma capacity_for_plan_pos:
  assumes "capacity_for_plan p w = Some c"
  shows "0 < c"
proof -
  from assms obtain n where
    "map_of PLAN_CAPACITY_CREDITS_PRIMARY n = Some c
     \<or> map_of PLAN_CAPACITY_CREDITS_SECONDARY n = Some c"
    by (auto simp: capacity_for_plan_def Let_def split: option.splits if_splits)
  then have "(n, c) \<in> set PLAN_CAPACITY_CREDITS_PRIMARY \<union> set PLAN_CAPACITY_CREDITS_SECONDARY"
    by (auto dest: map_of_SomeD)
  with capacity_tables_positive show ?thesis by auto
qed

section \<open>The quota rule, weekly rows and aggregates\<close>

text \<open>
  \<open>apply_usage_quota\<close> reports an account as active exactly when neither window is exhausted and
  it either was active already or is released: a quota block by an observed secondary window, a
  rate limit by an observed primary window, and no reset time lies in the future. Paused and
  deactivated accounts never become active.
\<close>

theorem apply_usage_quota_active_iff:
  "fst (apply_usage_quota now now' status primary_used primary_reset primary_window_minutes
      runtime_reset secondary_used secondary_reset) = ACTIVE \<longleftrightarrow>
   pred_option (\<lambda>p. p < 100) primary_used \<and> pred_option (\<lambda>s. s < 100) secondary_used \<and>
   (status = ACTIVE \<or>
    \<not> (truthy_num runtime_reset \<and> the runtime_reset > now) \<and>
    (status = QUOTA_EXCEEDED \<and> secondary_used \<noteq> None \<or>
     status = RATE_LIMITED \<and> primary_used \<noteq> None))"
  unfolding apply_usage_quota_def Let_def
  by (cases status; cases primary_used; cases secondary_used) (simp_all add: not_le)

text \<open>The dictionary built from a list of rows keeps the last row of each account.\<close>

lemma map_of_rows_by_account:
  "map_of (rows_by_account rows) a = find (\<lambda>r. row_account_id r = a) (rev rows)"
proof -
  have "map_of (rows_by_account rows) a = find (\<lambda>r. row_account_id r = a) (rev rows)"
    by (induction rows rule: rev_induct) (simp_all add: rows_by_account_def update_conv')
  then show ?thesis .
qed

lemma rows_by_account_keys:
  "distinct (map fst (rows_by_account rows)) \<and>
   (\<forall>e \<in> set (rows_by_account rows). row_account_id (snd e) = fst e)"
proof (induction rows rule: rev_induct)
  case Nil
  show ?case by (simp add: rows_by_account_def)
next
  case (snoc r rows)
  let ?d = "rows_by_account rows"
  have d: "rows_by_account (rows @ [r]) = AList.update (row_account_id r) r ?d"
    by (simp add: rows_by_account_def)
  have dist: "distinct (map fst (rows_by_account (rows @ [r])))"
    using snoc d by (simp add: distinct_update)
  moreover have "row_account_id (snd e) = fst e" if "e \<in> set (rows_by_account (rows @ [r]))" for e
  proof -
    from that dist have "map_of (rows_by_account (rows @ [r])) (fst e) = Some (snd e)" by simp
    then show ?thesis by (auto simp: map_of_rows_by_account find_Some_iff split: if_splits)
  qed
  ultimately show ?case by blast
qed

text \<open>The loop over the primary rows: what it does to one account.\<close>

lemma normalize_weekly_loop_spec:
  assumes "distinct (map fst items)" and "normalize_weekly_loop items sec prim = (prim', sec')"
  shows "prim' = prim @ filter (\<lambda>r. \<not> is_weekly_window_minutes (row_window_minutes r)) (map snd items)"
    and "map_of sec' a = (case map_of items a of None \<Rightarrow> map_of sec a
       | Some r \<Rightarrow> if should_use_weekly_primary r (map_of sec a) then Some r else map_of sec a)"
  using assms
proof (induction items arbitrary: sec prim)
  case (Cons item items)
  obtain k r where item: "item = (k, r)" by (cases item)
  {
    case 1
    with Cons.IH(1) [of _ prim] Cons.IH(1) [of _ "prim @ [r]"] show ?case
      by (auto simp: item split: if_splits)
  next
    case 2
    have k: "map_of items k = None" using 2(1) by (simp add: item map_of_eq_None_iff)
    from 2 Cons.IH(2) [of _ prim] Cons.IH(2) [of _ "prim @ [r]"] k show ?case
      by (auto simp: item update_conv' should_use_weekly_primary_def split: if_splits option.splits)
  }
qed auto

lemma normalize_weekly_loop_keyed:
  assumes "normalize_weekly_loop items sec prim = (prim', sec')"
    and "\<forall>e \<in> set items. row_account_id (snd e) = fst e"
    and "\<forall>e \<in> set sec. row_account_id (snd e) = fst e" and "distinct (map fst sec)"
  shows "\<forall>e \<in> set sec'. row_account_id (snd e) = fst e"
  using assms
proof (induction items arbitrary: sec prim)
  case (Cons item items)
  obtain k r where item: "item = (k, r)" by (cases item)
  have "set (AList.update k r sec) \<subseteq> insert (k, r) (set sec)" by (induction sec) auto
  with Cons.prems have upd: "\<forall>e \<in> set (AList.update k r sec). row_account_id (snd e) = fst e"
    by (fastforce simp: item)
  have dist: "distinct (map fst (AList.update k r sec))"
    using Cons.prems(4) by (simp add: distinct_update)
  show ?case
    using Cons.prems Cons.IH [of "AList.update k r sec" prim] Cons.IH [of sec prim]
      Cons.IH [of sec "prim @ [r]"] upd dist
    by (simp add: item split: if_splits)
qed simp

lemma find_keyed:
  "\<forall>e \<in> set d. row_account_id (snd e) = fst e \<Longrightarrow>
   find (\<lambda>r. row_account_id r = a) (map snd d) = map_of d a"
  by (induction d) auto

text \<open>
  \<open>normalize_weekly_only_rows\<close> moves weekly rows out of the primary window: the primary rows
  returned are exactly the latest row of each account whose window is not weekly, and the
  secondary row of an account is its weekly primary row when that one is preferred (newer, or
  there is no secondary row) and its secondary row otherwise.
\<close>

theorem normalize_weekly_only_rows_spec:
  "(r \<in> set (fst (normalize_weekly_only_rows primary_rows secondary_rows)) \<longleftrightarrow>
       \<not> is_weekly_window_minutes (row_window_minutes r) \<and>
       latest_row primary_rows (row_account_id r) = Some r) \<and>
     find (\<lambda>r. row_account_id r = a) (snd (normalize_weekly_only_rows primary_rows secondary_rows)) =
       (case latest_row primary_rows a of
          None \<Rightarrow> latest_row secondary_rows a
        | Some p \<Rightarrow> if should_use_weekly_primary p (latest_row secondary_rows a) then Some p
            else latest_row secondary_rows a)"
proof -
  let ?P = "rows_by_account primary_rows" and ?S = "rows_by_account secondary_rows"
  obtain prim sec where loop: "normalize_weekly_loop ?P ?S [] = (prim, sec)" by fastforce
  then have res: "normalize_weekly_only_rows primary_rows secondary_rows = (prim, map snd sec)"
    by (simp add: normalize_weekly_only_rows_def)
  note keys = rows_by_account_keys
  have prim: "prim = filter (\<lambda>r. \<not> is_weekly_window_minutes (row_window_minutes r)) (map snd ?P)"
    using normalize_weekly_loop_spec(1) [OF _ loop] keys by simp
  have mem: "r \<in> set (map snd ?P) \<longleftrightarrow> latest_row primary_rows (row_account_id r) = Some r"
    using keys [of primary_rows] by (force simp: latest_row_def map_of_rows_by_account [symmetric])
  have sec: "find (\<lambda>r. row_account_id r = a) (map snd sec) = map_of sec a"
    using normalize_weekly_loop_keyed [OF loop] keys find_keyed by blast
  have S: "map_of ?S a = latest_row secondary_rows a" and P: "map_of ?P a = latest_row primary_rows a"
    by (simp_all only: map_of_rows_by_account latest_row_def)
  have "map_of sec a = (case latest_row primary_rows a of None \<Rightarrow> latest_row secondary_rows a
      | Some p \<Rightarrow> if should_use_weekly_primary p (latest_row secondary_rows a) then Some p
          else latest_row secondary_rows a)"
    using normalize_weekly_loop_spec(2) [OF _ loop, of a] keys by (simp only: S P)
  with mem show ?thesis by (simp add: res prim sec conj_commute)
qed

section \<open>Bounds\<close>

lemma summarize_totals_bounds:
  assumes "summarize_totals cap rows tc tu = (tc', tu')" and "0 \<le> tu" "tu \<le> tc"
    and "\<And>a c. cap a = Some c \<Longrightarrow> 0 < c"
    and "\<forall>r \<in> set rows. pred_option (\<lambda>u. 0 \<le> u \<and> u \<le> 100) (row_used_percent r)"
  shows "0 \<le> tu' \<and> tu' \<le> tc'"
  using assms
proof (induction cap rows tc tu rule: summarize_totals.induct)
  case (2 cap row rows tc tu)
  show ?case
  proof (cases "row_used_percent row \<noteq> None \<and> cap (row_account_id row) \<noteq> None")
    case True
    then obtain u c where uc: "row_used_percent row = Some u" "cap (row_account_id row) = Some c" by auto
    from 2 uc have "0 \<le> u" "u \<le> 100" "0 < c" by auto
    then have "0 \<le> c * u / 100" "c * u / 100 \<le> c" by (simp_all add: field_simps)
    with 2 uc show ?thesis by simp
  next
    case False
    with 2 show ?thesis by (auto split: option.splits)
  qed
qed simp

text \<open>
  When every row reports a percentage between 0 and 100 (or none), the summary of a window uses
  at most its capacity and its overall percentage lies between 0 and 100.
\<close>

theorem summarize_usage_window_bounds:
  assumes "\<forall>r \<in> set rows. pred_option (\<lambda>u. 0 \<le> u \<and> u \<le> 100) (row_used_percent r)"
  shows "0 \<le> sum_used_credits (summarize_usage_window rows plan_of window) \<and>
    sum_used_credits (summarize_usage_window rows plan_of window)
      \<le> sum_capacity_credits (summarize_usage_window rows plan_of window) \<and>
    pred_option (\<lambda>p. 0 \<le> p \<and> p \<le> 100) (sum_used_percent (summarize_usage_window rows plan_of window))"
proof -
  obtain tc tu where t: "summarize_totals (\<lambda>a. capacity_for_plan (plan_of a) window) rows 0 0 = (tc, tu)"
    by fastforce
  have "0 \<le> tu" "tu \<le> tc"
    using summarize_totals_bounds [OF t] assms capacity_for_plan_pos by auto
  then show ?thesis by (auto simp: summarize_usage_window_def t field_simps)
qed

theorem summarize_usage_window_bounds_witness:
  "sum_used_percent (summarize_usage_window
     [\<lparr>row_account_id = ''a'', row_used_percent = Some 50, row_reset_at = Some 7,
       row_window_minutes = Some 300, row_recorded_at = None\<rparr>]
     [''a'' \<mapsto> ''Plus''] ''primary'') = Some 50 \<and>
   pred_option (\<lambda>p. 0 \<le> p \<and> p \<le> 100) (sum_used_percent (summarize_usage_window
     [\<lparr>row_account_id = ''a'', row_used_percent = Some 50, row_reset_at = Some 7,
       row_window_minutes = Some 300, row_recorded_at = None\<rparr>]
     [''a'' \<mapsto> ''Plus''] ''primary''))"
proof -
  let ?rows = "[\<lparr>row_account_id = ''a'', row_used_percent = Some 50, row_reset_at = Some 7,
       row_window_minutes = Some 300, row_recorded_at = None\<rparr>]"
  have h: "\<forall>r \<in> set ?rows. pred_option (\<lambda>u. 0 \<le> u \<and> u \<le> 100) (row_used_percent r)" by simp
  have "sum_used_percent (summarize_usage_window ?rows [''a'' \<mapsto> ''Plus''] ''primary'') = Some 50"
    by code_simp
  with summarize_usage_window_bounds [OF h] show ?thesis by simp
qed

lemma ewma_update_rate_nonneg:
  assumes "0 \<le> alpha" "alpha \<le> 1" and "pred_option (\<lambda>s. pred_option (\<lambda>r. 0 \<le> r) (rate s)) st"
  shows "pred_option (\<lambda>r. 0 \<le> r) (rate (ewma_update st used t alpha reset))"
  using assms by (auto simp: ewma_update_def Let_def split: option.splits)

lemma ewma_run_rate_nonneg:
  assumes "0 \<le> alpha" "alpha \<le> 1"
  shows "pred_option (\<lambda>s. pred_option (\<lambda>r. 0 \<le> r) (rate s)) (ewma_run alpha obs)"
  by (induction obs rule: rev_induct)
     (auto simp: ewma_run_def ewma_update_rate_nonneg [OF assms])

end
