(* ===== verification/Balancer.thy ===== *)
theory Balancer
  imports Plan_Usage
begin

text \<open>
  The account balancer: \<open>app/core/balancer/logic.py\<close>, \<open>app/core/balancer/rendezvous_hash.py\<close> and
  \<open>app/core/utils/retry.py\<close>. \<open>select_account\<close> mutates the states it is given, so its model returns
  the list of states after the call beside the result. Randomness is an argument: \<open>u\<close> is the
  value of \<open>random.random()\<close> that \<open>random.choices\<close> draws and \<open>jitter\<close> the value of
  \<open>random.uniform\<close>. A function that reads the clock several times takes the readings in order as
  \<open>clk 0\<close>, \<open>clk 1\<close> and so on.
\<close>

section \<open>State\<close>

record account_state =
  account_id :: string
  status :: account_status
  used_percent :: "pyfloat option"
  reset_at :: "pyfloat option"
  blocked_at :: "pyfloat option"
  cooldown_until :: "pyfloat option"
  secondary_used_percent :: "pyfloat option"
  secondary_reset_at :: "int option"
  last_error_at :: "pyfloat option"
  last_selected_at :: "pyfloat option"
  error_count :: int
  deactivation_reason :: "string option"
  plan_type :: "string option"
  capacity_credits :: "pyfloat option"
  health_tier :: int

record selection_result =
  account :: "account_state option"
  error_message :: "string option"

datatype routing_strategy = usage_weighted | round_robin | capacity_weighted

record upstream_error =
  err_message :: "string option"
  err_resets_at :: "pyfloat option"
  err_resets_in_seconds :: "pyfloat option"

definition PERMANENT_FAILURE_CODES :: "(string \<times> string) list" where
  "PERMANENT_FAILURE_CODES =
     [(''refresh_token_expired'', ''Refresh token expired - re-login required''),
      (''refresh_token_reused'', ''Refresh token was reused - re-login required''),
      (''refresh_token_invalidated'', ''Refresh token was revoked - re-login required''),
      (''account_deactivated'', ''Account has been deactivated''),
      (''account_suspended'', ''Account has been suspended''),
      (''account_deleted'', ''Account has been deleted'')]"

definition CAPACITY_PLAN_ALIASES :: "(string \<times> string) list" where
  "CAPACITY_PLAN_ALIASES = [(''education'', ''edu''), (''k12'', ''edu''), (''guest'', ''free''),
     (''go'', ''free''), (''free_workspace'', ''free''), (''quorum'', ''free''), (''unknown'', ''free'')]"

abbreviation HEALTH_TIER_HEALTHY :: int where "HEALTH_TIER_HEALTHY \<equiv> 0"
abbreviation HEALTH_TIER_DRAINING :: int where "HEALTH_TIER_DRAINING \<equiv> 1"
abbreviation HEALTH_TIER_PROBING :: int where "HEALTH_TIER_PROBING \<equiv> 2"
abbreviation SECONDS_PER_DAY :: pyfloat where "SECONDS_PER_DAY \<equiv> 86400"
abbreviation UNKNOWN_RESET_BUCKET_DAYS :: int where "UNKNOWN_RESET_BUCKET_DAYS \<equiv> 10000"

section \<open>Sort keys and weights\<close>

definition usage_sort_key :: "account_state \<Rightarrow> pyfloat \<times> pyfloat \<times> pyfloat \<times> string" where
  "usage_sort_key state =
     (let primary_used = (case used_percent state of None \<Rightarrow> 0 | Some p \<Rightarrow> p);
          secondary_used = (case secondary_used_percent state of None \<Rightarrow> primary_used | Some s \<Rightarrow> s)
      in (secondary_used, primary_used, or_zero (last_selected_at state), account_id state))"

definition reset_bucket_days :: "account_state \<Rightarrow> pyfloat \<Rightarrow> int" where
  "reset_bucket_days state current = (case secondary_reset_at state of
     None \<Rightarrow> UNKNOWN_RESET_BUCKET_DAYS
   | Some r \<Rightarrow> max 0 \<lfloor>(of_int r - current) / SECONDS_PER_DAY\<rfloor>)"

definition prefer_earlier_reset_candidates ::
    "account_state list \<Rightarrow> pyfloat \<Rightarrow> py_error + account_state list" where
  "prefer_earlier_reset_candidates available current =
     bind_sum (py_min (\<lambda>state. reset_bucket_days state current) available)
       (\<lambda>m. Inr (filter (\<lambda>state. reset_bucket_days state current = reset_bucket_days m current)
          available))"

definition fallback_secondary_capacity_credits :: "string option \<Rightarrow> pyfloat" where
  "fallback_secondary_capacity_credits plan =
     (let normalized = py_lower (strip (case plan of None \<Rightarrow> [] | Some p \<Rightarrow> p));
          resolved_plan = (case map_of CAPACITY_PLAN_ALIASES normalized of Some a \<Rightarrow> a
            | None \<Rightarrow> if normalized = [] then ''free'' else normalized)
      in case map_of PLAN_CAPACITY_CREDITS_SECONDARY resolved_plan of Some c \<Rightarrow> c
         | None \<Rightarrow> the (map_of PLAN_CAPACITY_CREDITS_SECONDARY ''free''))"

definition remaining_secondary_credits :: "account_state \<Rightarrow> pyfloat" where
  "remaining_secondary_credits state =
     (let used_pct = (case secondary_used_percent state of Some s \<Rightarrow> s
            | None \<Rightarrow> (case used_percent state of Some p \<Rightarrow> p | None \<Rightarrow> 0));
          remaining = (\<lambda>capacity. max 0 (capacity * (1 - min used_pct 100 / 100)))
      in case capacity_credits state of
           None \<Rightarrow> remaining (fallback_secondary_capacity_credits (plan_type state))
         | Some capacity \<Rightarrow> if capacity \<le> 0 then 0 else remaining capacity)"

definition capacity_probe_sort_key ::
    "account_state \<Rightarrow> pyfloat \<times> pyfloat \<times> pyfloat \<times> pyfloat \<times> string" where
  "capacity_probe_sort_key state = (- remaining_secondary_credits state, usage_sort_key state)"

definition reset_first_sort_key ::
    "pyfloat \<Rightarrow> account_state \<Rightarrow> int \<times> pyfloat \<times> pyfloat \<times> pyfloat \<times> string" where
  "reset_first_sort_key current state = (reset_bucket_days state current, usage_sort_key state)"

definition round_robin_sort_key :: "account_state \<Rightarrow> pyfloat \<times> string" where
  "round_robin_sort_key state = (or_zero (last_selected_at state), account_id state)"

text \<open>
  \<open>random.choices(population, weights, k=1)[0]\<close>: the position is found by \<open>bisect\<close> in the running
  sums of the weights, searching all but the last.
\<close>

fun running_sums :: "pyfloat \<Rightarrow> pyfloat list \<Rightarrow> pyfloat list" where
  "running_sums acc [] = []"
| "running_sums acc (w # ws) = (acc + w) # running_sums (acc + w) ws"

definition bisect_right :: "pyfloat list \<Rightarrow> pyfloat \<Rightarrow> nat \<Rightarrow> nat" where
  "bisect_right cum x hi = length (takeWhile (\<lambda>c. c \<le> x) (take hi cum))"

definition random_choice :: "pyfloat \<Rightarrow> 'a list \<Rightarrow> pyfloat list \<Rightarrow> 'a" where
  "random_choice u population weights =
     (let cum = running_sums 0 weights
      in population ! bisect_right cum (u * last cum) (length population - 1))"

definition select_capacity_weighted ::
    "pyfloat \<Rightarrow> account_state list \<Rightarrow> py_error + account_state" where
  "select_capacity_weighted u available =
     (let weights = map remaining_secondary_credits available; total = sum_list weights
      in if total \<le> 0 then py_min usage_sort_key available
         else Inr (random_choice u available weights))"

section \<open>Selection\<close>

datatype verdict = Skipped | InBackoff | Eligible

definition error_backoff :: "int \<Rightarrow> pyfloat" where
  "error_backoff n = min 300 (30 * 2 ^ nat (n - 3))"

text \<open>
  The body of the loop over the states: what becomes of one state, and whether the loop skips it
  (\<open>continue\<close>), files it under \<open>in_error_backoff\<close> or appends it to \<open>available\<close>.
\<close>

definition block_expired :: "pyfloat \<Rightarrow> account_state \<Rightarrow> bool" where
  "block_expired current st = (truthy_num (reset_at st) \<and> current \<ge> the (reset_at st))"

definition check_cooldown_and_errors :: "pyfloat \<Rightarrow> account_state \<Rightarrow> verdict \<times> account_state" where
  "check_cooldown_and_errors current st =
     (let st = (if truthy_num (cooldown_until st) \<and> current \<ge> the (cooldown_until st)
                then st\<lparr>cooldown_until := None, last_error_at := None, error_count := 0\<rparr> else st)
      in if truthy_num (cooldown_until st) \<and> current < the (cooldown_until st) then (Skipped, st)
         else if error_count st \<ge> 3 then
           (if truthy_num (last_error_at st)
               \<and> current - the (last_error_at st) < error_backoff (error_count st)
            then (InBackoff, st)
            else (Eligible, st\<lparr>error_count := 0, last_error_at := None\<rparr>))
         else (Eligible, st))"

definition triage :: "pyfloat \<Rightarrow> account_state \<Rightarrow> verdict \<times> account_state" where
  "triage current st = (case status st of
     DEACTIVATED \<Rightarrow> (Skipped, st)
   | PAUSED \<Rightarrow> (Skipped, st)
   | RATE_LIMITED \<Rightarrow>
       if block_expired current st
       then check_cooldown_and_errors current
              (st\<lparr>status := ACTIVE, error_count := 0, reset_at := None\<rparr>)
       else (Skipped, st)
   | QUOTA_EXCEEDED \<Rightarrow>
       if block_expired current st
       then check_cooldown_and_errors current
              (st\<lparr>status := ACTIVE, used_percent := Some 0, reset_at := None\<rparr>)
       else (Skipped, st)
   | ACTIVE \<Rightarrow> check_cooldown_and_errors current st)"

definition hard_blocked :: "account_state \<Rightarrow> bool" where
  "hard_blocked st = (status st \<in> {PAUSED, DEACTIVATED, RATE_LIMITED, QUOTA_EXCEEDED})"

definition backoff_expires_at :: "account_state \<Rightarrow> pyfloat" where
  "backoff_expires_at s = or_zero (last_error_at s) + error_backoff (error_count s)"

definition retry_message :: "pyfloat \<Rightarrow> string" where
  "retry_message wait_seconds =
     ''Rate limit exceeded. Try again in '' @ show_int (round_half_even wait_seconds) @ ''s''"

definition unavailable_message :: "pyfloat \<Rightarrow> account_state list \<Rightarrow> string" where
  "unavailable_message current all_states =
     (let has = (\<lambda>k. \<exists>s \<in> set all_states. status s = k);
          reset_candidates = List.map_filter
            (\<lambda>s. if status s = QUOTA_EXCEEDED \<and> truthy_num (reset_at s) then reset_at s else None)
            all_states;
          cooldowns = List.map_filter
            (\<lambda>s. if truthy_num (cooldown_until s) \<and> the (cooldown_until s) > current
                 then cooldown_until s else None) all_states;
          after_quota = (case cooldowns of
              [] \<Rightarrow> ''No available accounts''
            | c # cs \<Rightarrow> retry_message (max 0 (min_from id c cs - current)))
      in if has PAUSED \<and> has DEACTIVATED \<and> \<not> has RATE_LIMITED \<and> \<not> has QUOTA_EXCEEDED
         then ''All accounts are paused or require re-authentication''
         else if has PAUSED \<and> \<not> has RATE_LIMITED \<and> \<not> has QUOTA_EXCEEDED
         then ''All accounts are paused''
         else if has DEACTIVATED \<and> \<not> has RATE_LIMITED \<and> \<not> has QUOTA_EXCEEDED
         then ''All accounts require re-authentication''
         else case reset_candidates of
             r # rs \<Rightarrow> retry_message (max 0 (min_from id r rs - of_int (py_int current)))
           | [] \<Rightarrow> after_quota)"

definition effective_pool :: "account_state list \<Rightarrow> account_state list" where
  "effective_pool available =
     (let healthy = filter (\<lambda>s. health_tier s = HEALTH_TIER_HEALTHY) available;
          probing = filter (\<lambda>s. health_tier s = HEALTH_TIER_PROBING) available;
          draining = filter (\<lambda>s. health_tier s = HEALTH_TIER_DRAINING) available
      in if healthy \<noteq> [] then healthy else if probing \<noteq> [] then probing
         else if draining \<noteq> [] then draining else available)"

definition choose_from_pool :: "pyfloat \<Rightarrow> pyfloat \<Rightarrow> bool \<Rightarrow> routing_strategy \<Rightarrow> bool
    \<Rightarrow> account_state list \<Rightarrow> py_error + account_state" where
  "choose_from_pool u current prefer_earlier_reset strategy deterministic_probe pool =
     (case strategy of
        round_robin \<Rightarrow> py_min round_robin_sort_key pool
      | capacity_weighted \<Rightarrow>
          bind_sum (if prefer_earlier_reset then prefer_earlier_reset_candidates pool current
                    else Inr pool)
            (\<lambda>candidate_pool. if deterministic_probe then py_min capacity_probe_sort_key candidate_pool
               else select_capacity_weighted u candidate_pool)
      | usage_weighted \<Rightarrow> if prefer_earlier_reset then py_min (reset_first_sort_key current) pool
          else py_min usage_sort_key pool)"

text \<open>\<open>now or time.time()\<close>: a clock of 0 counts as not given.\<close>

definition effective_now :: "pyfloat option \<Rightarrow> pyfloat \<Rightarrow> pyfloat" where
  "effective_now now clock = (if truthy_num now then the now else clock)"

definition select_account :: "pyfloat \<Rightarrow> pyfloat \<Rightarrow> account_state list \<Rightarrow> pyfloat option \<Rightarrow> bool
    \<Rightarrow> routing_strategy \<Rightarrow> bool \<Rightarrow> bool \<Rightarrow> py_error + account_state list \<times> selection_result" where
  "select_account u clock states now prefer_earlier_reset strategy allow_backoff_fallback
     deterministic_probe =
   (let current = effective_now now clock;
        triaged = map (triage current) states;
        all_states = map snd triaged;
        available = map snd (filter (\<lambda>p. fst p = Eligible) triaged);
        in_error_backoff = map snd (filter (\<lambda>p. fst p = InBackoff) triaged);
        pick = (\<lambda>available. bind_sum (choose_from_pool u current prefer_earlier_reset strategy
                 deterministic_probe (effective_pool available))
                 (\<lambda>s. Inr (all_states, \<lparr>account = Some s, error_message = None\<rparr>)))
    in if available \<noteq> [] then pick available
       else if allow_backoff_fallback \<and> (length in_error_backoff > 1
              \<or> (in_error_backoff \<noteq> [] \<and> (\<exists>s \<in> set all_states. hard_blocked s)))
       then bind_sum (py_min backoff_expires_at in_error_backoff) (\<lambda>s. pick [s])
       else Inr (all_states, \<lparr>account = None,
                 error_message = Some (unavailable_message current all_states)\<rparr>))"

section \<open>Retry hints\<close>

definition is_digit :: "char \<Rightarrow> bool" where
  "is_digit c = (let n = (of_char c :: nat) in 48 \<le> n \<and> n \<le> 57)"

definition digit_val :: "char \<Rightarrow> nat" where
  "digit_val c = of_char c - 48"

definition digits_val :: "string \<Rightarrow> nat" where
  "digits_val ds = foldl (\<lambda>acc c. 10 * acc + digit_val c) 0 ds"

text \<open>
  \<open>_RETRY_PATTERN.search\<close>: the leftmost position where \<open>try again in\<close>, a number, and a unit
  starting with \<open>s\<close> or \<open>ms\<close> match. Every part is greedy and no shorter choice of one part lets a
  later part match, so one deterministic pass decides a position.
\<close>

definition match_unit :: "string \<Rightarrow> bool option" where
  "match_unit s = (let t = py_lower s
     in if prefix ''s'' t then Some False else if prefix ''ms'' t then Some True else None)"

definition match_number :: "string \<Rightarrow> (pyfloat \<times> string) option" where
  "match_number s =
     (let ds = takeWhile is_digit s; rest = dropWhile is_digit s
      in if ds = [] then None
         else case rest of
           c # r \<Rightarrow>
             (let fs = takeWhile is_digit r
              in if c = CHR ''.'' \<and> fs \<noteq> []
                 then Some (of_nat (digits_val ds) + of_nat (digits_val fs) / 10 ^ length fs,
                            dropWhile is_digit r)
                 else Some (of_nat (digits_val ds), rest))
         | [] \<Rightarrow> Some (of_nat (digits_val ds), rest))"

definition match_retry_here :: "string \<Rightarrow> pyfloat option" where
  "match_retry_here s =
     (let key = ''try again in''
      in if \<not> prefix key (py_lower s) then None
         else case match_number (dropWhile is_space (drop (length key) s)) of
           None \<Rightarrow> None
         | Some (v, rest) \<Rightarrow> (case match_unit (dropWhile is_space rest) of
             None \<Rightarrow> None
           | Some ms \<Rightarrow> Some (if ms then v / 1000 else v)))"

fun parse_retry_after :: "string \<Rightarrow> pyfloat option" where
  "parse_retry_after [] = match_retry_here []"
| "parse_retry_after (c # s) = (case match_retry_here (c # s) of
     Some v \<Rightarrow> Some v | None \<Rightarrow> parse_retry_after s)"

definition backoff_seconds :: "pyfloat \<Rightarrow> int \<Rightarrow> pyfloat" where
  "backoff_seconds jitter attempt =
     (let attempt = (if attempt < 1 then 1 else attempt);
          base_ms = 200 * 2 ^ nat (attempt - 1)
      in base_ms * jitter / 1000)"

section \<open>Error handlers\<close>

definition extract_reset_at :: "pyfloat \<Rightarrow> upstream_error \<Rightarrow> int option" where
  "extract_reset_at now error = (case err_resets_at error of
     Some r \<Rightarrow> Some (py_int r)
   | None \<Rightarrow> (case err_resets_in_seconds error of
       Some d \<Rightarrow> Some (py_int (now + d)) | None \<Rightarrow> None))"

definition handle_rate_limit ::
    "(nat \<Rightarrow> pyfloat) \<Rightarrow> pyfloat \<Rightarrow> account_state \<Rightarrow> upstream_error \<Rightarrow> account_state" where
  "handle_rate_limit clk jitter state error =
     (let state = state\<lparr>status := RATE_LIMITED, error_count := error_count state + 1,
                        last_error_at := Some (clk 0), blocked_at := Some (clk 1)\<rparr>;
          state = (case extract_reset_at (clk 2) error of
             Some r \<Rightarrow> state\<lparr>reset_at := Some (of_int r)\<rparr> | None \<Rightarrow> state);
          delay = (if truthy_str (err_message error) then parse_retry_after (the (err_message error))
                   else None);
          delay = (case delay of Some d \<Rightarrow> d | None \<Rightarrow> backoff_seconds jitter (error_count state))
      in state\<lparr>cooldown_until := Some (clk 3 + delay)\<rparr>)"

definition QUOTA_EXCEEDED_COOLDOWN_SECONDS :: pyfloat where
  "QUOTA_EXCEEDED_COOLDOWN_SECONDS = 120"

definition handle_quota_exceeded ::
    "(nat \<Rightarrow> pyfloat) \<Rightarrow> account_state \<Rightarrow> upstream_error \<Rightarrow> account_state" where
  "handle_quota_exceeded clk state error =
     state\<lparr>status := QUOTA_EXCEEDED, used_percent := Some 100, blocked_at := Some (clk 0),
       cooldown_until := Some (clk 1 + QUOTA_EXCEEDED_COOLDOWN_SECONDS),
       reset_at := (case extract_reset_at (clk 2) error of
          Some r \<Rightarrow> Some (of_int r) | None \<Rightarrow> Some (of_int (py_int (clk 3 + 3600))))\<rparr>"

definition handle_permanent_failure :: "account_state \<Rightarrow> string \<Rightarrow> account_state" where
  "handle_permanent_failure state error_code =
     state\<lparr>status := DEACTIVATED,
       deactivation_reason := Some (case map_of PERMANENT_FAILURE_CODES error_code of
          Some reason \<Rightarrow> reason | None \<Rightarrow> ''Authentication failed: '' @ error_code),
       blocked_at := None\<rparr>"

datatype failure_class = rate_limit | quota | retryable_transient | non_retryable
datatype failover_action = failover_next | surface

definition failover_decision :: "failure_class \<Rightarrow> bool \<Rightarrow> int \<Rightarrow> failover_action" where
  "failover_decision failure_class downstream_visible candidates_remaining =
     (if downstream_visible then surface
      else if candidates_remaining \<le> 0 then surface
      else if failure_class \<in> {rate_limit, quota, retryable_transient} then failover_next
      else surface)"

section \<open>Health tiers\<close>

record drain_config =
  drain_primary_threshold_pct :: pyfloat
  drain_secondary_threshold_pct :: pyfloat
  drain_error_window_seconds :: pyfloat
  drain_error_count_threshold :: int
  probe_quiet_seconds :: pyfloat
  probe_success_streak_required :: int

definition default_drain_config :: drain_config where
  "default_drain_config = \<lparr>drain_primary_threshold_pct = 85, drain_secondary_threshold_pct = 90,
     drain_error_window_seconds = 60, drain_error_count_threshold = 2, probe_quiet_seconds = 60,
     probe_success_streak_required = 3\<rparr>"

definition should_drain :: "drain_config \<Rightarrow> pyfloat \<Rightarrow> account_state \<Rightarrow> bool" where
  "should_drain cfg current state =
     ((case used_percent state of None \<Rightarrow> False | Some p \<Rightarrow> p \<ge> drain_primary_threshold_pct cfg)
      \<or> (case secondary_used_percent state of None \<Rightarrow> False
           | Some s \<Rightarrow> s \<ge> drain_secondary_threshold_pct cfg)
      \<or> (error_count state \<ge> drain_error_count_threshold cfg
          \<and> (case last_error_at state of None \<Rightarrow> False
               | Some t \<Rightarrow> current - t < drain_error_window_seconds cfg)))"

definition evaluate_health_tier :: "drain_config \<Rightarrow> pyfloat \<Rightarrow> account_state \<Rightarrow> pyfloat option
    \<Rightarrow> pyfloat option \<Rightarrow> int \<Rightarrow> int" where
  "evaluate_health_tier cfg clock state now drain_entered_at probe_success_streak =
     (let current = effective_now now clock; drain = should_drain cfg current state
      in if status state \<in> {RATE_LIMITED, QUOTA_EXCEEDED, PAUSED, DEACTIVATED} then health_tier state
         else if health_tier state = HEALTH_TIER_HEALTHY then
           (if drain then HEALTH_TIER_DRAINING else HEALTH_TIER_HEALTHY)
         else if health_tier state = HEALTH_TIER_DRAINING then
           (if drain then HEALTH_TIER_DRAINING
            else if (case drain_entered_at of None \<Rightarrow> False
                      | Some t \<Rightarrow> current - t \<ge> probe_quiet_seconds cfg)
            then HEALTH_TIER_PROBING else HEALTH_TIER_DRAINING)
         else if health_tier state = HEALTH_TIER_PROBING then
           (if drain then HEALTH_TIER_DRAINING
            else if probe_success_streak \<ge> probe_success_streak_required cfg
            then HEALTH_TIER_HEALTHY else HEALTH_TIER_PROBING)
         else HEALTH_TIER_HEALTHY)"

section \<open>Rendezvous hashing\<close>

text \<open>\<open>sha256\<close> is the digest of the UTF-8 encoded string, as a list of bytes.\<close>

definition select_node :: "(string \<Rightarrow> string) \<Rightarrow> string \<Rightarrow> string list \<Rightarrow> string option" where
  "select_node sha256 key nodes = (case nodes of
     [] \<Rightarrow> None
   | [n] \<Rightarrow> Some n
   | n # ns \<Rightarrow> Some (max_from (\<lambda>node. sha256 (key @ '':'' @ node)) n ns))"

text \<open>Notions the statements use: the states filed as available and as in error backoff.\<close>

definition available_states :: "pyfloat \<Rightarrow> account_state list \<Rightarrow> account_state list" where
  "available_states current states =
     map snd (filter (\<lambda>p. fst p = Eligible) (map (triage current) states))"

definition backoff_states :: "pyfloat \<Rightarrow> account_state list \<Rightarrow> account_state list" where
  "backoff_states current states =
     map snd (filter (\<lambda>p. fst p = InBackoff) (map (triage current) states))"


text \<open>When \<open>select_account\<close> falls back to the accounts in error backoff.\<close>

definition backoff_fallback :: "pyfloat \<Rightarrow> bool \<Rightarrow> account_state list \<Rightarrow> bool" where
  "backoff_fallback current allow states = (allow \<and> (length (backoff_states current states) > 1
     \<or> backoff_states current states \<noteq> [] \<and> list_ex hard_blocked (map (snd \<circ> triage current) states)))"

text \<open>Concrete accounts: the defaults of the dataclass, an active account and a limited one.\<close>

definition sample_account :: "string \<Rightarrow> account_status \<Rightarrow> account_state" where
  "sample_account i st = \<lparr>account_id = i, status = st, used_percent = None, reset_at = None,
     blocked_at = None, cooldown_until = None, secondary_used_percent = None,
     secondary_reset_at = None, last_error_at = None, last_selected_at = None, error_count = 0,
     deactivation_reason = None, plan_type = Some ''plus'', capacity_credits = Some 7560,
     health_tier = 0\<rparr>"

definition sample_active :: account_state where
  "sample_active = sample_account ''a'' ACTIVE"

definition sample_limited :: account_state where
  "sample_limited = (sample_account ''b'' RATE_LIMITED)\<lparr>reset_at := Some 2000\<rparr>"


section \<open>One state of the loop\<close>

lemmas triage_defs = triage_def check_cooldown_and_errors_def Let_def

lemma triage_frame:
  "account_id (snd (triage current st)) = account_id st \<and>
   health_tier (snd (triage current st)) = health_tier st \<and>
   last_selected_at (snd (triage current st)) = last_selected_at st"
  by (simp add: triage_defs split: account_status.splits)

lemma triage_eligible:
  assumes "triage current st = (Eligible, s)"
  shows "status s = ACTIVE \<and> error_count s < 3 \<and>
    \<not> (truthy_num (cooldown_until s) \<and> current < the (cooldown_until s)) \<and>
    (status st = ACTIVE \<or> status st \<in> {RATE_LIMITED, QUOTA_EXCEEDED} \<and> block_expired current st)"
  using assms by (auto simp: triage_defs split: account_status.splits if_splits)

lemma triage_backoff:
  assumes "triage current st = (InBackoff, s)"
  shows "status s = ACTIVE \<and> error_count s \<ge> 3 \<and>
    \<not> (truthy_num (cooldown_until s) \<and> current < the (cooldown_until s)) \<and>
    current < backoff_expires_at s \<and>
    (status st = ACTIVE \<or> status st = QUOTA_EXCEEDED \<and> block_expired current st)"
  using assms
  by (auto simp: triage_defs backoff_expires_at_def truthy_num_the algebra_simps
      split: account_status.splits if_splits)

lemma triage_status:
  "status (snd (triage current st)) = ACTIVE \<or>
   fst (triage current st) = Skipped \<and> hard_blocked (snd (triage current st))"
  by (cases "status st") (auto simp: triage_defs hard_blocked_def)

section \<open>The pool and the choice from it\<close>

lemma effective_pool_subset: "set (effective_pool xs) \<subseteq> set xs"
  by (auto simp: effective_pool_def Let_def)

lemma effective_pool_Nil [simp]: "effective_pool xs = [] \<longleftrightarrow> xs = []"
  by (auto simp: effective_pool_def Let_def)

lemma effective_pool_single [simp]: "effective_pool [s] = [s]"
  by (simp add: effective_pool_def)

lemma prefer_earlier_reset_candidates_ok:
  assumes "xs \<noteq> []"
  shows "\<exists>ys. prefer_earlier_reset_candidates xs current = Inr ys \<and> ys \<noteq> [] \<and> set ys \<subseteq> set xs \<and>
    (\<forall>y \<in> set ys. \<forall>x \<in> set xs. reset_bucket_days y current \<le> reset_bucket_days x current)"
proof -
  let ?k = "\<lambda>s. reset_bucket_days s current"
  from py_min_ok [OF assms] obtain m where m: "py_min ?k xs = Inr m" by blast
  have "m \<in> set xs" "\<forall>x \<in> set xs. ?k m \<le> ?k x"
    using py_min_in [OF m] py_min_le [OF m] by blast+
  then show ?thesis
    by (auto simp: prefer_earlier_reset_candidates_def m filter_empty_conv)
qed

lemma running_sums_length [simp]: "length (running_sums a ws) = length ws"
  by (induction a ws rule: running_sums.induct) simp_all

lemma running_sums_nth: "i < length ws \<Longrightarrow> running_sums a ws ! i = a + sum_list (take (Suc i) ws)"
proof (induction a ws arbitrary: i rule: running_sums.induct)
  case (2 acc w ws)
  then show ?case by (cases i) (simp_all add: add.assoc)
qed simp

lemma running_sums_last: "ws \<noteq> [] \<Longrightarrow> last (running_sums a ws) = a + sum_list ws"
proof (induction a ws rule: running_sums.induct)
  case (2 acc w ws)
  have "running_sums (acc + w) ws = [] \<longleftrightarrow> ws = []"
    by (metis length_0_conv running_sums_length)
  with 2 show ?case by (cases "ws = []") (simp_all add: add.assoc)
qed simp

lemma bisect_right_le: "bisect_right cum x hi \<le> hi"
  unfolding bisect_right_def by (metis length_take length_takeWhile_le min.boundedE)

lemma random_choice_in: "xs \<noteq> [] \<Longrightarrow> random_choice u xs ws \<in> set xs"
proof -
  assume "xs \<noteq> []"
  then have "length xs - 1 < length xs" by simp
  then show ?thesis
    unfolding random_choice_def Let_def by (meson bisect_right_le le_less_trans nth_mem)
qed

lemma select_capacity_weighted_ok:
  assumes "xs \<noteq> []"
  shows "\<exists>s \<in> set xs. select_capacity_weighted u xs = Inr s"
proof -
  show ?thesis
    using random_choice_in [OF assms] py_min_ok [OF assms, of usage_sort_key]
    by (auto simp: select_capacity_weighted_def Let_def)
qed

lemma choose_from_pool_ok:
  assumes "pool \<noteq> []"
  shows "\<exists>s \<in> set pool. choose_from_pool u current pe strategy probe pool = Inr s"
proof (cases strategy)
  case capacity_weighted
  obtain ys where ys: "ys \<noteq> []" "set ys \<subseteq> set pool"
      "(if pe then prefer_earlier_reset_candidates pool current else Inr pool) = Inr ys"
    using prefer_earlier_reset_candidates_ok [OF assms, of current] assms
    by (cases pe) auto
  with select_capacity_weighted_ok [of ys u] py_min_ok [of ys capacity_probe_sort_key] show ?thesis
    unfolding choose_from_pool_def capacity_weighted ys(3) by auto
qed (use assms in \<open>auto simp: choose_from_pool_def dest: py_min_ok\<close>)

section \<open>Correctness of the selection\<close>

lemma select_account_cases:
  obtains (Pick) s where
      "select_account u clock states now pe strategy fb probe =
         Inr (map (snd \<circ> triage (effective_now now clock)) states,
              \<lparr>account = Some s, error_message = None\<rparr>)"
      "s \<in> set (effective_pool (available_states (effective_now now clock) states))"
      "choose_from_pool u (effective_now now clock) pe strategy probe
         (effective_pool (available_states (effective_now now clock) states)) = Inr s"
  | (Fallback) s where
      "select_account u clock states now pe strategy fb probe =
         Inr (map (snd \<circ> triage (effective_now now clock)) states,
              \<lparr>account = Some s, error_message = None\<rparr>)"
      "available_states (effective_now now clock) states = []"
      "backoff_fallback (effective_now now clock) fb states"
      "py_min backoff_expires_at (backoff_states (effective_now now clock) states) = Inr s"
  | (Unavailable)
      "select_account u clock states now pe strategy fb probe =
         Inr (map (snd \<circ> triage (effective_now now clock)) states,
              \<lparr>account = None, error_message = Some (unavailable_message (effective_now now clock)
                 (map (snd \<circ> triage (effective_now now clock)) states))\<rparr>)"
      "available_states (effective_now now clock) states = []"
      "\<not> backoff_fallback (effective_now now clock) fb states"
proof -
  let ?c = "effective_now now clock"
  let ?all = "map (snd \<circ> triage ?c) states"
  let ?av = "available_states ?c states" and ?bo = "backoff_states ?c states"
  let ?pick = "\<lambda>xs. bind_sum (choose_from_pool u ?c pe strategy probe (effective_pool xs))
     (\<lambda>s. Inr (?all, \<lparr>account = Some s, error_message = None\<rparr>)) ::
     py_error + account_state list \<times> selection_result"
  have sel: "select_account u clock states now pe strategy fb probe =
     (if ?av \<noteq> [] then ?pick ?av
      else if fb \<and> (length ?bo > 1 \<or> (?bo \<noteq> [] \<and> (\<exists>s \<in> set ?all. hard_blocked s)))
      then bind_sum (py_min backoff_expires_at ?bo) (\<lambda>s. ?pick [s])
      else Inr (?all, \<lparr>account = None, error_message = Some (unavailable_message ?c ?all)\<rparr>))"
    by (simp only: select_account_def available_states_def backoff_states_def Let_def map_map)
  have fb: "backoff_fallback ?c fb states \<longleftrightarrow>
      fb \<and> (length ?bo > 1 \<or> (?bo \<noteq> [] \<and> (\<exists>s \<in> set ?all. hard_blocked s)))"
    by (simp add: backoff_fallback_def list_ex_iff)
  consider (a) "?av \<noteq> []" | (b) "?av = []" "backoff_fallback ?c fb states"
    | (c) "?av = []" "\<not> backoff_fallback ?c fb states" by blast
  then show thesis
  proof cases
    case a
    then obtain s where "s \<in> set (effective_pool ?av)"
        "choose_from_pool u ?c pe strategy probe (effective_pool ?av) = Inr s"
      using choose_from_pool_ok [of "effective_pool ?av" u ?c pe strategy probe] by auto
    with a Pick show thesis by (simp add: sel)
  next
    case b
    then have "?bo \<noteq> []" unfolding fb by auto
    then obtain s where s: "py_min backoff_expires_at ?bo = Inr s" using py_min_ok by blast
    have "choose_from_pool u ?c pe strategy probe [s] = Inr s"
      using choose_from_pool_ok [of "[s]" u ?c pe strategy probe] by auto
    with b s have "select_account u clock states now pe strategy fb probe =
        Inr (?all, \<lparr>account = Some s, error_message = None\<rparr>)"
      unfolding sel fb [symmetric] by simp
    with b s show thesis using Fallback by blast
  next
    case c
    then have "select_account u clock states now pe strategy fb probe =
        Inr (?all, \<lparr>account = None, error_message = Some (unavailable_message ?c ?all)\<rparr>)"
      unfolding sel fb [symmetric] by simp
    with c show thesis using Unavailable by blast
  qed
qed

lemma available_states_in:
  "s \<in> set (available_states current states) \<longleftrightarrow> (\<exists>st \<in> set states. triage current st = (Eligible, s))"
  by (auto simp: available_states_def image_iff) (metis prod.collapse)

lemma backoff_states_in:
  "s \<in> set (backoff_states current states) \<longleftrightarrow> (\<exists>st \<in> set states. triage current st = (InBackoff, s))"
  by (auto simp: backoff_states_def image_iff) (metis prod.collapse)


text \<open>
  \<open>select_account\<close> never raises, whatever the states: it returns either an account and no
  message or a message and no account, and leaves the accounts in place and in order. It finds no
  account exactly when none is available and the fallback to the accounts in error backoff is
  not allowed or has too few of them.
\<close>

theorem select_account_total:
  "\<exists>states' result. select_account u clock states now pe strategy fb probe = Inr (states', result) \<and>
     (account result = None) = (error_message result \<noteq> None) \<and>
     map account_id states' = map account_id states \<and>
     (account result = None) =
       (available_states (effective_now now clock) states = [] \<and>
        \<not> backoff_fallback (effective_now now clock) fb states)"
  by (cases rule: select_account_cases [of u clock states now pe strategy fb probe])
     (auto simp: triage_frame dest: effective_pool_subset [THEN subsetD])

text \<open>
  C2. Health tiers are respected: among the available accounts a healthy one is chosen if there
  is any, otherwise a probing one if there is any, and a draining account only when neither
  exists.
\<close>

theorem select_account_prefers_healthy:
  assumes "select_account u clock states now pe strategy fb probe = Inr (states', result)"
    and "account result = Some a"
    and "b \<in> set (available_states (effective_now now clock) states)"
  shows "(health_tier b = HEALTH_TIER_HEALTHY \<longrightarrow> health_tier a = HEALTH_TIER_HEALTHY) \<and>
    (health_tier b = HEALTH_TIER_PROBING \<longrightarrow>
       health_tier a \<in> {HEALTH_TIER_HEALTHY, HEALTH_TIER_PROBING})"
proof (cases rule: select_account_cases [of u clock states now pe strategy fb probe])
  case (Pick s)
  with assms(1,2) have "a \<in> set (effective_pool (available_states (effective_now now clock) states))"
    by auto
  with assms(3) show ?thesis
    by (auto simp: effective_pool_def Let_def filter_empty_conv split: if_splits)
qed (use assms in auto)

lemma choose_single:
  "choose_from_pool u current pe strategy probe [s] = Inr s"
  using choose_from_pool_ok [of "[s]" u current pe strategy probe] by auto


theorem select_account_prefers_healthy_witness:
  "select_account (1 / 2) 1000 [sample_limited, sample_active] None False capacity_weighted True False =
     Inr ([sample_limited, sample_active], \<lparr>account = Some sample_active, error_message = None\<rparr>) \<and>
   health_tier sample_active = HEALTH_TIER_HEALTHY"
proof -
  have sel: "select_account (1 / 2) 1000 [sample_limited, sample_active] None False capacity_weighted True False =
     Inr ([sample_limited, sample_active], \<lparr>account = Some sample_active, error_message = None\<rparr>)"
    by (simp add: select_account_def triage_defs block_expired_def effective_now_def sample_limited_def
        sample_active_def sample_account_def choose_single effective_pool_def)
  have "sample_active \<in> set (available_states (effective_now None 1000) [sample_limited, sample_active])"
    by (simp add: available_states_def triage_defs block_expired_def effective_now_def sample_limited_def
        sample_active_def sample_account_def)
  with select_account_prefers_healthy [OF sel _ this] sel show ?thesis
    by (simp add: sample_active_def sample_account_def)
qed

end
