(* ===== verification/Circuit_Breaker.thy ===== *)
theory Circuit_Breaker
  imports Prelude "HOL-Library.Multiset" "HOL-Library.AList"
begin

text \<open>
  The circuit breaker of \<open>app/core/resilience/circuit_breaker.py\<close> and the degradation flag of
  \<open>app/core/resilience/degradation.py\<close>. The readings of \<open>time.monotonic()\<close> are arguments. A method
  that holds \<open>self._lock\<close> is one function on the breaker; calls that overlap are the step relation
  \<open>cb_step\<close>, in which the admission, the outcome and the release of a call are separate steps.
  The lemmas show the invariant of the breaker, that at most one probe is in flight, that an open
  breaker admits nothing before its timeout, and when it opens and closes.
\<close>

section \<open>The breaker\<close>

datatype circuit_state = CLOSED | OPEN | HALF_OPEN

record breaker =
  cb_state :: circuit_state
  failure_count :: int
  success_count :: int
  last_failure_time :: "pyfloat option"
  half_open_probe_in_flight :: bool
  failure_threshold :: int
  recovery_timeout_seconds :: int
  success_threshold :: int

definition CircuitBreaker :: "int \<Rightarrow> int \<Rightarrow> int \<Rightarrow> breaker" where
  "CircuitBreaker ft rt st = \<lparr>cb_state = CLOSED, failure_count = 0, success_count = 0,
     last_failure_time = None, half_open_probe_in_flight = False, failure_threshold = ft,
     recovery_timeout_seconds = rt, success_threshold = st\<rparr>"

definition breaker_state :: "pyfloat \<Rightarrow> breaker \<Rightarrow> circuit_state" where
  "breaker_state now b =
     (if cb_state b = OPEN \<and> last_failure_time b \<noteq> None
         \<and> now - the (last_failure_time b) \<ge> of_int (recovery_timeout_seconds b)
      then HALF_OPEN else cb_state b)"

datatype breaker_error = CircuitBreakerOpenError string

definition pre_call_check :: "pyfloat \<Rightarrow> breaker \<Rightarrow> breaker_error + bool \<times> breaker" where
  "pre_call_check now b = (case breaker_state now b of
     OPEN \<Rightarrow> Inl (CircuitBreakerOpenError ''Circuit breaker is OPEN'')
   | HALF_OPEN \<Rightarrow>
       if half_open_probe_in_flight b
       then Inl (CircuitBreakerOpenError ''Circuit breaker is HALF_OPEN - probe in flight'')
       else Inr (True, b\<lparr>half_open_probe_in_flight := True\<rparr>)
   | CLOSED \<Rightarrow> Inr (False, b))"

definition release_half_open_probe :: "breaker \<Rightarrow> breaker" where
  "release_half_open_probe b = b\<lparr>half_open_probe_in_flight := False\<rparr>"

text \<open>The property \<open>self.state\<close> is read once per test, at \<open>now\<close> and then at \<open>now'\<close>.\<close>

definition record_success :: "pyfloat \<Rightarrow> pyfloat \<Rightarrow> breaker \<Rightarrow> breaker" where
  "record_success now now' b =
     (if breaker_state now b = HALF_OPEN then
        (let b = b\<lparr>success_count := success_count b + 1\<rparr>
         in if success_count b \<ge> success_threshold b
            then b\<lparr>cb_state := CLOSED, failure_count := 0, success_count := 0\<rparr> else b)
      else if breaker_state now' b = CLOSED then
        (if failure_count b > 0 then b\<lparr>failure_count := 0\<rparr> else b)
      else b)"

text \<open>
  The exceptions \<open>_is_server_error\<close> tells apart; the last carries the attribute \<open>status_code\<close>
  when the exception has one.
\<close>

datatype call_exception =
    ClientResponseError int
  | TimeoutExc
  | OtherException "int option"

definition is_server_error :: "call_exception \<Rightarrow> bool" where
  "is_server_error exc = (case exc of
     ClientResponseError st \<Rightarrow> st \<ge> 500
   | TimeoutExc \<Rightarrow> True
   | OtherException (Some status_code) \<Rightarrow> status_code \<ge> 500
   | OtherException None \<Rightarrow> True)"

definition record_failure :: "pyfloat \<Rightarrow> call_exception \<Rightarrow> breaker \<Rightarrow> breaker" where
  "record_failure now exc b =
     (if \<not> is_server_error exc then b
      else let b = b\<lparr>failure_count := failure_count b + 1, last_failure_time := Some now,
                     success_count := 0\<rparr>
           in if failure_count b \<ge> failure_threshold b then b\<lparr>cb_state := OPEN\<rparr> else b)"

text \<open>
  How the awaited coroutine ends. A cancellation is no \<open>Exception\<close>: it passes the handler and only
  the \<open>finally\<close> clause runs.
\<close>

datatype call_outcome = Returned | Raised call_exception | Cancelled

definition record_outcome :: "pyfloat \<Rightarrow> pyfloat \<Rightarrow> call_outcome \<Rightarrow> breaker \<Rightarrow> breaker" where
  "record_outcome now now' out b = (case out of
     Returned \<Rightarrow> record_success now now' b
   | Raised exc \<Rightarrow> record_failure now exc b
   | Cancelled \<Rightarrow> b)"

text \<open>A call that nothing overlaps: admitted at \<open>t\<close>, its outcome recorded at \<open>now\<close>.\<close>

definition call :: "pyfloat \<Rightarrow> pyfloat \<Rightarrow> pyfloat \<Rightarrow> call_outcome \<Rightarrow> breaker
    \<Rightarrow> (breaker_error + call_outcome) \<times> breaker" where
  "call t now now' out b = (case pre_call_check t b of
     Inl e \<Rightarrow> (Inl e, b)
   | Inr (is_probe, b) \<Rightarrow>
       (let b = record_outcome now now' out b
        in (Inr out, if is_probe then release_half_open_probe b else b)))"

section \<open>The breakers of the process\<close>

record breaker_settings =
  circuit_breaker_enabled :: bool
  circuit_breaker_failure_threshold :: int
  circuit_breaker_recovery_timeout_seconds :: int

definition breaker_of_settings :: "breaker_settings \<Rightarrow> breaker" where
  "breaker_of_settings s = CircuitBreaker (circuit_breaker_failure_threshold s)
     (circuit_breaker_recovery_timeout_seconds s) 2"

definition get_circuit_breaker ::
    "breaker_settings option \<Rightarrow> breaker option \<Rightarrow> breaker option \<times> breaker option" where
  "get_circuit_breaker settings glob = (case settings of
     None \<Rightarrow> (glob, glob)
   | Some s \<Rightarrow>
       (let enabled = circuit_breaker_enabled s;
            glob = (if enabled \<and> glob = None then Some (breaker_of_settings s) else glob)
        in (if enabled then glob else None, glob)))"

definition get_circuit_breaker_for_account ::
    "string \<Rightarrow> breaker_settings \<Rightarrow> (string \<times> breaker) list \<Rightarrow> breaker option \<times> (string \<times> breaker) list" where
  "get_circuit_breaker_for_account account_id s breakers =
     (if \<not> circuit_breaker_enabled s then (None, breakers)
      else case map_of breakers account_id of
        Some b \<Rightarrow> (Some b, breakers)
      | None \<Rightarrow> (let b = breaker_of_settings s in (Some b, AList.update account_id b breakers)))"

definition are_all_account_circuit_breakers_open :: "pyfloat \<Rightarrow> (string \<times> breaker) list \<Rightarrow> bool" where
  "are_all_account_circuit_breakers_open now breakers =
     (if breakers = [] then False else list_all (\<lambda>p. breaker_state now (snd p) = OPEN) breakers)"

section \<open>Overlapping calls\<close>

text \<open>
  A call in flight awaits its coroutine, admitted as a probe or not, or has recorded its outcome
  and still has to release the probe.
\<close>

datatype call_phase = Awaiting bool | Releasing

record cb_system =
  clock :: pyfloat
  breaker :: breaker
  calls :: "call_phase multiset"

inductive cb_step :: "cb_system \<Rightarrow> cb_system \<Rightarrow> bool" where
  tick: "t \<ge> clock s \<Longrightarrow> cb_step s (s\<lparr>clock := t\<rparr>)"
| enter: "pre_call_check (clock s) (breaker s) = Inr (is_probe, b) \<Longrightarrow>
    cb_step s (s\<lparr>breaker := b, calls := add_mset (Awaiting is_probe) (calls s)\<rparr>)"
| finish: "Awaiting is_probe \<in># calls s \<Longrightarrow> now' \<ge> clock s \<Longrightarrow>
    cb_step s (s\<lparr>breaker := record_outcome (clock s) now' out (breaker s),
      calls := (calls s - {#Awaiting is_probe#}) + (if is_probe then {#Releasing#} else {#})\<rparr>)"
| release: "Releasing \<in># calls s \<Longrightarrow>
    cb_step s (s\<lparr>breaker := release_half_open_probe (breaker s), calls := calls s - {#Releasing#}\<rparr>)"

definition is_probe_phase :: "call_phase \<Rightarrow> bool" where
  "is_probe_phase p = (p = Awaiting True \<or> p = Releasing)"

definition probes :: "cb_system \<Rightarrow> nat" where
  "probes s = size (filter_mset is_probe_phase (calls s))"

definition initial_system :: "pyfloat \<Rightarrow> int \<Rightarrow> int \<Rightarrow> int \<Rightarrow> cb_system" where
  "initial_system t ft rt st = \<lparr>clock = t, breaker = CircuitBreaker ft rt st, calls = {#}\<rparr>"

section \<open>The degradation flag\<close>

datatype degradation_level = NORMAL | DEGRADED | CRITICAL

record degradation_manager =
  level :: degradation_level
  reason :: "string option"

definition DegradationManager :: degradation_manager where
  "DegradationManager = \<lparr>level = NORMAL, reason = None\<rparr>"

definition set_degraded :: "string option \<Rightarrow> degradation_manager \<Rightarrow> degradation_manager" where
  "set_degraded r m = m\<lparr>level := DEGRADED, reason := r\<rparr>"

definition set_normal :: "degradation_manager \<Rightarrow> degradation_manager" where
  "set_normal m = m\<lparr>level := NORMAL, reason := None\<rparr>"

definition is_degraded :: "degradation_manager \<Rightarrow> bool" where
  "is_degraded m = (level m \<noteq> NORMAL)"

section \<open>The invariant of a breaker\<close>

text \<open>
  Calls that do not overlap: each is a triple of the clock at its admission and at the two readings
  of the recording, with the outcome of its coroutine. The run returns the outcomes of the calls
  that were admitted.
\<close>

type_synonym timed_call = "pyfloat \<times> pyfloat \<times> pyfloat \<times> call_outcome"

fun run_calls :: "breaker \<Rightarrow> timed_call list \<Rightarrow> call_outcome list \<times> breaker" where
  "run_calls b [] = ([], b)"
| "run_calls b ((t, now, now', out) # cs) =
     (let (r, b') = call t now now' out b; (outs, b'') = run_calls b' cs
      in (case r of Inl e \<Rightarrow> outs | Inr out \<Rightarrow> out # outs, b''))"

text \<open>The server errors since the last success.\<close>

fun error_streak :: "int \<Rightarrow> call_outcome list \<Rightarrow> int" where
  "error_streak n [] = n"
| "error_streak n (Returned # os) = error_streak 0 os"
| "error_streak n (Cancelled # os) = error_streak n os"
| "error_streak n (Raised exc # os) = error_streak (if is_server_error exc then n + 1 else n) os"

text \<open>The readings of the clock by one call lie at or after the given time.\<close>

definition call_after :: "pyfloat \<Rightarrow> timed_call \<Rightarrow> bool" where
  "call_after t c = (case c of (t0, t1, t2, out) \<Rightarrow> t \<le> t0 \<and> t \<le> t1 \<and> t \<le> t2)"

definition call_outcome_of :: "timed_call \<Rightarrow> call_outcome" where
  "call_outcome_of c = (case c of (t0, t1, t2, out) \<Rightarrow> out)"

text \<open>
  The stored state is never \<open>HALF_OPEN\<close>, which only the clock makes of \<open>OPEN\<close>; a breaker is open
  exactly when the failures since the last reset reach the threshold, and then the time of the last
  one is known; the successes counted so far do not reach the threshold.
\<close>

definition breaker_inv :: "breaker \<Rightarrow> bool" where
  "breaker_inv b \<longleftrightarrow> cb_state b \<noteq> HALF_OPEN \<and> 0 < failure_threshold b \<and> 0 \<le> failure_count b \<and> 0 \<le> success_count b \<and>
     (cb_state b = OPEN \<longleftrightarrow> failure_count b \<ge> failure_threshold b) \<and>
     (cb_state b = OPEN \<longrightarrow> last_failure_time b \<noteq> None) \<and>
     (cb_state b = CLOSED \<longrightarrow> success_count b = 0) \<and>
     (success_count b < success_threshold b)"

text \<open>With overlapping calls, the flag is set exactly while one probe is in flight, and no failure
  lies in the future.\<close>

definition system_inv :: "cb_system \<Rightarrow> bool" where
  "system_inv s \<longleftrightarrow> breaker_inv (breaker s) \<and>
     probes s = (if half_open_probe_in_flight (breaker s) then 1 else 0) \<and>
     (\<forall>t. last_failure_time (breaker s) = Some t \<longrightarrow> t \<le> clock s)"

text \<open>Concrete runs: a breaker that one failure opened, and the probe after its timeout.\<close>

definition sample_open :: cb_system where
  "sample_open = \<lparr>clock = 0, breaker = (CircuitBreaker 1 10 1)\<lparr>failure_count := 1,
     last_failure_time := Some 0, cb_state := OPEN\<rparr>, calls = {#}\<rparr>"

definition sample_probe :: cb_system where
  "sample_probe = sample_open\<lparr>clock := 20, calls := {#Awaiting True#},
     breaker := (breaker sample_open)\<lparr>half_open_probe_in_flight := True\<rparr>\<rparr>"

lemmas breaker_ops = record_success_def record_failure_def record_outcome_def
  release_half_open_probe_def Let_def

lemma breaker_inv_CircuitBreaker:
  "0 < ft \<Longrightarrow> 0 < st \<Longrightarrow> breaker_inv (CircuitBreaker ft rt st)"
  by (simp add: breaker_inv_def CircuitBreaker_def)

lemma breaker_state_cases:
  assumes "breaker_inv b"
  shows "breaker_state now b = CLOSED \<longleftrightarrow> cb_state b = CLOSED"
    and "breaker_state now b \<noteq> CLOSED \<longleftrightarrow> cb_state b = OPEN"
  using assms by (cases "cb_state b"; auto simp: breaker_state_def breaker_inv_def)+

lemma breaker_state_probe [simp]:
  "breaker_state now (b\<lparr>half_open_probe_in_flight := p\<rparr>) = breaker_state now b"
  by (simp add: breaker_state_def)

lemma breaker_inv_pre_call_check:
  "breaker_inv b \<Longrightarrow> pre_call_check now b = Inr (p, b') \<Longrightarrow> breaker_inv b'"
  by (auto simp: pre_call_check_def breaker_inv_def split: circuit_state.splits if_splits)

lemma breaker_inv_record_success: "breaker_inv b \<Longrightarrow> breaker_inv (record_success now now' b)"
  by (auto simp: record_success_def breaker_inv_def breaker_state_def Let_def)

lemma breaker_inv_record_failure: "breaker_inv b \<Longrightarrow> breaker_inv (record_failure now exc b)"
  by (auto simp: record_failure_def breaker_inv_def Let_def)

lemma breaker_inv_record_outcome: "breaker_inv b \<Longrightarrow> breaker_inv (record_outcome now now' out b)"
  by (cases out)
     (simp_all add: record_outcome_def breaker_inv_record_success breaker_inv_record_failure)

lemma breaker_inv_release: "breaker_inv (release_half_open_probe b) = breaker_inv b"
  by (simp add: release_half_open_probe_def breaker_inv_def)

lemma breaker_inv_call: "breaker_inv b \<Longrightarrow> breaker_inv (snd (call t now now' out b))"
  by (auto simp: call_def Let_def breaker_inv_release breaker_inv_record_outcome
      dest: breaker_inv_pre_call_check split: sum.splits)

lemma record_outcome_frame [simp]:
  "half_open_probe_in_flight (record_outcome now now' out b) = half_open_probe_in_flight b"
  "failure_threshold (record_outcome now now' out b) = failure_threshold b"
  "recovery_timeout_seconds (record_outcome now now' out b) = recovery_timeout_seconds b"
  "success_threshold (record_outcome now now' out b) = success_threshold b"
  by (cases out; simp add: breaker_ops)+

lemma pre_call_check_frame:
  assumes "pre_call_check now b = Inr (p, b')"
  shows "b' = b\<lparr>half_open_probe_in_flight := p \<or> half_open_probe_in_flight b\<rparr>"
    and "p \<Longrightarrow> \<not> half_open_probe_in_flight b" and "breaker_state now b \<noteq> OPEN"
  using assms by (auto simp: pre_call_check_def split: circuit_state.splits if_splits)

lemma record_outcome_failure_time:
  "last_failure_time (record_outcome now now' out b) \<in> {last_failure_time b, Some now}"
  by (cases out) (auto simp: breaker_ops)

section \<open>Invariants of overlapping calls\<close>

lemma probes_step:
  "Awaiting p \<in># calls s \<Longrightarrow>
     probes (s\<lparr>breaker := b, calls := (calls s - {#Awaiting p#}) + (if p then {#Releasing#} else {#})\<rparr>)
       = probes s"
  "Releasing \<in># calls s \<Longrightarrow> Suc (probes (s\<lparr>breaker := b, calls := calls s - {#Releasing#}\<rparr>)) = probes s"
  by (auto simp: probes_def is_probe_phase_def dest!: multi_member_split)

lemma system_inv_step:
  assumes "cb_step s s'" and "system_inv s"
  shows "system_inv s'"
  using assms
proof (cases rule: cb_step.cases)
  case (tick t)
  with assms(2) show ?thesis by (fastforce simp: system_inv_def probes_def)
next
  case (enter p b)
  with assms(2) pre_call_check_frame [OF enter(2)] show ?thesis
    by (cases p) (auto simp: system_inv_def probes_def is_probe_phase_def
        dest: breaker_inv_pre_call_check [OF _ enter(2)])
next
  case (finish p now' out)
  with assms(2) show ?thesis
    unfolding finish(1) system_inv_def probes_step(1) [OF finish(2)]
    using record_outcome_failure_time [of "clock s" now' out "breaker s"]
    by (auto simp: breaker_inv_record_outcome)
next
  case release
  with assms(2) probes_step(2) [OF release(2), of "release_half_open_probe (breaker s)"] show ?thesis
    by (auto simp: system_inv_def breaker_inv_release
        breaker_inv_release [unfolded release_half_open_probe_def] release_half_open_probe_def split: if_splits)
qed

lemma system_inv_initial: "0 < ft \<Longrightarrow> 0 < st \<Longrightarrow> system_inv (initial_system t ft rt st)"
  by (simp add: system_inv_def initial_system_def breaker_inv_CircuitBreaker probes_def)
     (simp add: CircuitBreaker_def)

lemma system_inv_reachable: "cb_step\<^sup>*\<^sup>* s s' \<Longrightarrow> system_inv s \<Longrightarrow> system_inv s'"
  by (induction rule: rtranclp_induct) (auto intro: system_inv_step)

lemma sample_open_reachable: "cb_step\<^sup>*\<^sup>* (initial_system 0 1 10 1) sample_open"
proof -
  let ?s = "initial_system 0 1 10 1" and ?b = "CircuitBreaker 1 10 1"
  have "pre_call_check 0 ?b = Inr (False, ?b)"
    by (simp add: pre_call_check_def breaker_state_def CircuitBreaker_def)
  then have 1: "cb_step ?s (?s\<lparr>calls := {#Awaiting False#}\<rparr>)"
    using cb_step.enter [of ?s False ?b] by (simp add: initial_system_def)
  have "cb_step (?s\<lparr>calls := {#Awaiting False#}\<rparr>) sample_open"
    using cb_step.finish [of False "?s\<lparr>calls := {#Awaiting False#}\<rparr>" 0 "Raised TimeoutExc"]
    by (simp add: initial_system_def sample_open_def breaker_ops is_server_error_def CircuitBreaker_def)
  with 1 show ?thesis by (meson converse_rtranclp_into_rtranclp r_into_rtranclp)
qed

lemma sample_probe_reachable: "cb_step\<^sup>*\<^sup>* sample_open sample_probe"
proof -
  have 1: "cb_step sample_open (sample_open\<lparr>clock := 20\<rparr>)" by (rule tick) (simp add: sample_open_def)
  have "cb_step (sample_open\<lparr>clock := 20\<rparr>) sample_probe"
    using cb_step.enter [of "sample_open\<lparr>clock := 20\<rparr>" True "breaker sample_probe"]
    by (simp add: sample_probe_def sample_open_def pre_call_check_def breaker_state_def CircuitBreaker_def)
  with 1 show ?thesis by (meson converse_rtranclp_into_rtranclp r_into_rtranclp)
qed

text \<open>
  C13. However calls overlap, at most one probe is in flight at any time, and the flag
  \<open>_half_open_probe_in_flight\<close> tells exactly whether there is one.
\<close>

theorem at_most_one_probe:
  assumes "0 < ft" and "0 < st" and "cb_step\<^sup>*\<^sup>* (initial_system t ft rt st) s"
  shows "probes s \<le> 1 \<and> (half_open_probe_in_flight (breaker s) \<longleftrightarrow> probes s = 1)"
  using system_inv_reachable [OF assms(3) system_inv_initial [OF assms(1,2)]]
  by (auto simp: system_inv_def split: if_splits)

theorem at_most_one_probe_witness: "probes sample_probe = 1"
proof -
  have "cb_step\<^sup>*\<^sup>* (initial_system 0 1 10 1) sample_probe"
    using sample_open_reachable sample_probe_reachable by (rule rtranclp_trans)
  from at_most_one_probe [OF _ _ this] show ?thesis
    by (simp add: sample_probe_def sample_open_def)
qed

lemma record_outcome_open:
  assumes "breaker_inv b" "breaker_state now b = OPEN"
  shows "cb_state (record_outcome now now' out b) = OPEN"
proof -
  have "cb_state b = OPEN" using assms breaker_state_cases(2) [OF assms(1), of now] by simp
  with assms show ?thesis
    by (cases out) (auto simp: breaker_ops breaker_inv_def breaker_state_def split: if_splits)
qed

text \<open>The breaker stays open: its last failure is at or after \<open>t\<close> and the timeout is not over.\<close>

lemma open_until_step:
  assumes "cb_step s s'" "system_inv s" "clock s' < t + of_int rt"
    and "clock s \<ge> t" "recovery_timeout_seconds (breaker s) = rt"
    and "cb_state (breaker s) = OPEN" "last_failure_time (breaker s) = Some t'" "t \<le> t'"
  shows "recovery_timeout_seconds (breaker s') = rt \<and> cb_state (breaker s') = OPEN \<and> clock s \<le> clock s' \<and>
    (\<exists>t'. last_failure_time (breaker s') = Some t' \<and> t \<le> t')"
  using assms(1)
proof (cases rule: cb_step.cases)
  case (tick u)
  with assms show ?thesis by auto
next
  case (enter p b)
  with assms pre_call_check_frame(1) [OF enter(2)] show ?thesis by auto
next
  case (finish p now' out)
  have "breaker_state (clock s) (breaker s) = OPEN"
    using assms finish by (simp add: breaker_state_def)
  with record_outcome_open [of "breaker s" "clock s" now' out]
    record_outcome_failure_time [of "clock s" now' out "breaker s"] assms show ?thesis
    unfolding finish(1) by (auto simp: system_inv_def)
next
  case release
  with assms show ?thesis by (auto simp: release_half_open_probe_def)
qed

lemma open_until:
  assumes "cb_step\<^sup>*\<^sup>* s s'" "system_inv s" "clock s' < t + of_int rt"
    and "clock s \<ge> t" "recovery_timeout_seconds (breaker s) = rt"
    and "cb_state (breaker s) = OPEN" "last_failure_time (breaker s) = Some t"
  shows "recovery_timeout_seconds (breaker s') = rt \<and> cb_state (breaker s') = OPEN \<and> clock s \<le> clock s' \<and>
    (\<exists>t'. last_failure_time (breaker s') = Some t' \<and> t \<le> t')"
  using assms(1,3)
proof (induction rule: rtranclp_induct)
  case base
  with assms show ?case by auto
next
  case (step y z)
  have "clock y \<le> clock z" using step(2) by (cases rule: cb_step.cases) auto
  with step open_until_step [OF step(2) system_inv_reachable [OF step(1) assms(2)], of t rt] assms(4)
  show ?case by fastforce
qed

text \<open>
  C14. Once open, the breaker rejects every call until \<open>recovery_timeout_seconds\<close> have passed since
  the failure that opened it, whatever the calls still in flight do in the meantime.
\<close>

theorem open_rejects_until_timeout:
  assumes "0 < ft" and "0 < st" and "cb_step\<^sup>*\<^sup>* (initial_system t0 ft rt st) s"
    and "cb_state (breaker s) = OPEN" and "last_failure_time (breaker s) = Some t"
    and "cb_step\<^sup>*\<^sup>* s s'" and "clock s' < t + of_int rt"
  shows "\<exists>e. pre_call_check (clock s') (breaker s') = Inl e"
proof -
  have inv: "system_inv s" by (rule system_inv_reachable [OF assms(3) system_inv_initial [OF assms(1,2)]])
  have rt: "recovery_timeout_seconds (breaker s) = rt"
    using assms(3)
  proof (induction rule: rtranclp_induct)
    case base
    show ?case by (simp add: initial_system_def CircuitBreaker_def)
  next
    case (step y z)
    from step(2,3) show ?case
      by (cases rule: cb_step.cases) (auto simp: release_half_open_probe_def dest: pre_call_check_frame(1))
  qed
  then have "t \<le> clock s" using inv assms(5) by (simp add: system_inv_def)
  from open_until [OF assms(6) inv assms(7) this rt assms(4,5)] assms(7)
  have "breaker_state (clock s') (breaker s') = OPEN" by (auto simp: breaker_state_def)
  then show ?thesis by (simp add: pre_call_check_def)
qed

theorem open_rejects_until_timeout_witness:
  "\<exists>e. pre_call_check 5 (breaker sample_open) = Inl e"
proof -
  have "cb_step\<^sup>*\<^sup>* sample_open (sample_open\<lparr>clock := 5\<rparr>)"
    by (rule r_into_rtranclp, rule tick) (simp add: sample_open_def)
  from open_rejects_until_timeout [OF _ _ sample_open_reachable _ _ this, of 0] show ?thesis
    by (simp add: sample_open_def)
qed

section \<open>Opening and closing\<close>

lemma call_closed:
  assumes "breaker_inv b" "cb_state b = CLOSED"
  shows "call t now now' out b = (Inr out, record_outcome now now' out b)"
  using assms breaker_state_cases(1) [OF assms(1), of t] by (simp add: call_def pre_call_check_def)

lemma run_calls_append:
  "run_calls b (cs @ ds) = (let (outs, b') = run_calls b cs; (outs', b'') = run_calls b' ds
     in (outs @ outs', b''))"
  by (induction b cs rule: run_calls.induct) (auto split: prod.splits sum.splits)

lemma breaker_inv_run_calls: "breaker_inv b \<Longrightarrow> breaker_inv (snd (run_calls b cs))"
  by (induction b cs rule: run_calls.induct)
     (auto split: prod.splits sum.splits simp: Let_def, metis breaker_inv_call snd_conv)

lemma call_threshold: "call t now now' out b = (r, b') \<Longrightarrow> failure_threshold b' = failure_threshold b"
  by (auto simp: call_def Let_def release_half_open_probe_def split: sum.splits dest!: pre_call_check_frame(1))

lemma run_calls_threshold: "run_calls b cs = (outs, b') \<Longrightarrow> failure_threshold b' = failure_threshold b"
  by (induction b cs arbitrary: outs rule: run_calls.induct)
     (auto split: prod.splits, metis call_threshold)

lemma error_streak_append: "error_streak n (os @ os') = error_streak (error_streak n os) os'"
  by (induction n os rule: error_streak.induct) simp_all

lemma call_failure_count:
  assumes "breaker_inv b" and "cb_state b = CLOSED \<longrightarrow> failure_count b = n"
    and "call t now now' out b = (r, b')" and "cb_state b' = CLOSED"
  shows "failure_count b' = error_streak n (case r of Inl e \<Rightarrow> [] | Inr out \<Rightarrow> [out])"
proof (cases "cb_state b")
  case CLOSED
  with assms show ?thesis
    by (cases out) (auto simp: call_closed breaker_ops breaker_state_def breaker_inv_def split: if_splits)
next
  case OPEN
  with assms show ?thesis
    by (cases out) (auto simp: call_def pre_call_check_def breaker_ops breaker_inv_def
        split: if_splits circuit_state.splits)
next
  case HALF_OPEN
  with assms(1) show ?thesis by (simp add: breaker_inv_def)
qed

lemma run_calls_failure_count:
  "breaker_inv b \<Longrightarrow> (cb_state b = CLOSED \<longrightarrow> failure_count b = n) \<Longrightarrow> run_calls b cs = (outs, b') \<Longrightarrow>
     cb_state b' = CLOSED \<Longrightarrow> failure_count b' = error_streak n outs"
proof (induction b cs arbitrary: n outs rule: run_calls.induct)
  case (2 b t now now' out cs)
  obtain r b1 where c: "call t now now' out b = (r, b1)" by fastforce
  let ?o = "case r of Inl e \<Rightarrow> [] | Inr out \<Rightarrow> [out]"
  obtain outs1 where r: "run_calls b1 cs = (outs1, b')" and outs: "outs = ?o @ outs1"
    using 2(4) c by (auto split: prod.splits sum.splits)
  have "breaker_inv b1" using breaker_inv_call [OF 2(2), of t now now' out] c by simp
  then have "failure_count b' = error_streak (error_streak n ?o) outs1"
    using 2(1) [OF c [symmetric] refl] call_failure_count [OF 2(2,3) c] r 2(5) by blast
  then show ?case unfolding outs by (simp add: error_streak_append)
qed simp

text \<open>
  A closed breaker opens on a call exactly when that call completes a run of
  \<open>failure_threshold\<close> server errors since the last success; client errors and cancelled calls
  neither count nor interrupt the run.
\<close>

theorem breaker_trips_iff:
  assumes "0 < ft" and "0 < st" and "run_calls (CircuitBreaker ft rt st) cs = (outs, b)"
    and "cb_state b = CLOSED" and "call t now now' out b = (r, b')"
  shows "r = Inr out \<and> (cb_state b' = OPEN \<longleftrightarrow> error_streak 0 (outs @ [out]) \<ge> ft)"
proof -
  have inv: "breaker_inv (CircuitBreaker ft rt st)" by (rule breaker_inv_CircuitBreaker [OF assms(1,2)])
  have b: "breaker_inv b" using breaker_inv_run_calls [OF inv, of cs] assms(3) by simp
  have fc: "failure_count b = error_streak 0 outs"
    by (rule run_calls_failure_count [OF inv _ assms(3,4)]) (simp add: CircuitBreaker_def)
  have r: "r = Inr out" "b' = record_outcome now now' out b"
    using assms(5) by (simp_all add: call_closed [OF b assms(4)])
  have ft: "failure_threshold b = ft"
    using run_calls_threshold [OF assms(3)] by (simp add: CircuitBreaker_def)
  have cl: "failure_count b < ft" using b assms(4) ft by (auto simp: breaker_inv_def)
  show ?thesis
    using b assms(1,4) cl ft unfolding r error_streak_append fc [symmetric]
    by (cases out) (auto simp: breaker_ops breaker_inv_def breaker_state_def split: if_splits)
qed

theorem breaker_trips_iff_witness:
  "cb_state (snd (call 2 2 2 (Raised TimeoutExc)
     (snd (run_calls (CircuitBreaker 2 60 2) [(1, 1, 1, Raised (ClientResponseError 503))])))) = OPEN"
proof -
  let ?b = "snd (run_calls (CircuitBreaker 2 60 2) [(1, 1, 1, Raised (ClientResponseError 503))])"
  have r: "run_calls (CircuitBreaker 2 60 2) [(1, 1, 1, Raised (ClientResponseError 503))] =
      ([Raised (ClientResponseError 503)], ?b)" "cb_state ?b = CLOSED"
    by (simp_all add: call_def pre_call_check_def breaker_state_def breaker_ops is_server_error_def CircuitBreaker_def)
  from breaker_trips_iff [OF _ _ r prod.collapse [symmetric], of 2 2 2 "Raised TimeoutExc"]
  show ?thesis by (simp add: is_server_error_def)
qed

lemma run_calls_no_probe:
  "run_calls b cs = (outs, b') \<Longrightarrow> half_open_probe_in_flight b = False \<Longrightarrow> \<not> half_open_probe_in_flight b'"
proof (induction b cs arbitrary: outs rule: run_calls.induct)
  case (2 b t now now' out cs)
  have "\<not> half_open_probe_in_flight (snd (call t now now' out b))"
    using 2(3) by (auto simp: call_def Let_def release_half_open_probe_def split: sum.splits
        dest!: pre_call_check_frame(1))
  moreover obtain r b1 where "call t now now' out b = (r, b1)" by fastforce
  ultimately show ?case using 2(1) [of "(r, b1)" r b1] 2(2) by (auto split: prod.splits)
qed simp

lemma run_calls_closed:
  "breaker_inv b \<Longrightarrow> cb_state b = CLOSED \<Longrightarrow> list_all (\<lambda>c. call_outcome_of c = Returned) cs \<Longrightarrow>
     cb_state (snd (run_calls b cs)) = CLOSED"
proof (induction cs arbitrary: b)
  case (Cons c cs)
  obtain t now now' where c: "c = (t, now, now', Returned)"
    using Cons(4) by (cases c) (simp add: call_outcome_of_def)
  have "cb_state (record_outcome now now' Returned b) = CLOSED"
    using Cons(2,3) by (auto simp: breaker_ops breaker_state_def)
  with Cons show ?case
    by (simp add: c call_closed breaker_inv_record_outcome split: prod.splits) (metis snd_conv breaker_inv_record_outcome)
qed simp

lemma call_half_open:
  assumes "breaker_inv b" "cb_state b = OPEN" "\<not> half_open_probe_in_flight b"
    and "last_failure_time b = Some f" "call_after (f + of_int (recovery_timeout_seconds b)) (t, now, now', Returned)"
  shows "call t now now' Returned b = (Inr Returned,
    if success_count b + 1 \<ge> success_threshold b
    then b\<lparr>cb_state := CLOSED, failure_count := 0, success_count := 0\<rparr>
    else b\<lparr>success_count := success_count b + 1\<rparr>)"
proof -
  have "breaker_state t' b = HALF_OPEN" if "t' \<ge> f + of_int (recovery_timeout_seconds b)" for t'
    using assms that by (simp add: breaker_state_def)
  then have "breaker_state t b = HALF_OPEN" "breaker_state now b = HALF_OPEN"
    using assms(5) by (auto simp: call_after_def)
  moreover have "b\<lparr>half_open_probe_in_flight := False\<rparr> = b" using assms(3) by (cases b) simp
  ultimately show ?thesis using assms(3)
    by (simp add: call_def pre_call_check_def breaker_ops)
qed

lemma run_calls_half_open:
  "breaker_inv b \<Longrightarrow> cb_state b = OPEN \<Longrightarrow> \<not> half_open_probe_in_flight b \<Longrightarrow> last_failure_time b = Some f \<Longrightarrow>
     list_all (\<lambda>c. call_outcome_of c = Returned \<and> call_after (f + of_int (recovery_timeout_seconds b)) c) cs \<Longrightarrow>
     cb_state (snd (run_calls b cs)) = CLOSED \<longleftrightarrow> int (length cs) \<ge> success_threshold b - success_count b"
proof (induction cs arbitrary: b)
  case Nil
  then show ?case by (simp add: breaker_inv_def)
next
  case (Cons c cs)
  obtain t now now' where c: "c = (t, now, now', Returned)"
    using Cons(6) by (cases c) (simp add: call_outcome_of_def)
  have eq: "snd (run_calls b (c # cs)) = snd (run_calls (snd (call t now now' Returned b)) cs)"
    by (simp add: c split: prod.splits)
  note ca = call_half_open [of b f t now now'] breaker_inv_call [OF Cons(2), of t now now' Returned]
  show ?case
  proof (cases "success_count b + 1 \<ge> success_threshold b")
    case True
    with ca Cons(2-6) run_calls_closed [of "snd (call t now now' Returned b)" cs] show ?thesis
      unfolding eq by (auto simp: c list_all_iff)
  next
    case False
    with ca Cons(2-6) Cons(1) [of "snd (call t now now' Returned b)"] show ?thesis
      unfolding eq by (auto simp: c)
  qed
qed

text \<open>
  C15. Recovery: once the timeout since the last failure is over, an open breaker with no call in
  flight is closed by exactly the missing number of successful probes, and not before.
\<close>

theorem breaker_recovers_iff:
  assumes "0 < ft" and "0 < st" and "run_calls (CircuitBreaker ft rt st) cs = (outs, b)"
    and "cb_state b = OPEN" and "last_failure_time b = Some f"
    and "list_all (\<lambda>c. call_outcome_of c = Returned \<and>
           call_after (f + of_int (recovery_timeout_seconds b)) c) ds"
  shows "cb_state (snd (run_calls b ds)) = CLOSED \<longleftrightarrow>
    int (length ds) \<ge> success_threshold b - success_count b"
proof (rule run_calls_half_open [OF _ assms(4) _ assms(5,6)])
  show "breaker_inv b"
    using breaker_inv_run_calls [OF breaker_inv_CircuitBreaker [OF assms(1,2)], of rt cs] assms(3) by simp
  show "\<not> half_open_probe_in_flight b"
    using run_calls_no_probe [OF assms(3)] by (simp add: CircuitBreaker_def)
qed

theorem breaker_recovers_iff_witness:
  "cb_state (snd (run_calls (snd (run_calls (CircuitBreaker 1 60 2) [(1, 1, 1, Raised TimeoutExc)]))
     [(70, 70, 70, Returned), (71, 71, 71, Returned)])) = CLOSED"
proof -
  let ?b = "snd (run_calls (CircuitBreaker 1 60 2) [(1, 1, 1, Raised TimeoutExc)])"
  have r: "run_calls (CircuitBreaker 1 60 2) [(1, 1, 1, Raised TimeoutExc)] = ([Raised TimeoutExc], ?b)"
      "cb_state ?b = OPEN" "last_failure_time ?b = Some 1"
    and v: "recovery_timeout_seconds ?b = 60" "success_threshold ?b = 2" "success_count ?b = 0"
    by (simp_all add: call_def pre_call_check_def breaker_state_def breaker_ops is_server_error_def CircuitBreaker_def)
  from breaker_recovers_iff [OF _ _ r, of "[(70, 70, 70, Returned), (71, 71, 71, Returned)]"]
  show ?thesis by (simp add: v call_after_def call_outcome_of_def del: run_calls.simps)
qed

end
