(* ===== verification/Window_Limit.thy ===== *)
theory Window_Limit
  imports Prelude
begin

text \<open>
  The two sliding-window limiters: \<open>RetryBudget\<close> of \<open>app/core/resilience/retry_budget.py\<close>, which keeps
  the times of its grants in a deque, and \<open>DatabaseRateLimiter\<close> of
  \<open>app/core/rate_limiter/db_rate_limiter.py\<close>, which keeps them in a table. Both implement the
  contract of the locale \<open>sliding_window\<close>: a request is granted exactly when fewer than the cap were
  granted in the window that ends now. The locale derives from it that every decision of a run is
  the one of the specification that remembers all grants, and that no window holds more grants
  than the cap.
\<close>

section \<open>The retry budget\<close>

record retry_budget =
  max_retries :: int
  rb_window_seconds :: int
  retry_timestamps :: "pyfloat list"

definition RetryBudget :: "int \<Rightarrow> int \<Rightarrow> retry_budget" where
  "RetryBudget max_retries_per_window window_seconds = \<lparr>max_retries = max_retries_per_window,
     rb_window_seconds = window_seconds, retry_timestamps = []\<rparr>"

definition try_acquire :: "pyfloat \<Rightarrow> retry_budget \<Rightarrow> bool \<times> retry_budget" where
  "try_acquire now b =
     (let cutoff = now - of_int (rb_window_seconds b);
          b = b\<lparr>retry_timestamps := dropWhile (\<lambda>t. t < cutoff) (retry_timestamps b)\<rparr>
      in if int (length (retry_timestamps b)) \<ge> max_retries b then (False, b)
         else (True, b\<lparr>retry_timestamps := retry_timestamps b @ [now]\<rparr>))"

definition remaining :: "pyfloat \<Rightarrow> retry_budget \<Rightarrow> int" where
  "remaining now b =
     (let cutoff = now - of_int (rb_window_seconds b);
          recent = length (filter (\<lambda>t. t \<ge> cutoff) (retry_timestamps b))
      in max 0 (max_retries b - int recent))"

section \<open>The rate limiter of the dashboard\<close>

record rate_limit_attempt =
  att_key :: string
  att_type :: string
  attempted_at :: datetime

record rate_limiter =
  max_attempts :: int
  rl_window_seconds :: int
  rl_type :: string

definition DatabaseRateLimiter :: "int \<Rightarrow> int \<Rightarrow> string \<Rightarrow> py_error + rate_limiter" where
  "DatabaseRateLimiter ma ws ty =
     (if ma \<le> 0 then Inl ValueError else if ws \<le> 0 then Inl ValueError
      else Inr \<lparr>max_attempts = ma, rl_window_seconds = ws, rl_type = ty\<rparr>)"

definition window_start :: "rate_limiter \<Rightarrow> datetime \<Rightarrow> datetime" where
  "window_start l now = now - timedelta_seconds (rl_window_seconds l)"

text \<open>The rows a query of the limiter selects, and the oldest of their times.\<close>

definition attempts_since :: "rate_limiter \<Rightarrow> string \<Rightarrow> datetime \<Rightarrow> rate_limit_attempt list \<Rightarrow> datetime list" where
  "attempts_since l key start table = map attempted_at
     (filter (\<lambda>r. att_key r = key \<and> att_type r = rl_type l \<and> attempted_at r \<ge> start) table)"

definition oldest_attempt :: "datetime list \<Rightarrow> datetime option" where
  "oldest_attempt ts = (case ts of [] \<Rightarrow> None | t # ts \<Rightarrow> Some (min_from id t ts))"

text \<open>\<open>DashboardRateLimitError\<close> with its \<open>retry_after\<close>.\<close>

datatype rate_limit_error = DashboardRateLimitError (retry_after: int)

definition retry_after_seconds :: "rate_limiter \<Rightarrow> datetime \<Rightarrow> datetime option \<Rightarrow> int" where
  "retry_after_seconds l now oldest = (case oldest of
     None \<Rightarrow> rl_window_seconds l
   | Some t \<Rightarrow> max 1 (py_int (of_int (t + timedelta_seconds (rl_window_seconds l) - now) / 1000000)))"

text \<open>\<open>check\<close> reads the clock once for the window and once more for the hint.\<close>

definition check :: "rate_limiter \<Rightarrow> datetime \<Rightarrow> datetime \<Rightarrow> string \<Rightarrow> rate_limit_attempt list
    \<Rightarrow> rate_limit_error + unit" where
  "check l now now' key table =
     (let recent = attempts_since l key (window_start l now) table
      in if int (length recent) \<ge> max_attempts l
         then Inl (DashboardRateLimitError (retry_after_seconds l now' (oldest_attempt recent)))
         else Inr ())"

definition attempt :: "rate_limiter \<Rightarrow> string \<Rightarrow> datetime \<Rightarrow> rate_limit_attempt" where
  "attempt l key now = \<lparr>att_key = key, att_type = rl_type l, attempted_at = now\<rparr>"

definition check_and_increment :: "rate_limiter \<Rightarrow> datetime \<Rightarrow> string \<Rightarrow> rate_limit_attempt list
    \<Rightarrow> (rate_limit_error + unit) \<times> rate_limit_attempt list" where
  "check_and_increment l now key table =
     (let recent = attempts_since l key (window_start l now) table
      in if int (length recent) < max_attempts l then (Inr (), table @ [attempt l key now])
         else (Inl (DashboardRateLimitError (retry_after_seconds l now (oldest_attempt recent))), table))"

definition record_failure :: "rate_limiter \<Rightarrow> datetime \<Rightarrow> string \<Rightarrow> rate_limit_attempt list
    \<Rightarrow> (rate_limit_error + unit) \<times> rate_limit_attempt list" where
  "record_failure l now key table =
     (let table = table @ [attempt l key now];
          recent = attempts_since l key (window_start l now) table
      in (if int (length recent) > max_attempts l
          then Inl (DashboardRateLimitError (retry_after_seconds l now (oldest_attempt recent)))
          else Inr (), table))"

definition clear_for_key :: "rate_limiter \<Rightarrow> string \<Rightarrow> rate_limit_attempt list \<Rightarrow> rate_limit_attempt list" where
  "clear_for_key l key table = filter (\<lambda>r. \<not> (att_key r = key \<and> att_type r = rl_type l)) table"

definition check_and_record :: "rate_limiter \<Rightarrow> datetime \<Rightarrow> string \<Rightarrow> rate_limit_attempt list
    \<Rightarrow> (rate_limit_error + unit) \<times> rate_limit_attempt list" where
  "check_and_record l now key table =
     (let recent = attempts_since l key (window_start l now) table
      in (if int (length recent) \<ge> max_attempts l
          then Inl (DashboardRateLimitError (retry_after_seconds l now (oldest_attempt recent)))
          else Inr (), table @ [attempt l key now]))"

definition cleanup :: "datetime \<Rightarrow> int \<Rightarrow> rate_limit_attempt list \<Rightarrow> rate_limit_attempt list" where
  "cleanup now older_than_seconds table =
     (let cutoff = now - timedelta_seconds older_than_seconds
      in filter (\<lambda>r. \<not> attempted_at r < cutoff) table)"

section \<open>The specification\<close>

text \<open>
  The ideal limiter remembers every grant: it grants a request exactly when fewer than \<open>cap\<close> grants
  lie in the window of the given width that ends now.
\<close>

definition grants_since :: "'t :: linorder \<Rightarrow> 't list \<Rightarrow> nat" where
  "grants_since c ts = length (filter (\<lambda>t. c \<le> t) ts)"

fun ideal_grants :: "int \<Rightarrow> 't :: linordered_idom \<Rightarrow> 't list \<Rightarrow> 't list \<Rightarrow> 't list" where
  "ideal_grants cap w grants [] = grants"
| "ideal_grants cap w grants (now # ts) =
     ideal_grants cap w (if int (grants_since (now - w) grants) < cap then grants @ [now] else grants) ts"

fun run_requests :: "('t \<Rightarrow> 's \<Rightarrow> bool \<times> 's) \<Rightarrow> 's \<Rightarrow> 't list \<Rightarrow> 't list \<times> 's" where
  "run_requests acquire s [] = ([], s)"
| "run_requests acquire s (now # ts) =
     (let (granted, s') = acquire now s; (gs, s'') = run_requests acquire s' ts
      in (if granted then now # gs else gs, s''))"

text \<open>A request of the rate limiter for one key, as a decision.\<close>

definition increment_for :: "rate_limiter \<Rightarrow> string \<Rightarrow> datetime \<Rightarrow> rate_limit_attempt list
    \<Rightarrow> bool \<times> rate_limit_attempt list" where
  "increment_for l key now table =
     (case check_and_increment l now key table of (Inr u, t) \<Rightarrow> (True, t) | (Inl e, t) \<Rightarrow> (False, t))"

text \<open>Requests for several keys, in the order the table sees them; the run returns those granted.\<close>

fun run_increments :: "rate_limiter \<Rightarrow> rate_limit_attempt list \<Rightarrow> (string \<times> datetime) list
    \<Rightarrow> (string \<times> datetime) list \<times> rate_limit_attempt list" where
  "run_increments l table [] = ([], table)"
| "run_increments l table ((key, now) # ops) =
     (let (granted, table') = increment_for l key now table; (gs, table'') = run_increments l table' ops
      in (if granted then (key, now) # gs else gs, table''))"

definition times_of :: "string \<Rightarrow> (string \<times> datetime) list \<Rightarrow> datetime list" where
  "times_of key ops = map snd (filter (\<lambda>p. fst p = key) ops)"

definition in_window :: "'t :: linordered_idom \<Rightarrow> 't \<Rightarrow> 't list \<Rightarrow> nat" where
  "in_window w x ts = length (filter (\<lambda>t. x - w \<le> t \<and> t \<le> x) ts)"

definition rb_valid :: "int \<Rightarrow> int \<Rightarrow> pyfloat \<Rightarrow> retry_budget \<Rightarrow> bool" where
  "rb_valid cap w now b \<longleftrightarrow> max_retries b = cap \<and> rb_window_seconds b = w \<and>
     sorted (retry_timestamps b) \<and> (\<forall>t \<in> set (retry_timestamps b). t \<le> now)"

section \<open>No window of the ideal limiter is overfull\<close>

lemma in_window_le: "now - w \<le> x - w \<Longrightarrow> in_window w x ts \<le> grants_since (now - w) ts"
  by (induction ts) (auto simp: in_window_def grants_since_def)

lemma ideal_grants_bound:
  "0 \<le> cap \<Longrightarrow> int (in_window w x grants) \<le> cap \<Longrightarrow> int (in_window w x (ideal_grants cap w grants ts)) \<le> cap"
proof (induction ts arbitrary: grants)
  case (Cons now ts)
  have "int (in_window w x (grants @ [now])) \<le> cap" if "int (grants_since (now - w) grants) < cap"
  proof (cases "now \<le> x")
    case True
    then have "in_window w x grants \<le> grants_since (now - w) grants" by (intro in_window_le) simp
    with that show ?thesis by (simp add: in_window_def)
  next
    case False
    with Cons(3) show ?thesis by (simp add: in_window_def)
  qed
  with Cons show ?case by simp
qed simp

section \<open>The contract\<close>

text \<open>
  \<open>recent c s\<close> is the number of grants at or after \<open>c\<close> that the state still knows, and \<open>valid t s\<close> says
  that the state arose at or before \<open>t\<close>.
\<close>

locale sliding_window =
  fixes acquire :: "'t :: linordered_idom \<Rightarrow> 's \<Rightarrow> bool \<times> 's"
    and recent :: "'t \<Rightarrow> 's \<Rightarrow> nat"
    and valid :: "'t \<Rightarrow> 's \<Rightarrow> bool"
    and cap :: int and width :: 't
  assumes valid_later: "valid t s \<Longrightarrow> t \<le> t' \<Longrightarrow> valid t' s"
    and acquire_valid: "valid now s \<Longrightarrow> valid now (snd (acquire now s))"
    and granted_iff: "valid now s \<Longrightarrow> fst (acquire now s) \<longleftrightarrow> int (recent (now - width) s) < cap"
    and recent_acquire: "valid now s \<Longrightarrow> now - width \<le> c \<Longrightarrow> recent c (snd (acquire now s)) =
      recent c s + (if fst (acquire now s) \<and> c \<le> now then 1 else 0)"
begin

lemma run_ideal_aux:
  "sorted ts \<Longrightarrow> (\<And>t. t \<in> set ts \<Longrightarrow> valid t s) \<Longrightarrow>
   (\<And>t c. t \<in> set ts \<Longrightarrow> t - width \<le> c \<Longrightarrow> recent c s = grants_since c grants) \<Longrightarrow>
   grants @ fst (run_requests acquire s ts) = ideal_grants cap width grants ts"
proof (induction ts arbitrary: s grants)
  case (Cons now ts)
  have valid: "valid now s" using Cons(3) by simp
  have rec: "recent (now - width) s = grants_since (now - width) grants"
    using Cons(4) [of now "now - width"] by simp
  obtain g s' where a: "acquire now s = (g, s')" by fastforce
  have g: "g \<longleftrightarrow> int (grants_since (now - width) grants) < cap"
    using granted_iff [OF valid] a rec by simp
  let ?grants = "if g then grants @ [now] else grants"
  have "?grants @ fst (run_requests acquire s' ts) = ideal_grants cap width ?grants ts"
  proof (rule Cons(1))
    show "sorted ts" using Cons(2) by simp
    show "valid t s'" if "t \<in> set ts" for t
      using acquire_valid [OF valid] a valid_later [of now s' t] Cons(2) that by simp
    show "recent c s' = grants_since c ?grants" if "t \<in> set ts" "t - width \<le> c" for t c
    proof -
      have "now - width \<le> c" using Cons(2) that by (auto intro: order.trans [OF diff_right_mono])
      then show ?thesis
        using recent_acquire [OF valid, of c] a Cons(4) [of now c] by (auto simp: grants_since_def)
    qed
  qed
  then show ?case using g a by (auto split: prod.splits)
qed simp

lemma run_ideal:
  assumes "sorted ts" "\<And>t. valid t s" "\<And>c. recent c s = 0"
  shows "fst (run_requests acquire s ts) = ideal_grants cap width [] ts"
  using run_ideal_aux [of ts s "[]"] assms by (simp add: grants_since_def)

lemma run_bound:
  assumes "sorted ts" "\<And>t. valid t s" "\<And>c. recent c s = 0" "0 \<le> cap"
  shows "int (in_window width x (fst (run_requests acquire s ts))) \<le> cap"
  unfolding run_ideal [OF assms(1-3)] using assms(4)
  by (intro ideal_grants_bound) (simp_all add: in_window_def)

end

section \<open>The retry budget meets the contract\<close>

lemma dropWhile_sorted_filter:
  "sorted ts \<Longrightarrow> c \<le> d \<Longrightarrow> filter (\<lambda>t. d \<le> t) (dropWhile (\<lambda>t. t < c) ts) = filter (\<lambda>t. d \<le> t) ts"
  for c :: "'t :: linorder"
  by (induction ts) auto

lemma grants_since_dropWhile:
  "sorted ts \<Longrightarrow> length (dropWhile (\<lambda>t. t < c) ts) = grants_since c ts"
  by (induction ts) (auto simp: grants_since_def not_less intro!: arg_cong [where f = length] filter_True [symmetric])

lemma sorted_dropWhile_le: "sorted ts \<Longrightarrow> sorted (dropWhile P ts)"
  by (simp add: sorted_wrt_dropWhile)

interpretation rb: sliding_window try_acquire "\<lambda>c b. grants_since c (retry_timestamps b)"
    "rb_valid cap w" cap "of_int w" for cap w
proof
  show "rb_valid cap w t' b" if "rb_valid cap w t b" "t \<le> t'" for t t' b
    using that by (auto simp: rb_valid_def)
  show "rb_valid cap w now (snd (try_acquire now b))" if "rb_valid cap w now b" for now b
    using that by (auto simp: rb_valid_def try_acquire_def Let_def sorted_append sorted_dropWhile_le
        dest: set_dropWhileD)
  show "fst (try_acquire now b) \<longleftrightarrow> int (grants_since (now - of_int w) (retry_timestamps b)) < cap"
    if "rb_valid cap w now b" for now b
    using that by (simp add: rb_valid_def try_acquire_def Let_def grants_since_dropWhile not_le)
  show "grants_since c (retry_timestamps (snd (try_acquire now b))) = grants_since c (retry_timestamps b) +
      (if fst (try_acquire now b) \<and> c \<le> now then 1 else 0)"
    if "rb_valid cap w now b" "now - of_int w \<le> c" for now b c
    using that by (simp add: rb_valid_def try_acquire_def Let_def grants_since_def dropWhile_sorted_filter)
qed

section \<open>The rate limiter meets the contract\<close>

lemma attempts_since_append:
  "attempts_since l key c (table @ [attempt l' key' now]) = attempts_since l key c table @
     (if key' = key \<and> rl_type l' = rl_type l \<and> c \<le> now then [now] else [])"
  by (simp add: attempts_since_def attempt_def)

interpretation dbl: sliding_window "increment_for l key" "\<lambda>c table. length (attempts_since l key c table)"
    "\<lambda>_ _. True" "max_attempts l" "timedelta_seconds (rl_window_seconds l)" for l key
  by unfold_locales
     (auto simp: increment_for_def check_and_increment_def Let_def window_start_def attempts_since_append)

section \<open>What the limiters decide\<close>

text \<open>
  C16. The retry budget is an exact sliding window: over any sequence of requests in clock order it
  grants precisely those the ideal limiter grants, although it forgets old grants, and so no window
  of \<open>window_seconds\<close> holds more than \<open>max_retries_per_window\<close> grants.
\<close>

theorem retry_budget_exact:
  assumes "sorted ts" and "0 \<le> cap"
  shows "fst (run_requests try_acquire (RetryBudget cap w) ts) = ideal_grants cap (of_int w) [] ts \<and>
    int (in_window (of_int w) x (fst (run_requests try_acquire (RetryBudget cap w) ts))) \<le> cap"
  using rb.run_ideal [of ts cap w "RetryBudget cap w"] rb.run_bound [of ts cap w "RetryBudget cap w" x] assms
  by (simp add: rb_valid_def RetryBudget_def grants_since_def)

theorem retry_budget_exact_witness:
  "fst (run_requests try_acquire (RetryBudget 2 60) [0, 10, 20, 61, 70]) = [0, 10, 61]"
proof -
  have i: "ideal_grants 2 60 [] [0, 10, 20, 61, 70] = [0, 10, 61 :: rat]"
    by (simp add: grants_since_def)
  show ?thesis
    using retry_budget_exact [of "[0, 10, 20, 61, 70]" 2 60 61] unfolding of_int_numeral i by (simp del: run_requests.simps)
qed

lemma increment_for_other:
  "key' \<noteq> key \<Longrightarrow> attempts_since l key c (snd (increment_for l key' now table)) = attempts_since l key c table"
  by (simp add: increment_for_def check_and_increment_def Let_def attempts_since_append)

lemma increment_for_cong:
  assumes "\<And>c. attempts_since l key c table = attempts_since l key c table'"
  shows "fst (increment_for l key now table) = fst (increment_for l key now table')"
    and "attempts_since l key c (snd (increment_for l key now table)) =
         attempts_since l key c (snd (increment_for l key now table'))"
  using assms by (simp_all add: increment_for_def check_and_increment_def Let_def attempts_since_append)

lemma run_increments_key:
  "(\<And>c. attempts_since l key c table = attempts_since l key c table') \<Longrightarrow>
   times_of key (fst (run_increments l table ops)) =
     fst (run_requests (increment_for l key) table' (times_of key ops))"
proof (induction ops arbitrary: table table')
  case (Cons op ops)
  obtain k now where op: "op = (k, now)" by fastforce
  show ?case
  proof (cases "k = key")
    case True
    note c = increment_for_cong [OF Cons(2), where now = now]
    have "times_of key (fst (run_increments l (snd (increment_for l key now table)) ops)) =
      fst (run_requests (increment_for l key) (snd (increment_for l key now table')) (times_of key ops))"
      by (rule Cons(1)) (rule c(2))
    with True c(1) show ?thesis by (simp add: op times_of_def case_prod_beta)
  next
    case False
    have "times_of key (fst (run_increments l (snd (increment_for l k now table)) ops)) =
      fst (run_requests (increment_for l key) table' (times_of key ops))"
      by (rule Cons(1)) (simp add: increment_for_other [OF False] Cons(2))
    with False show ?thesis by (simp add: op times_of_def case_prod_beta)
  qed
qed (simp add: times_of_def)

text \<open>
  C17. The rate limiter is an exact sliding window per key: with requests for any keys interleaved in
  clock order, the requests granted to a key after its attempts were cleared are those the ideal
  limiter grants it alone, and no window holds more than \<open>max_attempts\<close> of them.
\<close>

theorem rate_limiter_exact:
  assumes "DatabaseRateLimiter ma ws ty = Inr l" and "sorted (times_of key ops)"
  shows "times_of key (fst (run_increments l (clear_for_key l key table) ops)) =
      ideal_grants ma (timedelta_seconds ws) [] (times_of key ops) \<and>
    int (in_window (timedelta_seconds ws) x
      (times_of key (fst (run_increments l (clear_for_key l key table) ops)))) \<le> ma"
proof -
  have l: "max_attempts l = ma" "rl_window_seconds l = ws" "0 < ma"
    using assms(1) by (auto simp: DatabaseRateLimiter_def split: if_splits)
  have "attempts_since l key c (clear_for_key l key table) = []" for c
    by (auto simp: attempts_since_def clear_for_key_def filter_empty_conv)
  then have "attempts_since l key c (clear_for_key l key table) = attempts_since l key c []" for c
    by (simp add: attempts_since_def)
  note r = run_increments_key [OF this, of ops]
  show ?thesis
    unfolding r using dbl.run_ideal [of "times_of key ops" l key "[]"] l assms(2)
      dbl.run_bound [of "times_of key ops" l key "[]" x] by (simp add: attempts_since_def)
qed

theorem rate_limiter_exact_witness:
  "times_of ''ip'' (fst (run_increments \<lparr>max_attempts = 1, rl_window_seconds = 60, rl_type = ''login''\<rparr> []
     [(''ip'', 0), (''other'', 5), (''ip'', 10000000), (''ip'', 60000001)])) = [0, 60000001]"
proof -
  let ?l = "\<lparr>max_attempts = 1, rl_window_seconds = 60, rl_type = ''login''\<rparr>"
  let ?ops = "[(''ip'', 0), (''other'', 5), (''ip'', 10000000), (''ip'', 60000001)]"
  have "DatabaseRateLimiter 1 60 ''login'' = Inr ?l" by (simp add: DatabaseRateLimiter_def)
  from rate_limiter_exact [OF this, of "''ip''" ?ops "[]"] show ?thesis
    by (simp add: times_of_def clear_for_key_def timedelta_seconds_def grants_since_def
        del: run_increments.simps)
qed

lemma attempts_since_later:
  "c \<le> c' \<Longrightarrow> attempts_since l key c' table = filter (\<lambda>t. c' \<le> t) (attempts_since l key c table)"
  by (induction table) (auto simp: attempts_since_def)

lemma attempts_since_less:
  assumes "c \<le> c'" "t < c'" "t \<in> set (attempts_since l key c table)"
  shows "length (attempts_since l key c' table) < length (attempts_since l key c table)"
  unfolding attempts_since_later [OF assms(1)] using assms(2,3)
  by (intro length_filter_less [of t]) simp_all

lemma oldest_attempt_spec:
  assumes "ts \<noteq> []"
  obtains t where "oldest_attempt ts = Some t" "t \<in> set ts" "\<forall>x \<in> set ts. t \<le> x"
proof -
  obtain y ys where ts: "ts = y # ys" using assms by (cases ts) auto
  have "min_from id y ys \<in> set ts" using min_from_in [of id y ys] by (simp add: ts)
  moreover have "\<forall>x \<in> set ts. min_from id y ys \<le> x"
    using min_from_le [where f = id and a = y and bs = ys] by (simp add: ts)
  ultimately show thesis using that by (simp add: oldest_attempt_def ts)
qed

lemma py_int_less_add: "x < of_int (py_int x) + 1"
  by (simp add: py_int_def) linarith

text \<open>
  The hint of a rejected request is sound: it is at least one second and at most the window, and
  a key that sends nothing else is granted its next request one second after the hint has passed.
\<close>

theorem rejected_then_granted:
  assumes "DatabaseRateLimiter ma ws ty = Inr l"
    and "check_and_increment l now key table = (Inl e, table')"
    and "\<forall>t \<in> set (attempts_since l key (window_start l now) table). t \<le> now"
    and "int (length (attempts_since l key (window_start l now) table)) \<le> ma"
    and "now' \<ge> now + timedelta_seconds (retry_after e + 1)"
  shows "1 \<le> retry_after e \<and> retry_after e \<le> ws \<and>
    (\<exists>t. check_and_increment l now' key table' = (Inr (), t))"
proof -
  have l: "max_attempts l = ma" "rl_window_seconds l = ws" "0 < ma" "0 < ws"
    using assms(1) by (auto simp: DatabaseRateLimiter_def split: if_splits)
  let ?rec = "attempts_since l key (window_start l now) table"
  have full: "int (length ?rec) = ma" and t': "table' = table"
    and e: "retry_after e = retry_after_seconds l now (oldest_attempt ?rec)"
    using assms(2,4) l(1) by (auto simp: check_and_increment_def Let_def split: if_splits)
  then have "?rec \<noteq> []" using l(3) by auto
  then obtain t where t: "oldest_attempt ?rec = Some t" "t \<in> set ?rec" "\<forall>x \<in> set ?rec. t \<le> x"
    by (rule oldest_attempt_spec)
  let ?x = "of_int (t + timedelta_seconds ws - now) / 1000000 :: rat"
  have r: "retry_after e = max 1 (py_int ?x)" using e t(1) l(2) by (simp add: retry_after_seconds_def)
  have "?x \<le> of_int ws" using assms(3) t(2) by (simp add: timedelta_seconds_def)
  then have "py_int ?x \<le> ws" using py_int_mono [of ?x "of_int ws"] by simp
  moreover have "\<exists>t. check_and_increment l now' key table' = (Inr (), t)"
  proof -
    have "?x < of_int (retry_after e + 1)" using py_int_less_add [of ?x] r by linarith
    then have "t + timedelta_seconds ws - now < timedelta_seconds (retry_after e + 1)"
      by (simp add: timedelta_seconds_def)
    then have late: "t < window_start l now'" using assms(5) l(2) by (simp add: window_start_def)
    then have "window_start l now \<le> window_start l now'"
      using t(2) by (auto simp: attempts_since_def)
    then have "length (attempts_since l key (window_start l now') table) < length ?rec"
      using late t(2) by (rule attempts_since_less)
    then show ?thesis using full t' l by (simp add: check_and_increment_def Let_def)
  qed
  ultimately show ?thesis using r l(4) by simp
qed

theorem rejected_then_granted_witness:
  "\<exists>t. check_and_increment \<lparr>max_attempts = 1, rl_window_seconds = 60, rl_type = ''login''\<rparr> 60500000 ''ip''
     [\<lparr>att_key = ''ip'', att_type = ''login'', attempted_at = 0\<rparr>] = (Inr (), t)"
proof -
  let ?l = "\<lparr>max_attempts = 1, rl_window_seconds = 60, rl_type = ''login''\<rparr>"
  let ?t = "[\<lparr>att_key = ''ip'', att_type = ''login'', attempted_at = 0\<rparr>]"
  have 1: "DatabaseRateLimiter 1 60 ''login'' = Inr ?l" by (simp add: DatabaseRateLimiter_def)
  have 2: "attempts_since ?l ''ip'' (window_start ?l 500000) ?t = [0]"
    by (simp add: attempts_since_def window_start_def timedelta_seconds_def)
  have "(59500000 / 1000000 :: rat) = 119 / 2" by simp
  then have 3: "check_and_increment ?l 500000 ''ip'' ?t = (Inl (DashboardRateLimitError 59), ?t)"
    by (simp add: check_and_increment_def 2 oldest_attempt_def retry_after_seconds_def py_int_def
        timedelta_seconds_def floor_eq_iff)
  from rejected_then_granted [OF 1 3, of 60500000] show ?thesis
    by (simp add: 2 timedelta_seconds_def)
qed

end
