(* ===== verification/Admission.thy ===== *)
theory Admission
  imports Prelude "HOL-Library.Multiset"
begin

text \<open>
  Admission control: the lanes of \<open>app/core/resilience/bulkhead.py\<close>, the middleware of
  \<open>app/core/resilience/backpressure.py\<close>, the gates of \<open>app/modules/proxy/work_admission.py\<close>, the
  overload responses of \<open>app/core/resilience/overload.py\<close> and the thresholds of
  \<open>app/core/resilience/memory_monitor.py\<close>. Requests in flight are kept beside the semaphores, and
  step relations interleave arrivals, completions, timeouts and releases. The locale
  \<open>capacity_gate\<close> is what the three share: slots are conserved, so a gate never holds more than its
  limit and turns a request away only when it is full.
\<close>

section \<open>Semaphores\<close>

text \<open>
  \<open>asyncio.Semaphore\<close>: the free slots and the tasks that wait, in order. A release hands the slot
  to the first waiting task if there is one.
\<close>

record semaphore =
  sem_value :: nat
  sem_waiters :: "nat list"

definition new_semaphore :: "int \<Rightarrow> semaphore" where
  "new_semaphore n = \<lparr>sem_value = nat n, sem_waiters = []\<rparr>"

definition sem_locked :: "semaphore \<Rightarrow> bool" where
  "sem_locked s = (sem_value s = 0 \<or> sem_waiters s \<noteq> [])"

definition sem_take :: "semaphore \<Rightarrow> semaphore" where
  "sem_take s = s\<lparr>sem_value := sem_value s - 1\<rparr>"

definition sem_release :: "semaphore \<Rightarrow> nat option \<times> semaphore" where
  "sem_release s = (case sem_waiters s of
     [] \<Rightarrow> (None, s\<lparr>sem_value := sem_value s + 1\<rparr>)
   | w # ws \<Rightarrow> (Some w, s\<lparr>sem_waiters := ws\<rparr>))"

section \<open>Overload responses\<close>

datatype payload =
    OpenAIError (pl_message: string) (pl_type: string) (pl_code: string)
  | Detail string

definition LOCAL_OVERLOAD_CODE :: string where
  "LOCAL_OVERLOAD_CODE = ''proxy_overloaded''"

definition openai_error :: "string \<Rightarrow> string \<Rightarrow> string \<Rightarrow> payload" where
  "openai_error code message error_type = OpenAIError message error_type code"

definition local_overload_error :: "string \<Rightarrow> payload" where
  "local_overload_error message = openai_error LOCAL_OVERLOAD_CODE message ''rate_limit_error''"

definition local_unavailable_error :: "string \<Rightarrow> payload" where
  "local_unavailable_error message = openai_error ''proxy_unavailable'' message ''server_error''"

definition is_local_overload_error_code :: "string option \<Rightarrow> bool" where
  "is_local_overload_error_code code = (code = Some LOCAL_OVERLOAD_CODE)"

definition merge_retry_after_headers :: "(string \<times> string) list option \<Rightarrow> string \<Rightarrow> (string \<times> string) list" where
  "merge_retry_after_headers headers retry_after =
     (let merged = (case headers of None \<Rightarrow> [] | Some h \<Rightarrow> h)
      in if map_of merged ''Retry-After'' = None then merged @ [(''Retry-After'', retry_after)] else merged)"

definition is_proxy_path :: "string \<Rightarrow> bool" where
  "is_proxy_path path = (prefix ''/v1/'' path \<or> prefix ''/backend-api/'' path)"

text \<open>The messages sent to the server; the body is the payload that \<open>json.dumps\<close> encodes.\<close>

datatype asgi_message =
    ResponseStart string (msg_status: int) "(string \<times> string) list"
  | ResponseBody string payload

definition encode_headers :: "(string \<times> string) list \<Rightarrow> (string \<times> string) list" where
  "encode_headers headers =
     (''content-type'', ''application/json'') # map (\<lambda>(k, v). (py_lower k, v)) headers"

definition send_json_http_response :: "int \<Rightarrow> payload \<Rightarrow> (string \<times> string) list \<Rightarrow> asgi_message list" where
  "send_json_http_response status_code payload headers =
     [ResponseStart ''http.response.start'' status_code (encode_headers headers),
      ResponseBody ''http.response.body'' payload]"

text \<open>The event is what \<open>receive\<close> returns, \<open>None\<close> when it raises.\<close>

definition deny_websocket_with_http_response ::
    "string option \<Rightarrow> int \<Rightarrow> payload \<Rightarrow> (string \<times> string) list \<Rightarrow> asgi_message list" where
  "deny_websocket_with_http_response event status_code payload headers = (case event of
     None \<Rightarrow> []
   | Some ty \<Rightarrow> if ty \<noteq> ''websocket.connect'' then []
       else [ResponseStart ''websocket.http.response.start'' status_code (encode_headers headers),
             ResponseBody ''websocket.http.response.body'' payload])"

section \<open>Memory thresholds\<close>

record memory_config =
  memory_warning_threshold_bytes :: int
  memory_reject_threshold_bytes :: int

definition configure :: "int \<Rightarrow> int \<Rightarrow> memory_config" where
  "configure warning_threshold_mb reject_threshold_mb =
     \<lparr>memory_warning_threshold_bytes = warning_threshold_mb * 1024 * 1024,
      memory_reject_threshold_bytes = reject_threshold_mb * 1024 * 1024\<rparr>"

definition is_memory_pressure :: "memory_config \<Rightarrow> int \<Rightarrow> bool" where
  "is_memory_pressure m rss =
     (if memory_reject_threshold_bytes m \<le> 0 then False else rss \<ge> memory_reject_threshold_bytes m)"

definition is_memory_warning :: "memory_config \<Rightarrow> int \<Rightarrow> bool" where
  "is_memory_warning m rss =
     (if memory_warning_threshold_bytes m \<le> 0 then False else rss \<ge> memory_warning_threshold_bytes m)"

section \<open>The bulkhead\<close>

datatype lane = proxy_websocket | proxy_compact | proxy_http | dashboard

definition lane_name :: "lane \<Rightarrow> string" where
  "lane_name l = (case l of proxy_websocket \<Rightarrow> ''proxy_websocket'' | proxy_compact \<Rightarrow> ''proxy_compact''
     | proxy_http \<Rightarrow> ''proxy_http'' | dashboard \<Rightarrow> ''dashboard'')"

record bulkhead =
  bh_lane :: "lane \<Rightarrow> semaphore option"
  bh_background :: "semaphore option"

definition optional_semaphore :: "int \<Rightarrow> semaphore option" where
  "optional_semaphore n = (if n > 0 then Some (new_semaphore n) else None)"

definition resolve_limits :: "int option \<Rightarrow> int \<Rightarrow> int option \<Rightarrow> int option \<Rightarrow> int option \<Rightarrow> lane \<Rightarrow> int" where
  "resolve_limits proxy_limit dashboard_limit proxy_http_limit proxy_websocket_limit
     proxy_compact_limit =
   (let resolved_proxy_limit = (case proxy_limit of None \<Rightarrow> 200 | Some n \<Rightarrow> n);
        http = (case proxy_http_limit of None \<Rightarrow> resolved_proxy_limit | Some n \<Rightarrow> n);
        websocket = (case proxy_websocket_limit of None \<Rightarrow> resolved_proxy_limit | Some n \<Rightarrow> n);
        compact = (case proxy_compact_limit of None \<Rightarrow> if http \<le> 0 then 0 else min http 16 | Some n \<Rightarrow> n)
    in (\<lambda>l. case l of proxy_websocket \<Rightarrow> websocket | proxy_compact \<Rightarrow> compact | proxy_http \<Rightarrow> http
          | dashboard \<Rightarrow> dashboard_limit))"

definition BulkheadSemaphore ::
    "int option \<Rightarrow> int \<Rightarrow> int \<Rightarrow> int option \<Rightarrow> int option \<Rightarrow> int option \<Rightarrow> bulkhead" where
  "BulkheadSemaphore proxy_limit dashboard_limit background_limit proxy_http_limit
     proxy_websocket_limit proxy_compact_limit =
   \<lparr>bh_lane = (\<lambda>l. optional_semaphore (resolve_limits proxy_limit dashboard_limit proxy_http_limit
       proxy_websocket_limit proxy_compact_limit l)),
    bh_background = optional_semaphore background_limit\<rparr>"

definition is_compact_path :: "string \<Rightarrow> bool" where
  "is_compact_path path = suffix ''/responses/compact'' path"

definition lane_of :: "string \<Rightarrow> string \<Rightarrow> lane" where
  "lane_of scope_type path =
     (if scope_type = ''websocket'' \<and> is_proxy_path path then proxy_websocket
      else if scope_type = ''http'' \<and> is_compact_path path then proxy_compact
      else if scope_type = ''http'' \<and> is_proxy_path path then proxy_http
      else dashboard)"

definition get_semaphore :: "bulkhead \<Rightarrow> string \<Rightarrow> string \<Rightarrow> lane \<times> semaphore option" where
  "get_semaphore b scope_type path = (let l = lane_of scope_type path in (l, bh_lane b l))"

text \<open>
  What a middleware does with a request: forward it to the application, holding a slot or not, or
  answer it itself.
\<close>

datatype 'l verdict = Forward "'l option" | Respond "asgi_message list"

record asgi_scope =
  scope_type :: string
  path :: string
  ws_event :: "string option"

definition reject :: "asgi_scope \<Rightarrow> int \<Rightarrow> (string \<Rightarrow> payload) \<Rightarrow> string \<Rightarrow> 'l verdict" where
  "reject sc status_code proxy_error message =
     (let payload = (if is_proxy_path (path sc) then proxy_error message else Detail message);
          headers = merge_retry_after_headers None ''5''
      in Respond (if scope_type sc = ''websocket''
           then deny_websocket_with_http_response (ws_event sc) status_code payload headers
           else send_json_http_response status_code payload headers))"

text \<open>\<open>_last_memory_warning_log\<close> only throttles the log; it is part of the state nevertheless.\<close>

record bulkhead_state =
  bh :: bulkhead
  last_memory_warning_log :: pyfloat

definition note_memory_warning :: "memory_config \<Rightarrow> int \<Rightarrow> pyfloat \<Rightarrow> bulkhead_state \<Rightarrow> bulkhead_state" where
  "note_memory_warning m rss now s =
     (if is_memory_warning m rss \<and> now - last_memory_warning_log s \<ge> 30
      then s\<lparr>last_memory_warning_log := now\<rparr> else s)"

text \<open>
  The middleware up to the call of the application; the two readings of the resident size are
  arguments. Between \<open>sem.locked()\<close> and \<open>sem.acquire()\<close> nothing else runs.
\<close>

definition bulkhead_call :: "memory_config \<Rightarrow> int \<Rightarrow> int \<Rightarrow> pyfloat \<Rightarrow> asgi_scope \<Rightarrow> bulkhead_state
    \<Rightarrow> lane verdict \<times> bulkhead_state" where
  "bulkhead_call m rss rss' now sc s =
     (if scope_type sc \<notin> {''http'', ''websocket''} then (Forward None, s)
      else if prefix ''/health'' (path sc) then (Forward None, s)
      else
        (let s = note_memory_warning m rss now s
         in if is_memory_pressure m rss' then
              (reject sc 503 local_unavailable_error
                 ''codex-lb is temporarily unavailable due to local memory pressure'', s)
            else (case get_semaphore (bh s) (scope_type sc) (path sc) of
                (l, None) \<Rightarrow> (Forward None, s)
              | (l, Some sem) \<Rightarrow>
                  if sem_locked sem then
                    (reject sc 429 local_overload_error
                       (''codex-lb is temporarily overloaded in the '' @ lane_name l @ '' lane''), s)
                  else (Forward (Some l),
                        s\<lparr>bh := (bh s)\<lparr>bh_lane := (bh_lane (bh s))(l := Some (sem_take sem))\<rparr>\<rparr>))))"

definition bulkhead_exit :: "lane \<Rightarrow> bulkhead_state \<Rightarrow> bulkhead_state" where
  "bulkhead_exit l s = (case bh_lane (bh s) l of
     None \<Rightarrow> s
   | Some sem \<Rightarrow> s\<lparr>bh := (bh s)\<lparr>bh_lane := (bh_lane (bh s))(l := Some (snd (sem_release sem)))\<rparr>\<rparr>)"

definition get_bulkhead :: "int \<Rightarrow> int \<Rightarrow> int option \<Rightarrow> int \<Rightarrow> bulkhead option \<Rightarrow> bulkhead \<times> bulkhead option" where
  "get_bulkhead proxy_http_limit proxy_websocket_limit proxy_compact_limit dashboard_limit glob =
     (case glob of
        Some b \<Rightarrow> (b, glob)
      | None \<Rightarrow> (let b = BulkheadSemaphore None dashboard_limit 10 (Some proxy_http_limit)
            (Some proxy_websocket_limit) proxy_compact_limit in (b, Some b)))"

section \<open>Backpressure\<close>

definition backpressure_call :: "asgi_scope \<Rightarrow> semaphore \<Rightarrow> unit verdict \<times> semaphore" where
  "backpressure_call sc sem =
     (if scope_type sc \<notin> {''http'', ''websocket''} then (Forward None, sem)
      else if prefix ''/health'' (path sc) then (Forward None, sem)
      else if sem_locked sem then
        (reject sc 429 local_overload_error ''codex-lb is temporarily overloaded by local backpressure'', sem)
      else (Forward (Some ()), sem_take sem))"

section \<open>Work admission\<close>

text \<open>
  A lease is an object with a released flag; the tasks that hold one are named by numbers.
  \<open>release\<close> may be called any number of times.
\<close>

record gate =
  gate_semaphore :: semaphore
  wait_timeout_seconds :: pyfloat

definition make_gate :: "int \<Rightarrow> pyfloat \<Rightarrow> gate option" where
  "make_gate limit timeout = (if limit \<le> 0 then None
     else Some \<lparr>gate_semaphore = new_semaphore limit, wait_timeout_seconds = timeout\<rparr>)"

record controller =
  token_refresh :: "gate option"
  websocket_connect :: "gate option"
  response_create :: "gate option"
  compact_response_create :: "gate option"

definition WorkAdmissionController :: "int \<Rightarrow> int \<Rightarrow> int \<Rightarrow> int \<Rightarrow> pyfloat \<Rightarrow> controller" where
  "WorkAdmissionController token_refresh_limit websocket_connect_limit response_create_limit
     compact_response_create_limit timeout =
   \<lparr>token_refresh = make_gate token_refresh_limit timeout,
    websocket_connect = make_gate websocket_connect_limit timeout,
    response_create = make_gate response_create_limit timeout,
    compact_response_create = make_gate compact_response_create_limit timeout\<rparr>"

definition response_create_gate :: "controller \<Rightarrow> bool \<Rightarrow> gate option \<times> string" where
  "response_create_gate c is_compact = (if is_compact then (compact_response_create c, ''compact_response_create'')
     else (response_create c, ''response_create''))"

text \<open>A lease: \<open>None\<close> without a semaphore, otherwise whether it was released.\<close>

type_synonym lease = "bool option"

record gate_state =
  gate :: gate
  leases :: "nat \<Rightarrow> lease option"

text \<open>\<open>_acquire\<close> by task \<open>i\<close>: granted at once, or queued until a slot is handed over or time is up.\<close>

definition gate_acquire :: "nat \<Rightarrow> gate_state \<Rightarrow> gate_state" where
  "gate_acquire i g =
     (let sem = gate_semaphore (gate g)
      in if sem_locked sem
         then g\<lparr>gate := (gate g)\<lparr>gate_semaphore := sem\<lparr>sem_waiters := sem_waiters sem @ [i]\<rparr>\<rparr>\<rparr>
         else g\<lparr>gate := (gate g)\<lparr>gate_semaphore := sem_take sem\<rparr>, leases := (leases g)(i \<mapsto> Some False)\<rparr>)"

definition gate_timeout :: "string \<Rightarrow> nat \<Rightarrow> gate_state \<Rightarrow> (int \<times> payload) \<times> gate_state" where
  "gate_timeout stage i g =
     (let sem = gate_semaphore (gate g)
      in ((429, local_overload_error (''codex-lb is temporarily overloaded during '' @ stage)),
          g\<lparr>gate := (gate g)\<lparr>gate_semaphore := sem\<lparr>sem_waiters := remove1 i (sem_waiters sem)\<rparr>\<rparr>\<rparr>))"

definition lease_release :: "nat \<Rightarrow> gate_state \<Rightarrow> gate_state" where
  "lease_release i g = (case leases g i of
     Some (Some False) \<Rightarrow>
       (case sem_release (gate_semaphore (gate g)) of (w, sem) \<Rightarrow>
          g\<lparr>gate := (gate g)\<lparr>gate_semaphore := sem\<rparr>,
            leases := (case w of None \<Rightarrow> (leases g)(i \<mapsto> Some True)
               | Some j \<Rightarrow> (leases g)(i \<mapsto> Some True, j \<mapsto> Some False))\<rparr>)
   | _ \<Rightarrow> g)"

section \<open>Interleaved requests\<close>

text \<open>The middlewares with the requests they have forwarded and not finished.\<close>

record bulkhead_system =
  bhs :: bulkhead_state
  in_flight :: "lane multiset"

fun admitted :: "'l verdict \<Rightarrow> 'l multiset" where
  "admitted (Forward (Some l)) = {#l#}"
| "admitted (Forward None) = {#}"
| "admitted (Respond ms) = {#}"

inductive bulkhead_step :: "bulkhead_system \<Rightarrow> bulkhead_system \<Rightarrow> bool" where
  arrive: "bulkhead_call m rss rss' now sc (bhs s) = (v, b) \<Longrightarrow>
    bulkhead_step s (s\<lparr>bhs := b, in_flight := in_flight s + admitted v\<rparr>)"
| leave: "l \<in># in_flight s \<Longrightarrow>
    bulkhead_step s (s\<lparr>bhs := bulkhead_exit l (bhs s), in_flight := in_flight s - {#l#}\<rparr>)"

record backpressure_system =
  bp_semaphore :: semaphore
  bp_in_flight :: "unit multiset"

inductive backpressure_step :: "backpressure_system \<Rightarrow> backpressure_system \<Rightarrow> bool" where
  bp_arrive: "backpressure_call sc (bp_semaphore s) = (v, sem) \<Longrightarrow>
    backpressure_step s (s\<lparr>bp_semaphore := sem, bp_in_flight := bp_in_flight s + admitted v\<rparr>)"
| bp_leave: "() \<in># bp_in_flight s \<Longrightarrow>
    backpressure_step s (s\<lparr>bp_semaphore := snd (sem_release (bp_semaphore s)),
      bp_in_flight := bp_in_flight s - {#()#}\<rparr>)"

text \<open>A task acquires once; a lease may be released at any time and repeatedly.\<close>

inductive gate_step :: "gate_state \<Rightarrow> gate_state \<Rightarrow> bool" where
  acquire: "leases g i = None \<Longrightarrow> i \<notin> set (sem_waiters (gate_semaphore (gate g))) \<Longrightarrow>
    gate_step g (gate_acquire i g)"
| timeout: "i \<in> set (sem_waiters (gate_semaphore (gate g))) \<Longrightarrow>
    gate_step g (snd (gate_timeout stage i g))"
| release: "gate_step g (lease_release i g)"

definition held :: "gate_state \<Rightarrow> nat set" where
  "held g = {i. leases g i = Some (Some False)}"

definition lane_semaphore :: "lane \<Rightarrow> bulkhead_system \<Rightarrow> semaphore" where
  "lane_semaphore l s = the (bh_lane (bh (bhs s)) l)"

definition bulkhead_wf :: "lane \<Rightarrow> bulkhead_system \<Rightarrow> bool" where
  "bulkhead_wf l s \<longleftrightarrow> bh_lane (bh (bhs s)) l \<noteq> None \<and> sem_waiters (lane_semaphore l s) = []"

definition gate_wf :: "gate_state \<Rightarrow> bool" where
  "gate_wf g \<longleftrightarrow> finite (held g) \<and> distinct (sem_waiters (gate_semaphore (gate g))) \<and>
     (\<forall>i \<in> set (sem_waiters (gate_semaphore (gate g))). leases g i = None) \<and>
     (sem_waiters (gate_semaphore (gate g)) \<noteq> [] \<longrightarrow> sem_value (gate_semaphore (gate g)) = 0)"

definition initial_bulkhead :: "bulkhead \<Rightarrow> bulkhead_system" where
  "initial_bulkhead b = \<lparr>bhs = \<lparr>bh = b, last_memory_warning_log = 0\<rparr>, in_flight = {#}\<rparr>"

definition initial_backpressure :: "int \<Rightarrow> backpressure_system" where
  "initial_backpressure n = \<lparr>bp_semaphore = new_semaphore n, bp_in_flight = {#}\<rparr>"

definition initial_gate :: "gate \<Rightarrow> gate_state" where
  "initial_gate g = \<lparr>gate = g, leases = (\<lambda>_. None)\<rparr>"

text \<open>A bulkhead with one slot for compaction, in use.\<close>

definition sample_compact :: bulkhead_system where
  "sample_compact = (let b = BulkheadSemaphore None 50 10 None None (Some 1)
     in \<lparr>bhs = \<lparr>bh = b\<lparr>bh_lane := (bh_lane b)(proxy_compact := Some \<lparr>sem_value = 0, sem_waiters = []\<rparr>)\<rparr>,
         last_memory_warning_log = 0\<rparr>, in_flight = {#proxy_compact#}\<rparr>)"

section \<open>The contract of a gate\<close>

text \<open>
  Every step of a well-formed gate keeps the sum of its free and its used slots, and the gate turns
  a newcomer away exactly when no slot is free.
\<close>

locale capacity_gate =
  fixes step :: "'s \<Rightarrow> 's \<Rightarrow> bool" and wf :: "'s \<Rightarrow> bool"
    and free :: "'s \<Rightarrow> nat" and used :: "'s \<Rightarrow> nat" and full :: "'s \<Rightarrow> bool"
  assumes wf_step: "step s s' \<Longrightarrow> wf s \<Longrightarrow> wf s'"
    and conserved: "step s s' \<Longrightarrow> wf s \<Longrightarrow> free s' + used s' = free s + used s"
    and full_iff: "wf s \<Longrightarrow> full s \<longleftrightarrow> free s = 0"
begin

lemma reachable: "step\<^sup>*\<^sup>* s s' \<Longrightarrow> wf s \<Longrightarrow> wf s' \<and> free s' + used s' = free s + used s"
  by (induction rule: rtranclp_induct) (auto dest: wf_step conserved)

lemma gate_exact:
  assumes "step\<^sup>*\<^sup>* s s'" "wf s" "used s = 0"
  shows "used s' \<le> free s \<and> (full s' \<longleftrightarrow> used s' = free s)"
  using reachable [OF assms(1,2)] full_iff [of s'] assms(3) by auto

end

section \<open>The three gates meet the contract\<close>

lemma bulkhead_call_lane:
  assumes "bulkhead_call m rss rss' now sc b = (v, b')"
  shows "bh b' = bh b \<and> admitted v = {#} \<or>
    (\<exists>l sem. bh_lane (bh b) l = Some sem \<and> \<not> sem_locked sem \<and> admitted v = {#l#} \<and>
       bh_lane (bh b') = (bh_lane (bh b))(l := Some (sem_take sem)))"
  using assms
  by (auto simp: bulkhead_call_def note_memory_warning_def get_semaphore_def reject_def Let_def
      split: if_splits option.splits)

interpretation lane: capacity_gate bulkhead_step "bulkhead_wf l" "\<lambda>s. sem_value (lane_semaphore l s)"
    "\<lambda>s. count (in_flight s) l" "\<lambda>s. sem_locked (lane_semaphore l s)" for l
proof
  fix s s'
  assume st: "bulkhead_step s s'" and wf: "bulkhead_wf l s"
  from st wf have "bulkhead_wf l s' \<and> sem_value (lane_semaphore l s') + count (in_flight s') l =
     sem_value (lane_semaphore l s) + count (in_flight s) l"
  proof (cases rule: bulkhead_step.cases)
    case (arrive m rss rss' now sc v b)
    with wf bulkhead_call_lane [OF arrive(2)] show ?thesis
      by (auto simp: bulkhead_wf_def lane_semaphore_def sem_take_def sem_locked_def)
  next
    case (leave k)
    from leave(2) obtain rest where "in_flight s = add_mset k rest" by (rule mset_add)
    with leave(1) wf show ?thesis
      by (cases "bh_lane (bh (bhs s)) k") (auto simp: bulkhead_wf_def lane_semaphore_def
          bulkhead_exit_def sem_release_def split: list.splits)
  qed
  then show "bulkhead_wf l s'" and "sem_value (lane_semaphore l s') + count (in_flight s') l =
     sem_value (lane_semaphore l s) + count (in_flight s) l" by auto
qed (simp add: bulkhead_wf_def sem_locked_def)

interpretation bp: capacity_gate backpressure_step "\<lambda>s. sem_waiters (bp_semaphore s) = []"
    "\<lambda>s. sem_value (bp_semaphore s)" "\<lambda>s. size (bp_in_flight s)" "\<lambda>s. sem_locked (bp_semaphore s)"
proof
  fix s s'
  assume st: "backpressure_step s s'" and wf: "sem_waiters (bp_semaphore s) = []"
  from st wf have "sem_waiters (bp_semaphore s') = [] \<and>
     sem_value (bp_semaphore s') + size (bp_in_flight s') = sem_value (bp_semaphore s) + size (bp_in_flight s)"
    by (cases rule: backpressure_step.cases)
       (auto simp: backpressure_call_def reject_def Let_def sem_take_def sem_locked_def sem_release_def
         dest!: multi_member_split split: if_splits)
  then show "sem_waiters (bp_semaphore s') = []" and
    "sem_value (bp_semaphore s') + size (bp_in_flight s') = sem_value (bp_semaphore s) + size (bp_in_flight s)"
    by auto
qed (simp add: sem_locked_def)

lemma held_simps:
  "held (g\<lparr>gate := x\<rparr>) = held g"
  "held (g\<lparr>gate := x, leases := (leases g)(i \<mapsto> Some False)\<rparr>) = insert i (held g)"
  "held (g\<lparr>gate := x, leases := (leases g)(i \<mapsto> Some True)\<rparr>) = held g - {i}"
  "i \<noteq> j \<Longrightarrow> held (g\<lparr>gate := x, leases := (leases g)(i \<mapsto> Some True, j \<mapsto> Some False)\<rparr>) = insert j (held g - {i})"
  by (auto simp: held_def)

lemma gate_acquire_ok:
  assumes "gate_wf g" "leases g i = None" "i \<notin> set (sem_waiters (gate_semaphore (gate g)))"
  shows "gate_wf (gate_acquire i g) \<and> sem_value (gate_semaphore (gate (gate_acquire i g))) +
    card (held (gate_acquire i g)) = sem_value (gate_semaphore (gate g)) + card (held g)"
proof (cases "sem_locked (gate_semaphore (gate g))")
  case True
  with assms show ?thesis
    by (auto simp: gate_acquire_def Let_def gate_wf_def sem_locked_def held_simps)
next
  case False
  have "i \<notin> held g" using assms(2) by (simp add: held_def)
  with False assms show ?thesis
    by (auto simp: gate_acquire_def Let_def gate_wf_def sem_locked_def sem_take_def held_simps)
qed

lemma gate_timeout_ok:
  assumes "gate_wf g"
  shows "gate_wf (snd (gate_timeout stage i g)) \<and>
    sem_value (gate_semaphore (gate (snd (gate_timeout stage i g)))) + card (held (snd (gate_timeout stage i g)))
      = sem_value (gate_semaphore (gate g)) + card (held g)"
  using assms notin_set_remove1 by (fastforce simp: gate_timeout_def gate_wf_def held_simps Let_def)

lemma lease_release_idle: "i \<notin> held g \<Longrightarrow> lease_release i g = g"
  by (auto simp: lease_release_def held_def split: option.splits bool.splits)

lemma lease_release_ok:
  assumes "gate_wf g"
  shows "gate_wf (lease_release i g) \<and>
    sem_value (gate_semaphore (gate (lease_release i g))) + card (held (lease_release i g))
      = sem_value (gate_semaphore (gate g)) + card (held g)"
proof (cases "i \<in> held g")
  case True
  then have l: "leases g i = Some (Some False)" by (simp add: held_def)
  have fin: "finite (held g)" using assms by (simp add: gate_wf_def)
  have c: "Suc (card (held g - {i})) = card (held g)" by (rule card_Suc_Diff1 [OF fin True])
  show ?thesis
  proof (cases "sem_waiters (gate_semaphore (gate g))")
    case Nil
    with l assms fin c show ?thesis
      by (simp add: lease_release_def sem_release_def gate_wf_def held_simps)
  next
    case (Cons j js)
    then have j: "leases g j = None" "i \<noteq> j" "j \<notin> held g" using assms l by (auto simp: gate_wf_def held_def)
    with Cons l assms fin c show ?thesis
      by (auto simp: lease_release_def sem_release_def gate_wf_def held_simps)
  qed
qed (simp add: lease_release_idle assms)

interpretation work: capacity_gate gate_step gate_wf "\<lambda>g. sem_value (gate_semaphore (gate g))"
    "\<lambda>g. card (held g)" "\<lambda>g. sem_locked (gate_semaphore (gate g))"
proof
  fix g g'
  assume "gate_step g g'" "gate_wf g"
  then show "gate_wf g'" and "sem_value (gate_semaphore (gate g')) + card (held g') =
      sem_value (gate_semaphore (gate g)) + card (held g)"
    by (cases rule: gate_step.cases; simp add: gate_acquire_ok gate_timeout_ok lease_release_ok)+
qed (auto simp: gate_wf_def sem_locked_def)

section \<open>What admission guarantees\<close>

text \<open>
  C18. The lanes of the bulkhead are isolated and exact: from a fresh bulkhead, whatever arrives and
  finishes in any order, a limited lane holds at most its limit of requests, and its semaphore is
  locked, so that the middleware answers 429, exactly when it holds that many.
\<close>

theorem bulkhead_lane_exact:
  assumes "0 < resolve_limits pl dl hl wl cl l"
    and "bulkhead_step\<^sup>*\<^sup>* (initial_bulkhead (BulkheadSemaphore pl dl bl hl wl cl)) s"
  shows "int (count (in_flight s) l) \<le> resolve_limits pl dl hl wl cl l \<and>
    (sem_locked (lane_semaphore l s) \<longleftrightarrow> int (count (in_flight s) l) = resolve_limits pl dl hl wl cl l)"
  using lane.gate_exact [OF assms(2), of l] assms(1)
  by (auto simp: bulkhead_wf_def initial_bulkhead_def lane_semaphore_def BulkheadSemaphore_def
      optional_semaphore_def new_semaphore_def)

lemma sample_compact_arrives:
  "bulkhead_step (initial_bulkhead (BulkheadSemaphore None 50 10 None None (Some 1))) sample_compact"
proof -
  let ?s = "initial_bulkhead (BulkheadSemaphore None 50 10 None None (Some 1))"
  have l: "lane_of ''http'' ''/v1/responses/compact'' = proxy_compact" by code_simp
  have "bulkhead_call (configure 0 0) 0 0 0 \<lparr>scope_type = ''http'', path = ''/v1/responses/compact'',
      ws_event = None\<rparr> (bhs ?s) = (Forward (Some proxy_compact), bhs sample_compact)"
    by (simp add: bulkhead_call_def note_memory_warning_def is_memory_warning_def is_memory_pressure_def
        configure_def get_semaphore_def l sample_compact_def initial_bulkhead_def BulkheadSemaphore_def
        optional_semaphore_def resolve_limits_def new_semaphore_def sem_locked_def sem_take_def Let_def)
  from bulkhead_step.arrive [OF this] show ?thesis
    by (simp add: initial_bulkhead_def sample_compact_def Let_def)
qed

theorem bulkhead_lane_exact_witness:
  "count (in_flight sample_compact) proxy_compact = 1 \<and> sem_locked (lane_semaphore proxy_compact sample_compact)"
proof -
  have 1: "resolve_limits None 50 None None (Some 1) proxy_compact = 1" by (simp add: resolve_limits_def)
  have 2: "count (in_flight sample_compact) proxy_compact = 1" by (simp add: sample_compact_def Let_def)
  from bulkhead_lane_exact [OF _ r_into_rtranclp [of bulkhead_step, OF sample_compact_arrives], of proxy_compact] 2
  show ?thesis unfolding 1 by simp
qed

lemma retry_after_header:
  "encode_headers (merge_retry_after_headers None ''5'') =
     [(''content-type'', ''application/json''), (''retry-after'', ''5'')]"
  by code_simp

lemma reject_start:
  "reject sc st err msg = Respond ms \<Longrightarrow> ResponseStart ty st' hs \<in> set ms \<Longrightarrow>
     st' = st \<and> (''retry-after'', ''5'') \<in> set hs"
  by (auto simp: reject_def Let_def deny_websocket_with_http_response_def send_json_http_response_def
      retry_after_header split: if_splits option.splits)

lemma reject_Respond: "\<exists>ms. reject sc st err msg = Respond ms"
  by (simp add: reject_def Let_def)

text \<open>
  The bulkhead answers a request itself only under memory pressure or when the request's own
  lane is full, never a health check or another kind of scope. The answer has status 503 or 429
  accordingly, tells the client when to retry, and leaves every lane as it was.
\<close>

theorem bulkhead_rejects_iff:
  assumes "bulkhead_call m rss rss' now sc b = (v, b')"
  shows "((\<exists>ms. v = Respond ms) \<longleftrightarrow> scope_type sc \<in> {''http'', ''websocket''} \<and> \<not> prefix ''/health'' (path sc) \<and>
      (is_memory_pressure m rss' \<or>
       (\<exists>sem. bh_lane (bh b) (lane_of (scope_type sc) (path sc)) = Some sem \<and> sem_locked sem))) \<and>
    (\<forall>ms ty st hs. v = Respond ms \<longrightarrow> ResponseStart ty st hs \<in> set ms \<longrightarrow> bh b' = bh b \<and>
      st = (if is_memory_pressure m rss' then 503 else 429) \<and> (''retry-after'', ''5'') \<in> set hs)"
proof -
  have n: "bh (note_memory_warning m rss now b) = bh b" by (simp add: note_memory_warning_def)
  consider (pass) "v = Forward None" "b' = b" "scope_type sc \<notin> {''http'', ''websocket''} \<or> prefix ''/health'' (path sc)"
    | (mem) msg where "v = reject sc 503 local_unavailable_error msg" "bh b' = bh b" "is_memory_pressure m rss'"
        "scope_type sc \<in> {''http'', ''websocket''}" "\<not> prefix ''/health'' (path sc)"
    | (full) msg sem where "v = reject sc 429 local_overload_error msg" "bh b' = bh b" "\<not> is_memory_pressure m rss'"
        "bh_lane (bh b) (lane_of (scope_type sc) (path sc)) = Some sem" "sem_locked sem"
        "scope_type sc \<in> {''http'', ''websocket''}" "\<not> prefix ''/health'' (path sc)"
    | (fwd) l where "v = Forward l" "\<not> is_memory_pressure m rss'"
        "\<forall>sem. bh_lane (bh b) (lane_of (scope_type sc) (path sc)) = Some sem \<longrightarrow> \<not> sem_locked sem"
    using assms n
    by (auto simp only: bulkhead_call_def get_semaphore_def Let_def prod.case prod.inject
        split: if_splits option.splits)
  then show ?thesis
  proof cases
    case (mem msg)
    with reject_start [of sc 503 local_unavailable_error msg] reject_Respond show ?thesis by simp blast
  next
    case (full msg sem)
    with reject_start [of sc 429 local_overload_error msg] reject_Respond show ?thesis by simp blast
  qed auto
qed

theorem bulkhead_rejects_iff_witness:
  "\<exists>ms. fst (bulkhead_call (configure 0 1) 0 2000000 0 \<lparr>scope_type = ''http'', path = ''/v1/responses'',
     ws_event = None\<rparr> (bhs sample_compact)) = Respond ms"
proof -
  let ?m = "configure 0 1" and ?sc = "\<lparr>scope_type = ''http'', path = ''/v1/responses'', ws_event = None\<rparr>"
  have 1: "is_memory_pressure ?m 2000000" by (simp add: is_memory_pressure_def configure_def)
  from bulkhead_rejects_iff [OF prod.collapse [symmetric], of ?m 0 2000000 0 ?sc "bhs sample_compact"]
  show ?thesis using 1 by simp
qed

text \<open>
  C19. A work-admission gate never has more leases out than its limit, however tasks acquire, time
  out and release, and although a lease may be released again and again; a task has to wait only
  while all slots are taken, and then the queue is served first.
\<close>

theorem work_gate_exact:
  assumes "make_gate limit timeout = Some g" and "gate_step\<^sup>*\<^sup>* (initial_gate g) s"
  shows "int (card (held s)) \<le> limit \<and>
    (sem_locked (gate_semaphore (gate s)) \<longleftrightarrow> int (card (held s)) = limit)"
proof -
  have g: "g = \<lparr>gate_semaphore = new_semaphore limit, wait_timeout_seconds = timeout\<rparr>" "0 < limit"
    using assms(1) by (auto simp: make_gate_def split: if_splits)
  from work.gate_exact [OF assms(2)] g show ?thesis
    by (auto simp: gate_wf_def held_def initial_gate_def new_semaphore_def)
qed

theorem work_gate_exact_witness:
  "card (held (lease_release 7 (lease_release 7 (gate_acquire 8 (gate_acquire 7
     (initial_gate \<lparr>gate_semaphore = new_semaphore 1, wait_timeout_seconds = 10\<rparr>)))))) \<le> 1"
proof -
  let ?g = "\<lparr>gate_semaphore = new_semaphore 1, wait_timeout_seconds = 10\<rparr>"
  let ?s1 = "gate_acquire 7 (initial_gate ?g)" let ?s2 = "gate_acquire 8 ?s1"
  have "gate_step (initial_gate ?g) ?s1"
    by (rule acquire) (simp_all add: initial_gate_def new_semaphore_def)
  moreover have "gate_step ?s1 ?s2"
    by (rule acquire) (simp_all add: initial_gate_def new_semaphore_def gate_acquire_def sem_locked_def sem_take_def)
  moreover have "gate_step ?s2 (lease_release 7 ?s2)"
    "gate_step (lease_release 7 ?s2) (lease_release 7 (lease_release 7 ?s2))" by (rule release)+
  ultimately have "gate_step\<^sup>*\<^sup>* (initial_gate ?g) (lease_release 7 (lease_release 7 ?s2))"
    by (meson converse_rtranclp_into_rtranclp r_into_rtranclp)
  from work_gate_exact [OF _ this, of 1 10] show ?thesis by (simp add: make_gate_def)
qed

lemma bp_exact:
  assumes "0 < n" "backpressure_step\<^sup>*\<^sup>* (initial_backpressure n) s"
  shows "int (size (bp_in_flight s)) \<le> n \<and> (sem_locked (bp_semaphore s) \<longleftrightarrow> int (size (bp_in_flight s)) = n)"
  using bp.gate_exact [OF assms(2)] assms(1) by (auto simp: initial_backpressure_def new_semaphore_def)

end
