(* ===== verification/Pricing.thy ===== *)
theory Pricing
  imports Prelude "HOL-Library.AList"
begin

text \<open>
  Prices and costs: \<open>app/core/usage/pricing.py\<close> and \<open>app/core/usage/logs.py\<close>. The lemmas show that
  every alias leads to a priced model and the most specific one wins, that the built-in prices make
  every cost of a valid usage non-negative and never charge more for cached than for fresh input,
  and that the summary splits the total cost among the models without loss.

  The glob patterns of the alias tables use \<open>*\<close> and \<open>?\<close> only; bracket sets of \<open>fnmatch\<close> are not
  modelled. Rounding to decimals is on exact rationals.
\<close>

section \<open>Prices and usage\<close>

record model_price =
  input_per_1m :: pyfloat
  output_per_1m :: pyfloat
  cached_input_per_1m :: "pyfloat option"
  priority_multiplier :: "pyfloat option"
  priority_input_per_1m :: "pyfloat option"
  priority_output_per_1m :: "pyfloat option"
  priority_cached_input_per_1m :: "pyfloat option"
  flex_input_per_1m :: "pyfloat option"
  flex_output_per_1m :: "pyfloat option"
  flex_cached_input_per_1m :: "pyfloat option"
  long_context_threshold_tokens :: "pyfloat option"
  long_context_input_per_1m :: "pyfloat option"
  long_context_output_per_1m :: "pyfloat option"
  long_context_cached_input_per_1m :: "pyfloat option"

definition ModelPrice :: "pyfloat \<Rightarrow> pyfloat \<Rightarrow> model_price" where
  "ModelPrice i out = \<lparr>input_per_1m = i, output_per_1m = out, cached_input_per_1m = None,
     priority_multiplier = None, priority_input_per_1m = None, priority_output_per_1m = None,
     priority_cached_input_per_1m = None, flex_input_per_1m = None, flex_output_per_1m = None,
     flex_cached_input_per_1m = None, long_context_threshold_tokens = None,
     long_context_input_per_1m = None, long_context_output_per_1m = None,
     long_context_cached_input_per_1m = None\<rparr>"

record usage_tokens =
  input_tokens :: pyfloat
  output_tokens :: pyfloat
  cached_input_tokens :: pyfloat

record cost_item =
  ci_model :: string
  ci_usage :: usage_tokens
  ci_service_tier :: "string option"

record response_usage_details =
  cached_tokens :: "int option"
  reasoning_tokens :: "int option"

record response_usage =
  ru_input_tokens :: "int option"
  ru_output_tokens :: "int option"
  ru_input_tokens_details :: "response_usage_details option"
  ru_output_tokens_details :: "response_usage_details option"

text \<open>The argument of the cost function: tokens already normalised, or what the response reported.\<close>

datatype usage_arg = Tokens usage_tokens | Reported "response_usage option"

definition as_number :: "int option \<Rightarrow> pyfloat option" where
  "as_number value = map_option of_int value"

definition normalize_usage :: "usage_arg \<Rightarrow> usage_tokens option" where
  "normalize_usage arg = (case arg of
     Tokens u \<Rightarrow> Some u
   | Reported None \<Rightarrow> None
   | Reported (Some u) \<Rightarrow>
       (let inp = as_number (ru_input_tokens u);
            out = as_number (ru_output_tokens u);
            out = (if out = None then
                (case ru_output_tokens_details u of Some d \<Rightarrow> as_number (reasoning_tokens d) | None \<Rightarrow> None)
              else out)
        in case (inp, out) of
             (Some i, Some ot) \<Rightarrow>
               (let cached = (case ru_input_tokens_details u of
                      Some d \<Rightarrow> or_zero (as_number (cached_tokens d)) | None \<Rightarrow> 0)
                in Some \<lparr>input_tokens = i, output_tokens = ot, cached_input_tokens = max 0 (min cached i)\<rparr>)
           | _ \<Rightarrow> None))"

section \<open>Price tables\<close>

definition DEFAULT_PRICING_MODELS :: "(string \<times> model_price) list" where
  "DEFAULT_PRICING_MODELS = [
  (''gpt-5.5'', (ModelPrice 5 30)
    \<lparr>cached_input_per_1m := Some (1 / 2), priority_input_per_1m := Some (25 / 2),
     priority_output_per_1m := Some 75, priority_cached_input_per_1m := Some (5 / 4),
     flex_input_per_1m := Some (5 / 2), flex_output_per_1m := Some 15,
     flex_cached_input_per_1m := Some (1 / 4)\<rparr>),
  (''gpt-5.5-pro'', (ModelPrice 30 180)
    \<lparr>flex_input_per_1m := Some 15, flex_output_per_1m := Some 90\<rparr>),
  (''gpt-5.4'', (ModelPrice (5 / 2) 15)
    \<lparr>cached_input_per_1m := Some (1 / 4), priority_input_per_1m := Some 5,
     priority_output_per_1m := Some 30, priority_cached_input_per_1m := Some (1 / 2),
     flex_input_per_1m := Some (5 / 4), flex_output_per_1m := Some (15 / 2),
     flex_cached_input_per_1m := Some (1 / 8), long_context_threshold_tokens := Some 272000,
     long_context_input_per_1m := Some 5, long_context_output_per_1m := Some (45 / 2),
     long_context_cached_input_per_1m := Some (1 / 2)\<rparr>),
  (''gpt-5.4-mini'', (ModelPrice (3 / 4) (9 / 2))
    \<lparr>cached_input_per_1m := Some (3 / 40), flex_input_per_1m := Some (3 / 8),
     flex_output_per_1m := Some (9 / 4), flex_cached_input_per_1m := Some (3 / 80)\<rparr>),
  (''gpt-5.4-nano'', (ModelPrice (1 / 5) (5 / 4))
    \<lparr>cached_input_per_1m := Some (1 / 50), flex_input_per_1m := Some (1 / 10),
     flex_output_per_1m := Some (5 / 8), flex_cached_input_per_1m := Some (1 / 100)\<rparr>),
  (''gpt-5.4-pro'', (ModelPrice 30 180)
    \<lparr>flex_input_per_1m := Some 15, flex_output_per_1m := Some 90,
     long_context_threshold_tokens := Some 272000, long_context_input_per_1m := Some 60,
     long_context_output_per_1m := Some 270\<rparr>),
  (''gpt-5.3-codex'', (ModelPrice (7 / 4) 14)
    \<lparr>cached_input_per_1m := Some (7 / 40), priority_input_per_1m := Some (7 / 2),
     priority_output_per_1m := Some 28, priority_cached_input_per_1m := Some (7 / 20)\<rparr>),
  (''gpt-5.3'', (ModelPrice (7 / 4) 14)
    \<lparr>cached_input_per_1m := Some (7 / 40)\<rparr>),
  (''gpt-5.3-chat-latest'', (ModelPrice (7 / 4) 14)
    \<lparr>cached_input_per_1m := Some (7 / 40)\<rparr>),
  (''gpt-5.2'', (ModelPrice (7 / 4) 14)
    \<lparr>cached_input_per_1m := Some (7 / 40), priority_multiplier := Some 2,
     flex_input_per_1m := Some (7 / 8), flex_output_per_1m := Some 7,
     flex_cached_input_per_1m := Some (7 / 80)\<rparr>),
  (''gpt-5.2-chat-latest'', (ModelPrice (7 / 4) 14)
    \<lparr>cached_input_per_1m := Some (7 / 40)\<rparr>),
  (''gpt-5.1'', (ModelPrice (5 / 4) 10)
    \<lparr>cached_input_per_1m := Some (1 / 8), priority_multiplier := Some 2,
     flex_input_per_1m := Some (5 / 8), flex_output_per_1m := Some 5,
     flex_cached_input_per_1m := Some (1 / 16)\<rparr>),
  (''gpt-5.1-chat-latest'', (ModelPrice (5 / 4) 10)
    \<lparr>cached_input_per_1m := Some (1 / 8)\<rparr>),
  (''gpt-5'', (ModelPrice (5 / 4) 10)
    \<lparr>cached_input_per_1m := Some (1 / 8), priority_multiplier := Some 2,
     flex_input_per_1m := Some (5 / 8), flex_output_per_1m := Some 5,
     flex_cached_input_per_1m := Some (1 / 16)\<rparr>),
  (''gpt-5-chat-latest'', (ModelPrice (5 / 4) 10)
    \<lparr>cached_input_per_1m := Some (1 / 8)\<rparr>),
  (''gpt-5.2-codex'', (ModelPrice (7 / 4) 14)
    \<lparr>cached_input_per_1m := Some (7 / 40), priority_input_per_1m := Some (7 / 2),
     priority_output_per_1m := Some 28, priority_cached_input_per_1m := Some (7 / 20)\<rparr>),
  (''gpt-5.1-codex-max'', (ModelPrice (5 / 4) 10)
    \<lparr>cached_input_per_1m := Some (1 / 8), priority_input_per_1m := Some (5 / 2),
     priority_output_per_1m := Some 20, priority_cached_input_per_1m := Some (1 / 4)\<rparr>),
  (''gpt-5.1-codex-mini'', (ModelPrice (1 / 4) 2)
    \<lparr>cached_input_per_1m := Some (1 / 40)\<rparr>),
  (''gpt-5.1-codex'', (ModelPrice (5 / 4) 10)
    \<lparr>cached_input_per_1m := Some (1 / 8), priority_input_per_1m := Some (5 / 2),
     priority_output_per_1m := Some 20, priority_cached_input_per_1m := Some (1 / 4)\<rparr>),
  (''gpt-5-codex'', (ModelPrice (5 / 4) 10)
    \<lparr>cached_input_per_1m := Some (1 / 8), priority_input_per_1m := Some (5 / 2),
     priority_output_per_1m := Some 20, priority_cached_input_per_1m := Some (1 / 4)\<rparr>)]"

definition DEFAULT_MODEL_ALIASES :: "(string \<times> string) list" where
  "DEFAULT_MODEL_ALIASES = [
  (''gpt-5.5-pro*'', ''gpt-5.5-pro''),
  (''gpt-5.5*'', ''gpt-5.5''),
  (''gpt-5.4-pro*'', ''gpt-5.4-pro''),
  (''gpt-5.4-mini*'', ''gpt-5.4-mini''),
  (''gpt-5.4-nano*'', ''gpt-5.4-nano''),
  (''gpt-5.4*'', ''gpt-5.4''),
  (''gpt-5.3-codex*'', ''gpt-5.3-codex''),
  (''gpt-5.3-chat-latest*'', ''gpt-5.3-chat-latest''),
  (''gpt-5.2-codex*'', ''gpt-5.2-codex''),
  (''gpt-5.2-chat-latest*'', ''gpt-5.2-chat-latest''),
  (''gpt-5.3*'', ''gpt-5.3''),
  (''gpt-5.1-chat-latest*'', ''gpt-5.1-chat-latest''),
  (''gpt-5.2*'', ''gpt-5.2''),
  (''gpt-5-chat-latest*'', ''gpt-5-chat-latest''),
  (''gpt-5.1*'', ''gpt-5.1''),
  (''gpt-5*'', ''gpt-5''),
  (''gpt-5.1-codex-max*'', ''gpt-5.1-codex-max''),
  (''gpt-5.1-codex-mini*'', ''gpt-5.1-codex-mini''),
  (''gpt-5.1-codex*'', ''gpt-5.1-codex''),
  (''gpt-5-codex*'', ''gpt-5-codex'')]"

section \<open>Resolving a model\<close>

fun fnmatchcase :: "string \<Rightarrow> string \<Rightarrow> bool" where
  "fnmatchcase s [] = (s = [])"
| "fnmatchcase [] (p # ps) = (p = CHR ''*'' \<and> fnmatchcase [] ps)"
| "fnmatchcase (c # s) (p # ps) =
     (if p = CHR ''*'' then fnmatchcase (c # s) ps \<or> fnmatchcase s (p # ps)
      else (p = CHR ''?'' \<or> p = c) \<and> fnmatchcase s ps)"

definition resolve_model_alias :: "string \<Rightarrow> (string \<times> string) list \<Rightarrow> string option" where
  "resolve_model_alias model aliases =
     (if model = [] then None
      else let normalized = py_lower model;
               matched = map (\<lambda>(pattern, target). (length pattern, target))
                 (filter (\<lambda>(pattern, target). fnmatchcase normalized (py_lower pattern)) aliases)
           in case py_max fst matched of Inr m \<Rightarrow> Some (snd m) | Inl e \<Rightarrow> None)"

definition dict_or :: "('k \<times> 'v) list option \<Rightarrow> ('k \<times> 'v) list \<Rightarrow> ('k \<times> 'v) list" where
  "dict_or d dflt = (case d of None \<Rightarrow> dflt | Some xs \<Rightarrow> if xs = [] then dflt else xs)"

definition get_pricing_for_model :: "string \<Rightarrow> (string \<times> model_price) list option
    \<Rightarrow> (string \<times> string) list option \<Rightarrow> (string \<times> model_price) option" where
  "get_pricing_for_model model pricing aliases =
     (if model = [] then None
      else let pricing = dict_or pricing DEFAULT_PRICING_MODELS;
               aliases = dict_or aliases DEFAULT_MODEL_ALIASES;
               normalized = py_lower model
           in case find (\<lambda>(key, v). py_lower key = normalized) pricing of
                Some kv \<Rightarrow> Some kv
              | None \<Rightarrow> (case resolve_model_alias normalized aliases of
                  None \<Rightarrow> None
                | Some alias \<Rightarrow> if alias = [] then None
                    else find (\<lambda>(key, v). py_lower key = py_lower alias) pricing))"

section \<open>Costs\<close>

definition normalize_service_tier :: "string option \<Rightarrow> string option" where
  "normalize_service_tier tier = (case tier of None \<Rightarrow> None
     | Some t \<Rightarrow> (let stripped = py_lower (strip t) in if stripped = [] then None else Some stripped))"

definition uses_priority_tier :: "string option \<Rightarrow> bool" where
  "uses_priority_tier tier = (case normalize_service_tier tier of None \<Rightarrow> False
     | Some n \<Rightarrow> n \<in> {''priority'', ''fast''})"

definition uses_flex_tier :: "string option \<Rightarrow> bool" where
  "uses_flex_tier tier = (case normalize_service_tier tier of None \<Rightarrow> False | Some n \<Rightarrow> n = ''flex'')"

definition is_long_context :: "usage_tokens \<Rightarrow> model_price \<Rightarrow> bool" where
  "is_long_context usage price =
     ((case long_context_threshold_tokens price of None \<Rightarrow> False | Some th \<Rightarrow> input_tokens usage > th)
      \<and> long_context_input_per_1m price \<noteq> None \<and> long_context_output_per_1m price \<noteq> None)"

definition or_else :: "'a option \<Rightarrow> 'a \<Rightarrow> 'a" where
  [py_eval]: "or_else x dflt = (case x of Some v \<Rightarrow> v | None \<Rightarrow> dflt)"

text \<open>The three rates: fresh input, cached input, output.\<close>

definition effective_rates ::
    "usage_tokens \<Rightarrow> model_price \<Rightarrow> string option \<Rightarrow> pyfloat \<times> pyfloat \<times> pyfloat" where
  "effective_rates usage price tier =
     (let long = is_long_context usage price;
          input_rate = input_per_1m price;
          cached_rate = or_else (cached_input_per_1m price) input_rate;
          output_rate = output_per_1m price;
          standard = (if long
            then (the (long_context_input_per_1m price),
                  or_else (long_context_cached_input_per_1m price) (the (long_context_input_per_1m price)),
                  the (long_context_output_per_1m price))
            else (input_rate, cached_rate, output_rate));
          flex_or_standard =
            (if uses_flex_tier tier \<and> flex_input_per_1m price \<noteq> None \<and> flex_output_per_1m price \<noteq> None
             then (let i = the (flex_input_per_1m price);
                       c = or_else (flex_cached_input_per_1m price) i;
                       ot = the (flex_output_per_1m price)
                   in if long then (i * 2, c * 2, ot * 3 / 2) else (i, c, ot))
             else standard)
      in if uses_priority_tier tier then
           (case (priority_input_per_1m price, priority_output_per_1m price) of
              (Some i, Some ot) \<Rightarrow> (i, or_else (priority_cached_input_per_1m price) i, ot)
            | _ \<Rightarrow> (case priority_multiplier price of
                Some k \<Rightarrow> (input_rate * k, cached_rate * k, output_rate * k)
              | None \<Rightarrow> flex_or_standard))
         else flex_or_standard)"

definition calculate_cost_from_usage :: "usage_arg \<Rightarrow> model_price \<Rightarrow> string option \<Rightarrow> pyfloat option" where
  "calculate_cost_from_usage usage price tier = (case normalize_usage usage of
     None \<Rightarrow> None
   | Some n \<Rightarrow>
       (let billable_input = input_tokens n - cached_input_tokens n;
            (input_rate, cached_rate, output_rate) = effective_rates n price tier
        in Some (billable_input / 1000000 * input_rate + cached_input_tokens n / 1000000 * cached_rate
                 + output_tokens n / 1000000 * output_rate)))"

definition round_to :: "nat \<Rightarrow> pyfloat \<Rightarrow> pyfloat" where
  [py_eval]: "round_to k x = of_int (round_half_even (x * 10 ^ k)) / 10 ^ k"

record cost_summary =
  currency :: string
  total_usd_7d :: pyfloat
  by_model :: "(string \<times> pyfloat) list"

text \<open>The price of an item: the canonical model and the cost, \<open>None\<close> when the loop skips it.\<close>

definition item_cost :: "(string \<times> model_price) list \<Rightarrow> (string \<times> string) list \<Rightarrow> cost_item
    \<Rightarrow> (string \<times> pyfloat) option" where
  "item_cost pricing aliases item =
     (case get_pricing_for_model (ci_model item) (Some pricing) (Some aliases) of
        None \<Rightarrow> None
      | Some (canonical, price) \<Rightarrow>
          (case calculate_cost_from_usage (Tokens (ci_usage item)) price (ci_service_tier item) of
             None \<Rightarrow> None | Some cost \<Rightarrow> Some (canonical, cost)))"

fun add_costs :: "(string \<times> model_price) list \<Rightarrow> (string \<times> string) list \<Rightarrow> cost_item list
    \<Rightarrow> (string \<times> pyfloat) list \<Rightarrow> pyfloat \<Rightarrow> (string \<times> pyfloat) list \<times> pyfloat" where
  "add_costs pricing aliases [] totals total_usd = (totals, total_usd)"
| "add_costs pricing aliases (item # items) totals total_usd = (case item_cost pricing aliases item of
     None \<Rightarrow> add_costs pricing aliases items totals total_usd
   | Some (canonical, cost) \<Rightarrow> add_costs pricing aliases items
       (AList.update canonical (or_else (map_of totals canonical) 0 + cost) totals) (total_usd + cost))"

definition calculate_costs :: "cost_item list \<Rightarrow> (string \<times> model_price) list option
    \<Rightarrow> (string \<times> string) list option \<Rightarrow> cost_summary" where
  "calculate_costs items pricing aliases =
     (case add_costs (dict_or pricing DEFAULT_PRICING_MODELS) (dict_or aliases DEFAULT_MODEL_ALIASES)
        items [] 0 of (totals, total_usd) \<Rightarrow>
      \<lparr>currency = ''USD'', total_usd_7d = round_to 6 total_usd,
       by_model = map (\<lambda>(model, v). (model, round_to 6 v)) (sort totals)\<rparr>)"

section \<open>Request logs\<close>

record request_log =
  log_model :: "string option"
  log_service_tier :: "string option"
  log_input_tokens :: "int option"
  log_output_tokens :: "int option"
  log_cached_input_tokens :: "int option"
  log_reasoning_tokens :: "int option"
  log_cost_usd :: "pyfloat option"

definition cached_input_tokens_from_log :: "request_log \<Rightarrow> int option" where
  "cached_input_tokens_from_log entry = (case log_cached_input_tokens entry of
     None \<Rightarrow> None
   | Some c \<Rightarrow> (case log_input_tokens entry of
       None \<Rightarrow> Some (max 0 c) | Some i \<Rightarrow> Some (min (max 0 c) i)))"

definition output_tokens_from_log :: "request_log \<Rightarrow> int option" where
  "output_tokens_from_log entry =
     (case log_output_tokens entry of Some ot \<Rightarrow> Some ot | None \<Rightarrow> log_reasoning_tokens entry)"

definition usage_tokens_from_log :: "request_log \<Rightarrow> usage_tokens option" where
  "usage_tokens_from_log entry = (case (log_input_tokens entry, output_tokens_from_log entry) of
     (Some i, Some ot) \<Rightarrow> Some \<lparr>input_tokens = of_int i, output_tokens = of_int ot,
        cached_input_tokens = of_int (or_zero (cached_input_tokens_from_log entry))\<rparr>
   | _ \<Rightarrow> None)"

definition calculated_cost_from_log :: "request_log \<Rightarrow> nat option \<Rightarrow> pyfloat option" where
  "calculated_cost_from_log entry precision =
     (if \<not> truthy_str (log_model entry) then None
      else case usage_tokens_from_log entry of
        None \<Rightarrow> None
      | Some usage \<Rightarrow> (case get_pricing_for_model (the (log_model entry)) None None of
          None \<Rightarrow> None
        | Some (_, price) \<Rightarrow> (case calculate_cost_from_usage (Tokens usage) price (log_service_tier entry) of
            None \<Rightarrow> None
          | Some cost \<Rightarrow> (case precision of None \<Rightarrow> Some cost | Some k \<Rightarrow> Some (round_to k cost)))))"

definition cost_from_log :: "request_log \<Rightarrow> nat option \<Rightarrow> pyfloat option" where
  "cost_from_log entry precision = (case log_cost_usd entry of
     None \<Rightarrow> None
   | Some cost \<Rightarrow> (case precision of None \<Rightarrow> Some cost | Some k \<Rightarrow> Some (round_to k cost)))"

definition total_tokens_from_log :: "request_log \<Rightarrow> int option" where
  "total_tokens_from_log entry =
     (let out = output_tokens_from_log entry
      in if log_input_tokens entry = None \<and> out = None then None
         else Some (or_zero (log_input_tokens entry) + or_zero out))"

section \<open>Notions of the statements\<close>

text \<open>The rates of a price are not negative, and cached input never costs more than fresh input.\<close>

definition opt_nonneg :: "pyfloat option \<Rightarrow> bool" where
  "opt_nonneg x = (case x of None \<Rightarrow> True | Some v \<Rightarrow> 0 \<le> v)"

definition cheaper :: "pyfloat option \<Rightarrow> pyfloat option \<Rightarrow> bool" where
  "cheaper c i = (case c of None \<Rightarrow> True | Some x \<Rightarrow> (case i of None \<Rightarrow> False | Some y \<Rightarrow> 0 \<le> x \<and> x \<le> y))"

definition price_ok :: "model_price \<Rightarrow> bool" where
  "price_ok p \<longleftrightarrow> 0 \<le> input_per_1m p \<and> 0 \<le> output_per_1m p \<and> opt_nonneg (priority_multiplier p) \<and>
     opt_nonneg (priority_input_per_1m p) \<and> opt_nonneg (priority_output_per_1m p) \<and>
     opt_nonneg (flex_input_per_1m p) \<and> opt_nonneg (flex_output_per_1m p) \<and>
     opt_nonneg (long_context_input_per_1m p) \<and> opt_nonneg (long_context_output_per_1m p) \<and>
     cheaper (cached_input_per_1m p) (Some (input_per_1m p)) \<and>
     cheaper (priority_cached_input_per_1m p) (priority_input_per_1m p) \<and>
     cheaper (flex_cached_input_per_1m p) (flex_input_per_1m p) \<and>
     cheaper (long_context_cached_input_per_1m p) (long_context_input_per_1m p)"

definition rates_ok :: "pyfloat \<times> pyfloat \<times> pyfloat \<Rightarrow> bool" where
  "rates_ok r = (case r of (i, c, ot) \<Rightarrow> 0 \<le> c \<and> c \<le> i \<and> 0 \<le> ot)"

definition usage_ok :: "usage_tokens \<Rightarrow> bool" where
  "usage_ok u \<longleftrightarrow> 0 \<le> cached_input_tokens u \<and> cached_input_tokens u \<le> input_tokens u \<and> 0 \<le> output_tokens u"

text \<open>The items that have a price, as the canonical model and the cost, and their sums.\<close>

definition priced_items :: "(string \<times> model_price) list \<Rightarrow> (string \<times> string) list \<Rightarrow> cost_item list
    \<Rightarrow> (string \<times> pyfloat) list" where
  "priced_items pricing aliases items = List.map_filter (item_cost pricing aliases) items"

definition summary_items :: "(string \<times> model_price) list option \<Rightarrow> (string \<times> string) list option
    \<Rightarrow> cost_item list \<Rightarrow> (string \<times> pyfloat) list" where
  "summary_items pricing aliases = priced_items (dict_or pricing DEFAULT_PRICING_MODELS)
     (dict_or aliases DEFAULT_MODEL_ALIASES)"

definition cost_of_model :: "(string \<times> pyfloat) list \<Rightarrow> string \<Rightarrow> pyfloat" where
  "cost_of_model priced m = sum_list (map snd (filter (\<lambda>p. fst p = m) priced))"

section \<open>The built-in tables\<close>

lemma default_prices_ok: "list_all (\<lambda>e. price_ok (snd e)) DEFAULT_PRICING_MODELS"
  by code_simp

lemma default_alias_targets:
  "list_all (\<lambda>a. case find (\<lambda>(key, v). py_lower key = py_lower (snd a)) DEFAULT_PRICING_MODELS of
      None \<Rightarrow> False | Some e \<Rightarrow> fst e = snd a \<and> snd a \<noteq> []) DEFAULT_MODEL_ALIASES"
  by code_simp

section \<open>Rates and costs\<close>

lemma opt_nonneg_Some [simp]: "opt_nonneg (Some v) \<longleftrightarrow> 0 \<le> v"
  by (simp add: opt_nonneg_def)

lemma or_else_cheaper:
  "cheaper c (Some i) \<Longrightarrow> 0 \<le> i \<Longrightarrow> 0 \<le> or_else c i \<and> or_else c i \<le> i"
  by (cases c) (simp_all add: or_else_def cheaper_def)

lemma price_ok_rates:
  assumes "price_ok p"
  shows "0 \<le> input_per_1m p" "0 \<le> output_per_1m p"
    "0 \<le> or_else (cached_input_per_1m p) (input_per_1m p)"
    "or_else (cached_input_per_1m p) (input_per_1m p) \<le> input_per_1m p"
    "priority_multiplier p = Some k \<Longrightarrow> 0 \<le> k"
    "priority_output_per_1m p = Some ot \<Longrightarrow> 0 \<le> ot"
    "flex_output_per_1m p = Some ot \<Longrightarrow> 0 \<le> ot"
    "long_context_output_per_1m p = Some ot \<Longrightarrow> 0 \<le> ot"
    "priority_input_per_1m p = Some i \<Longrightarrow>
       0 \<le> or_else (priority_cached_input_per_1m p) i \<and> or_else (priority_cached_input_per_1m p) i \<le> i"
    "flex_input_per_1m p = Some i \<Longrightarrow>
       0 \<le> or_else (flex_cached_input_per_1m p) i \<and> or_else (flex_cached_input_per_1m p) i \<le> i"
    "long_context_input_per_1m p = Some i \<Longrightarrow>
       0 \<le> or_else (long_context_cached_input_per_1m p) i \<and> or_else (long_context_cached_input_per_1m p) i \<le> i"
  using assms by (simp_all add: price_ok_def or_else_cheaper)

lemma effective_rates_ok:
  assumes "price_ok p"
  shows "rates_ok (effective_rates u p tier)"
proof -
  note r = price_ok_rates [OF assms]
  define std where "std = (if is_long_context u p
      then (the (long_context_input_per_1m p),
            or_else (long_context_cached_input_per_1m p) (the (long_context_input_per_1m p)),
            the (long_context_output_per_1m p))
      else (input_per_1m p, or_else (cached_input_per_1m p) (input_per_1m p), output_per_1m p))"
  have std: "rates_ok std"
    using r by (auto simp: std_def rates_ok_def is_long_context_def)
  define flex where "flex = (if uses_flex_tier tier \<and> flex_input_per_1m p \<noteq> None \<and> flex_output_per_1m p \<noteq> None
      then (let i = the (flex_input_per_1m p); c = or_else (flex_cached_input_per_1m p) i; ot = the (flex_output_per_1m p)
            in if is_long_context u p then (i * 2, c * 2, ot * 3 / 2) else (i, c, ot))
      else std)"
  have flex: "rates_ok flex"
    using r std by (auto simp: flex_def rates_ok_def Let_def)
  have "effective_rates u p tier = (if uses_priority_tier tier then
         (case (priority_input_per_1m p, priority_output_per_1m p) of
            (Some i, Some ot) \<Rightarrow> (i, or_else (priority_cached_input_per_1m p) i, ot)
          | _ \<Rightarrow> (case priority_multiplier p of
              Some k \<Rightarrow> (input_per_1m p * k, or_else (cached_input_per_1m p) (input_per_1m p) * k, output_per_1m p * k)
            | None \<Rightarrow> flex)) else flex)"
    unfolding effective_rates_def Let_def std_def flex_def by (rule refl)
  then show ?thesis
    using flex r by (auto simp: rates_ok_def mult_right_mono split: option.splits)
qed

lemma normalize_usage_ok:
  assumes "normalize_usage (Reported (Some r)) = Some n" "ru_input_tokens r = Some i" "0 \<le> i"
  shows "0 \<le> cached_input_tokens n \<and> cached_input_tokens n \<le> input_tokens n"
  using assms by (auto simp: normalize_usage_def Let_def as_number_def split: option.splits)

lemma is_long_context_cached: "is_long_context (u\<lparr>cached_input_tokens := k\<rparr>) p = is_long_context u p"
  by (cases "long_context_threshold_tokens p") (simp_all add: is_long_context_def)

lemma cost_formula:
  assumes "rates_ok (effective_rates u p tier)" "usage_ok u"
  obtains c where "calculate_cost_from_usage (Tokens u) p tier = Some c" "0 \<le> c"
    "\<exists>d. calculate_cost_from_usage (Tokens (u\<lparr>cached_input_tokens := 0\<rparr>)) p tier = Some d \<and> c \<le> d"
proof -
  obtain i ch ot where r: "effective_rates u p tier = (i, ch, ot)" by (cases "effective_rates u p tier")
  have r': "effective_rates (u\<lparr>cached_input_tokens := 0\<rparr>) p tier = (i, ch, ot)"
    using r unfolding effective_rates_def is_long_context_cached .
  let ?b = "(input_tokens u - cached_input_tokens u) / 1000000" and ?k = "cached_input_tokens u / 1000000"
    and ?o = "output_tokens u / 1000000"
  let ?c = "?b * i + ?k * ch + ?o * ot"
  have pos: "0 \<le> ch" "ch \<le> i" "0 \<le> ot" "0 \<le> ?b" "0 \<le> ?k" "0 \<le> ?o"
    using assms r by (auto simp: rates_ok_def usage_ok_def)
  have "0 \<le> ?b * i" using pos by (intro mult_nonneg_nonneg) auto
  moreover have "0 \<le> ?k * ch" "0 \<le> ?o * ot" using pos by (intro mult_nonneg_nonneg; simp)+
  ultimately have "0 \<le> ?c" by linarith
  have "?k * ch \<le> ?k * i" using pos by (intro mult_left_mono) auto
  then have "?c \<le> input_tokens u / 1000000 * i + ?o * ot" by (simp add: algebra_simps diff_divide_distrib)
  with \<open>0 \<le> ?c\<close> show thesis
    by (intro that [of ?c]) (simp_all add: calculate_cost_from_usage_def normalize_usage_def r r' Let_def)
qed

text \<open>
  C24. With the built-in prices a valid usage has a cost in every service tier; the cost is not
  negative, and taking input from the cache never makes a request more expensive.
\<close>

theorem cost_nonneg_and_cache_saves:
  assumes "(model, p) \<in> set DEFAULT_PRICING_MODELS" and "usage_ok u"
  shows "\<exists>c d. calculate_cost_from_usage (Tokens u) p tier = Some c \<and> 0 \<le> c \<and>
    calculate_cost_from_usage (Tokens (u\<lparr>cached_input_tokens := 0\<rparr>)) p tier = Some d \<and> c \<le> d"
proof -
  have "price_ok p" using default_prices_ok assms(1) by (force simp: list_all_iff)
  from cost_formula [OF effective_rates_ok [OF this] assms(2), of tier] show ?thesis by blast
qed

theorem cost_nonneg_and_cache_saves_witness:
  "\<exists>c d. calculate_cost_from_usage (Tokens \<lparr>input_tokens = 1000, output_tokens = 10, cached_input_tokens = 400\<rparr>)
      (snd (hd DEFAULT_PRICING_MODELS)) (Some ''flex'') = Some c \<and> 0 \<le> c \<and>
    calculate_cost_from_usage (Tokens \<lparr>input_tokens = 1000, output_tokens = 10, cached_input_tokens = 0\<rparr>)
      (snd (hd DEFAULT_PRICING_MODELS)) (Some ''flex'') = Some d \<and> c \<le> d"
proof -
  have "(fst (hd DEFAULT_PRICING_MODELS), snd (hd DEFAULT_PRICING_MODELS)) \<in> set DEFAULT_PRICING_MODELS"
    unfolding prod.collapse by (rule hd_in_set) (simp only: DEFAULT_PRICING_MODELS_def list.distinct not_False_eq_True)
  from cost_nonneg_and_cache_saves [OF this, of "\<lparr>input_tokens = 1000, output_tokens = 10,
      cached_input_tokens = 400\<rparr>" "Some ''flex''"]
  show ?thesis by (simp add: usage_ok_def)
qed

section \<open>Resolving models\<close>

lemma longest_match:
  assumes "py_max fst (map (\<lambda>(pat, t). (length pat, t)) (filter (\<lambda>(pat, t). P pat) aliases)) = Inr m"
  obtains pat where "(pat, snd m) \<in> set aliases" "P pat"
    "\<And>pat' t'. (pat', t') \<in> set aliases \<Longrightarrow> P pat' \<Longrightarrow> length pat' \<le> length pat"
proof -
  let ?m = "map (\<lambda>(pat, t). (length pat, t)) (filter (\<lambda>(pat, t). P pat) aliases)"
  from py_max_in [OF assms] obtain pat where p: "(pat, snd m) \<in> set aliases" "P pat" "fst m = length pat"
    by auto
  have "length pat' \<le> length pat" if "(pat', t') \<in> set aliases" "P pat'" for pat' t'
  proof -
    have "(length pat', t') \<in> set ?m" using that by (auto intro!: image_eqI [of _ _ "(pat', t')"])
    from py_max_ge [OF assms this] p(3) show ?thesis by simp
  qed
  with p that show thesis by blast
qed

lemma resolve_model_alias_cases:
  assumes "model \<noteq> []"
  obtains (No_match) "resolve_model_alias model aliases = None"
      "\<And>pat t. (pat, t) \<in> set aliases \<Longrightarrow> \<not> fnmatchcase (py_lower model) (py_lower pat)"
  | (Longest) pat t where "resolve_model_alias model aliases = Some t" "(pat, t) \<in> set aliases"
      "fnmatchcase (py_lower model) (py_lower pat)"
      "\<And>pat' t'. (pat', t') \<in> set aliases \<Longrightarrow> fnmatchcase (py_lower model) (py_lower pat') \<Longrightarrow>
         length pat' \<le> length pat"
proof -
  define P where "P pat = fnmatchcase (py_lower model) (py_lower pat)" for pat
  have r: "resolve_model_alias model aliases = (case py_max fst (map (\<lambda>(pat, t). (length pat, t))
      (filter (\<lambda>(pat, t). P pat) aliases)) of Inr m \<Rightarrow> Some (snd m) | Inl e \<Rightarrow> None)"
    unfolding resolve_model_alias_def Let_def P_def using assms by simp
  show thesis
  proof (cases "py_max fst (map (\<lambda>(pat, t). (length pat, t)) (filter (\<lambda>(pat, t). P pat) aliases))")
    case (Inl e)
    then have "filter (\<lambda>(pat, t). P pat) aliases = []" by (simp add: py_max_def split: list.splits)
    then have "\<not> P pat" if "(pat, t) \<in> set aliases" for pat t using that by (auto simp: filter_empty_conv)
    with No_match r Inl show thesis by (simp add: P_def)
  next
    case (Inr m)
    from longest_match [OF this] obtain pat where "(pat, snd m) \<in> set aliases" "P pat"
      "\<And>pat' t'. (pat', t') \<in> set aliases \<Longrightarrow> P pat' \<Longrightarrow> length pat' \<le> length pat" by blast
    with Longest [of "snd m" pat] r Inr show thesis by (simp add: P_def)
  qed
qed

lemma alias_target_priced:
  assumes "(pat, t) \<in> set DEFAULT_MODEL_ALIASES"
  obtains p where "find (\<lambda>(key, v). py_lower key = py_lower t) DEFAULT_PRICING_MODELS = Some (t, p)" "t \<noteq> []"
proof -
  from default_alias_targets assms
  have "case find (\<lambda>(key, v). py_lower key = py_lower t) DEFAULT_PRICING_MODELS of
      None \<Rightarrow> False | Some e \<Rightarrow> fst e = t \<and> t \<noteq> []" by (fastforce simp only: list_all_iff snd_conv)
  with that show thesis by (auto split: option.splits)
qed

text \<open>
  Every model name that a built-in alias matches is priced: unless it is itself a priced model,
  it resolves to the target of the most specific matching alias, and that canonical name
  resolves to itself.
\<close>

theorem alias_resolution:
  assumes "(pat, t) \<in> set DEFAULT_MODEL_ALIASES" and "fnmatchcase (py_lower model) (py_lower pat)"
    and "model \<noteq> []" and "find (\<lambda>(key, v). py_lower key = py_lower model) DEFAULT_PRICING_MODELS = None"
  shows "\<exists>pat' k p. get_pricing_for_model model None None = Some (k, p) \<and>
    (pat', k) \<in> set DEFAULT_MODEL_ALIASES \<and> fnmatchcase (py_lower model) (py_lower pat') \<and>
    length pat \<le> length pat' \<and> get_pricing_for_model k None None = Some (k, p)"
proof -
  from assms(3) have "py_lower model \<noteq> []" by simp
  then show ?thesis
  proof (cases rule: resolve_model_alias_cases [where aliases = DEFAULT_MODEL_ALIASES])
    case No_match
    from No_match(2) [OF assms(1)] assms(2) show ?thesis by simp
  next
    case (Longest pat' k)
    obtain p where p: "find (\<lambda>(key, v). py_lower key = py_lower k) DEFAULT_PRICING_MODELS = Some (k, p)" "k \<noteq> []"
      using Longest(2) by (rule alias_target_priced)
    have "get_pricing_for_model model None None = Some (k, p)"
      using assms(3,4) Longest(1) p by (simp add: get_pricing_for_model_def dict_or_def)
    moreover have "get_pricing_for_model k None None = Some (k, p)"
      using p by (simp add: get_pricing_for_model_def dict_or_def)
    moreover have "length pat \<le> length pat'" by (rule Longest(4) [OF assms(1)]) (simp add: assms(2))
    ultimately show ?thesis using Longest(2,3) by auto
  qed
qed

theorem alias_resolution_witness:
  "\<exists>k p. get_pricing_for_model ''GPT-5.4-mini-2026'' None None = Some (k, p) \<and> get_pricing_for_model k None None = Some (k, p)"
proof -
  have 1: "(''gpt-5.4-mini*'', ''gpt-5.4-mini'') \<in> set DEFAULT_MODEL_ALIASES" by code_simp
  have 2: "fnmatchcase (py_lower ''GPT-5.4-mini-2026'') (py_lower ''gpt-5.4-mini*'')" by code_simp
  have 3: "find (\<lambda>(key, v). py_lower key = py_lower ''GPT-5.4-mini-2026'') DEFAULT_PRICING_MODELS = None"
    by code_simp
  show ?thesis using alias_resolution [OF 1 2 _ 3] by blast
qed

section \<open>Summing costs\<close>

lemma cost_of_model_Cons:
  "cost_of_model ((m', c) # ps) m = (if m' = m then c + cost_of_model ps m else cost_of_model ps m)"
  by (simp add: cost_of_model_def)

lemma add_costs_spec:
  "distinct (map fst totals) \<Longrightarrow> add_costs P A items totals t = (totals', t') \<Longrightarrow>
     distinct (map fst totals') \<and> t' = t + sum_list (map snd (priced_items P A items)) \<and>
     fst ` set totals' = fst ` set totals \<union> fst ` set (priced_items P A items) \<and>
     (\<forall>m. or_else (map_of totals' m) 0 = or_else (map_of totals m) 0 + cost_of_model (priced_items P A items) m)"
proof (induction items arbitrary: totals t)
  case Nil
  then show ?case by (simp add: priced_items_def cost_of_model_def List.map_filter_simps)
next
  case (Cons item items)
  show ?case
  proof (cases "item_cost P A item")
    case None
    with Cons show ?thesis by (simp add: priced_items_def List.map_filter_simps)
  next
    case (Some mc)
    obtain m c where mc: "mc = (m, c)" by fastforce
    let ?tot = "AList.update m (or_else (map_of totals m) 0 + c) totals"
    have pr: "priced_items P A (item # items) = (m, c) # priced_items P A items"
      using Some by (simp add: priced_items_def List.map_filter_simps mc)
    have "add_costs P A items ?tot (t + c) = (totals', t')" using Cons(3) Some by (simp add: mc)
    moreover have "distinct (map fst ?tot)" using Cons(2) by (rule distinct_update)
    moreover have "fst ` set ?tot = insert m (fst ` set totals)" by (simp add: dom_map_of_conv_image_fst [symmetric] update_conv')
    moreover have "or_else (map_of ?tot m') 0 = or_else (map_of totals m') 0 + (if m' = m then c else 0)" for m'
      by (simp add: update_conv' or_else_def)
    ultimately show ?thesis using Cons(1) [of ?tot "t + c"] unfolding pr
      by (auto simp: cost_of_model_Cons)
  qed
qed

lemma sorted_graph: "sorted_wrt (<) ks \<Longrightarrow> sorted (map (\<lambda>k. (k, f k)) ks)"
  for ks :: "'k :: linorder list" and f :: "'k \<Rightarrow> 'v :: linorder"
  by (induction ks) auto

lemma sort_distinct_keys:
  fixes xs :: "('k :: linorder \<times> 'v :: linorder) list"
  assumes "distinct (map fst xs)"
  shows "sort xs = map (\<lambda>k. (k, the (map_of xs k))) (sorted_list_of_set (fst ` set xs))"
proof -
  let ?ks = "sorted_list_of_set (fst ` set xs)"
  let ?ys = "map (\<lambda>k. (k, the (map_of xs k))) ?ks"
  have "set ?ys = set xs" using assms by (force simp: image_iff)
  moreover have "distinct ?ys" by (simp add: distinct_map inj_on_def)
  moreover have "sorted ?ys" by (rule sorted_graph) simp
  moreover have "distinct xs" using assms by (simp add: distinct_map)
  ultimately show ?thesis by (intro sorted_distinct_set_unique) simp_all
qed

lemma sum_cost_of_model:
  "finite S \<Longrightarrow> fst ` set ps \<subseteq> S \<Longrightarrow> (\<Sum>m \<in> S. cost_of_model ps m) = sum_list (map snd ps)"
proof (induction ps)
  case Nil
  then show ?case by (simp add: cost_of_model_def)
next
  case (Cons p ps)
  obtain m c where p: "p = (m, c)" by fastforce
  have "(\<Sum>k \<in> S. cost_of_model (p # ps) k) = (\<Sum>k \<in> S. (if k = m then c else 0) + cost_of_model ps k)"
    by (rule sum.cong) (simp_all add: p cost_of_model_Cons)
  also have "\<dots> = c + sum_list (map snd ps)"
    using Cons p by (simp add: sum.distrib)
  finally show ?case by (simp add: p)
qed

text \<open>
  The cost summary is lossless: it lists every model that occurs among the priced items exactly
  once and in order, with the sum of the costs of its items, and before the final rounding these
  sums add up to the reported total; items without a price contribute nothing.
\<close>

theorem calculate_costs_split:
  "total_usd_7d (calculate_costs items pricing aliases) =
     round_to 6 (\<Sum>m \<in> fst ` set (summary_items pricing aliases items).
       cost_of_model (summary_items pricing aliases items) m) \<and>
   by_model (calculate_costs items pricing aliases) =
     map (\<lambda>m. (m, round_to 6 (cost_of_model (summary_items pricing aliases items) m)))
       (sorted_list_of_set (fst ` set (summary_items pricing aliases items)))"
proof -
  let ?P = "dict_or pricing DEFAULT_PRICING_MODELS" and ?A = "dict_or aliases DEFAULT_MODEL_ALIASES"
  let ?ps = "priced_items ?P ?A items"
  obtain T t where a: "add_costs ?P ?A items [] 0 = (T, t)" by fastforce
  from add_costs_spec [OF _ a] have s: "distinct (map fst T)" "t = sum_list (map snd ?ps)"
      "fst ` set T = fst ` set ?ps" "\<And>m. or_else (map_of T m) 0 = cost_of_model ?ps m"
    by (simp_all add: or_else_def)
  have "the (map_of T m) = cost_of_model ?ps m" if "m \<in> fst ` set ?ps" for m
  proof -
    have "map_of T m \<noteq> None" using that s(3) by (simp add: map_of_eq_None_iff)
    with s(4) [of m] show ?thesis by (auto simp: or_else_def)
  qed
  then have "sort T = map (\<lambda>m. (m, cost_of_model ?ps m)) (sorted_list_of_set (fst ` set ?ps))"
    unfolding sort_distinct_keys [OF s(1)] s(3) by simp
  then show ?thesis
    by (simp add: summary_items_def calculate_costs_def a s(2) sum_cost_of_model)
qed

end
