(* ===== verification/Api_Limits.thy ===== *)
theory Api_Limits
  imports Pricing Json "HOL-Library.Multiset"
begin

text \<open>
  The usage limits of API keys: the limit and reservation part of \<open>app/modules/api_keys/service.py\<close>
  over the tables of \<open>app/modules/api_keys/repository.py\<close>. A request reserves a budget on every limit
  of its key, and is later settled with what it used, or released. Tables are lists of rows, an
  \<open>UPDATE\<close> with its \<open>WHERE\<close> clause is a map over them, and a rollback returns the state at the last
  commit. What a handler reads before its transaction is an argument of the transaction, so the
  step relation \<open>ledger_step\<close> can run other handlers in between.

  The lemmas show that a counter always equals the charges of its window however requests overlap,
  that no reservation exceeds a limit, that a reservation is settled at most once, and the
  arithmetic of the windows.
\<close>

section \<open>Rows\<close>

datatype limit_type = TOTAL_TOKENS | INPUT_TOKENS | OUTPUT_TOKENS | COST_USD | CREDITS

datatype limit_window = DAILY | WEEKLY | MONTHLY | FIVE_HOURS | SEVEN_DAYS

definition limit_type_value :: "limit_type \<Rightarrow> string" where
  "limit_type_value t = (case t of TOTAL_TOKENS \<Rightarrow> ''total_tokens'' | INPUT_TOKENS \<Rightarrow> ''input_tokens''
     | OUTPUT_TOKENS \<Rightarrow> ''output_tokens'' | COST_USD \<Rightarrow> ''cost_usd'' | CREDITS \<Rightarrow> ''credits'')"

definition limit_window_value :: "limit_window \<Rightarrow> string" where
  "limit_window_value w = (case w of DAILY \<Rightarrow> ''daily'' | WEEKLY \<Rightarrow> ''weekly'' | MONTHLY \<Rightarrow> ''monthly''
     | FIVE_HOURS \<Rightarrow> ''5h'' | SEVEN_DAYS \<Rightarrow> ''7d'')"

record api_key_limit =
  limit_id :: int
  lim_api_key_id :: string
  limit_type :: limit_type
  limit_window :: limit_window
  max_value :: int
  current_value :: int
  model_filter :: "string option"
  lim_reset_at :: datetime

record reservation_item =
  item_limit_id :: int
  item_limit_type :: limit_type
  reserved_delta :: int
  expected_reset_at :: datetime
  actual_delta :: "int option"

datatype reservation_status = Reserved | Settling | Finalized | Failed | Released

record reservation =
  reservation_id :: string
  res_api_key_id :: string
  res_model :: string
  res_status :: reservation_status
  res_items :: "reservation_item list"
  res_input_tokens :: "int option"
  res_output_tokens :: "int option"
  res_cached_input_tokens :: "int option"
  res_cost_microdollars :: "int option"

record api_key =
  key_id :: string
  key_name :: string
  key_hash :: string
  key_prefix :: string
  allowed_models :: "json_text option"
  enforced_model :: "string option"
  enforced_reasoning_effort :: "string option"
  enforced_service_tier :: "string option"
  enforced_model_tiers :: "json option"
  account_assignment_scope_enabled :: bool
  assigned_account_ids :: "string list"
  key_expires_at :: "datetime option"
  is_active :: bool
  created_at :: datetime
  last_used_at :: "datetime option"

record api_db =
  api_keys :: "api_key list"
  api_key_limits :: "api_key_limit list"
  reservations :: "reservation list"

datatype api_key_error =
    ApiKeyNotFoundError string
  | ApiKeyInvalidError string
  | ApiKeyRateLimitExceededError string datetime
  | ApiKeyValueError string
  | IntegrityError

section \<open>The repository\<close>

definition get_by_id :: "string \<Rightarrow> api_db \<Rightarrow> api_key option" where
  "get_by_id kid db = find (\<lambda>k. key_id k = kid) (api_keys db)"

definition get_by_hash :: "string \<Rightarrow> api_db \<Rightarrow> api_key option" where
  "get_by_hash h db = find (\<lambda>k. key_hash k = h) (api_keys db)"

definition get_limits_by_key :: "string \<Rightarrow> api_db \<Rightarrow> api_key_limit list" where
  "get_limits_by_key kid db = filter (\<lambda>l. lim_api_key_id l = kid) (api_key_limits db)"

definition update_limits :: "(api_key_limit \<Rightarrow> bool) \<Rightarrow> (api_key_limit \<Rightarrow> api_key_limit) \<Rightarrow> api_db \<Rightarrow> api_db" where
  "update_limits P f db = db\<lparr>api_key_limits := map (\<lambda>l. if P l then f l else l) (api_key_limits db)\<rparr>"

definition update_last_used :: "datetime \<Rightarrow> string \<Rightarrow> api_db \<Rightarrow> api_db" where
  "update_last_used now kid db =
     db\<lparr>api_keys := map (\<lambda>k. if key_id k = kid then k\<lparr>last_used_at := Some now\<rparr> else k) (api_keys db)\<rparr>"

definition compute_increment_for_limit_type :: "limit_type \<Rightarrow> int \<Rightarrow> int \<Rightarrow> int \<Rightarrow> int" where
  "compute_increment_for_limit_type t inp out cost = (case t of
     TOTAL_TOKENS \<Rightarrow> inp + out | INPUT_TOKENS \<Rightarrow> inp | OUTPUT_TOKENS \<Rightarrow> out | COST_USD \<Rightarrow> cost
   | CREDITS \<Rightarrow> 0)"

definition compute_increment :: "api_key_limit \<Rightarrow> int \<Rightarrow> int \<Rightarrow> int \<Rightarrow> int" where
  "compute_increment l inp out cost = compute_increment_for_limit_type (limit_type l) inp out cost"

definition increment_limit_usage :: "datetime \<Rightarrow> string \<Rightarrow> string \<Rightarrow> int \<Rightarrow> int \<Rightarrow> int \<Rightarrow> api_db \<Rightarrow> api_db" where
  "increment_limit_usage now kid model inp out cost db =
     update_last_used now kid
       (update_limits (\<lambda>l. lim_api_key_id l = kid \<and> (model_filter l = None \<or> model_filter l = Some model)
            \<and> compute_increment l inp out cost > 0)
          (\<lambda>l. l\<lparr>current_value := current_value l + compute_increment l inp out cost\<rparr>) db)"

definition reset_limit :: "int \<Rightarrow> datetime \<Rightarrow> datetime \<Rightarrow> api_db \<Rightarrow> bool \<times> api_db" where
  "reset_limit lid expected new_reset db =
     (let P = (\<lambda>l. limit_id l = lid \<and> lim_reset_at l = expected)
      in (list_ex P (api_key_limits db),
          update_limits P (\<lambda>l. l\<lparr>current_value := 0, lim_reset_at := new_reset\<rparr>) db))"

definition try_reserve_usage :: "int \<Rightarrow> int \<Rightarrow> datetime \<Rightarrow> api_db \<Rightarrow> bool \<times> api_db" where
  "try_reserve_usage lid delta expected db =
     (if delta \<le> 0 then (True, db)
      else let P = (\<lambda>l. limit_id l = lid \<and> lim_reset_at l = expected \<and> current_value l + delta \<le> max_value l)
           in (list_ex P (api_key_limits db),
               update_limits P (\<lambda>l. l\<lparr>current_value := current_value l + delta\<rparr>) db))"

definition adjust_reserved_usage :: "int \<Rightarrow> int \<Rightarrow> datetime \<Rightarrow> api_db \<Rightarrow> bool \<times> api_db" where
  "adjust_reserved_usage lid delta expected db =
     (let P = (\<lambda>l. limit_id l = lid \<and> lim_reset_at l = expected \<and> (delta \<ge> 0 \<or> current_value l \<ge> - delta))
      in (list_ex P (api_key_limits db),
          update_limits P (\<lambda>l. l\<lparr>current_value := current_value l + delta\<rparr>) db))"

text \<open>The primary key makes the insertion of a used id fail.\<close>

definition create_usage_reservation :: "string \<Rightarrow> string \<Rightarrow> string \<Rightarrow> reservation_item list \<Rightarrow> api_db
    \<Rightarrow> api_db option" where
  "create_usage_reservation rid kid model items db =
     (if list_ex (\<lambda>r. reservation_id r = rid) (reservations db) then None
      else Some (db\<lparr>reservations := reservations db @ [\<lparr>reservation_id = rid, res_api_key_id = kid,
        res_model = model, res_status = Reserved, res_items = items, res_input_tokens = None,
        res_output_tokens = None, res_cached_input_tokens = None, res_cost_microdollars = None\<rparr>]\<rparr>))"

definition get_usage_reservation :: "string \<Rightarrow> api_db \<Rightarrow> reservation option" where
  "get_usage_reservation rid db = find (\<lambda>r. reservation_id r = rid) (reservations db)"

definition update_reservations :: "(reservation \<Rightarrow> bool) \<Rightarrow> (reservation \<Rightarrow> reservation) \<Rightarrow> api_db \<Rightarrow> api_db" where
  "update_reservations P f db = db\<lparr>reservations := map (\<lambda>r. if P r then f r else r) (reservations db)\<rparr>"

definition transition_usage_reservation_status ::
    "string \<Rightarrow> reservation_status \<Rightarrow> reservation_status \<Rightarrow> api_db \<Rightarrow> bool \<times> api_db" where
  "transition_usage_reservation_status rid expected new_status db =
     (let P = (\<lambda>r. reservation_id r = rid \<and> res_status r = expected)
      in (list_ex P (reservations db), update_reservations P (\<lambda>r. r\<lparr>res_status := new_status\<rparr>) db))"

definition set_item_actual :: "reservation_item \<Rightarrow> int \<Rightarrow> reservation_item list \<Rightarrow> reservation_item list" where
  "set_item_actual item actual items =
     (if list_ex (\<lambda>i. item_limit_id i = item_limit_id item) items
      then map (\<lambda>i. if item_limit_id i = item_limit_id item then i\<lparr>actual_delta := Some actual\<rparr> else i) items
      else items @ [item\<lparr>actual_delta := Some actual\<rparr>])"

definition upsert_reservation_item_actual :: "string \<Rightarrow> reservation_item \<Rightarrow> int \<Rightarrow> api_db \<Rightarrow> api_db" where
  "upsert_reservation_item_actual rid item actual =
     update_reservations (\<lambda>r. reservation_id r = rid)
       (\<lambda>r. r\<lparr>res_items := set_item_actual item actual (res_items r)\<rparr>)"

definition settle_usage_reservation_row :: "string \<Rightarrow> reservation_status \<Rightarrow> int option \<Rightarrow> int option
    \<Rightarrow> int option \<Rightarrow> int option \<Rightarrow> api_db \<Rightarrow> api_db" where
  "settle_usage_reservation_row rid st inp out cached cost =
     update_reservations (\<lambda>r. reservation_id r = rid)
       (\<lambda>r. r\<lparr>res_status := st, res_input_tokens := inp, res_output_tokens := out,
               res_cached_input_tokens := cached, res_cost_microdollars := cost\<rparr>)"

section \<open>Windows and budgets\<close>

definition window_delta :: "limit_window \<Rightarrow> datetime" where
  "window_delta w = (case w of FIVE_HOURS \<Rightarrow> timedelta_hours 5 | SEVEN_DAYS \<Rightarrow> timedelta_days 7
     | DAILY \<Rightarrow> timedelta_days 1 | WEEKLY \<Rightarrow> timedelta_days 7 | MONTHLY \<Rightarrow> timedelta_days 30)"

definition next_reset :: "datetime \<Rightarrow> limit_window \<Rightarrow> datetime" where
  "next_reset now w = (case w of FIVE_HOURS \<Rightarrow> now + timedelta_hours 5 | SEVEN_DAYS \<Rightarrow> now + timedelta_days 7
     | DAILY \<Rightarrow> now + timedelta_days 1 | WEEKLY \<Rightarrow> now + timedelta_days 7
     | MONTHLY \<Rightarrow> now + timedelta_days 30)"

lemma window_delta_pos: "1 \<le> window_delta w"
  by (cases w) (simp_all add: window_delta_def timedelta_days_def timedelta_hours_def timedelta_seconds_def)

function advance_reset :: "datetime \<Rightarrow> datetime \<Rightarrow> limit_window \<Rightarrow> datetime" where
  "advance_reset next_r now w = (if next_r \<le> now then advance_reset (next_r + window_delta w) now w else next_r)"
  by pat_completeness auto
termination
  by (relation "measure (\<lambda>(r, now, w). nat (now - r + 1))") (simp_all add: window_delta_pos)

declare advance_reset.simps [simp del]

definition calculate_cost_microdollars :: "string \<Rightarrow> int \<Rightarrow> int \<Rightarrow> int \<Rightarrow> string option \<Rightarrow> int" where
  "calculate_cost_microdollars model inp out cached tier =
     (case get_pricing_for_model model None None of
        None \<Rightarrow> 0
      | Some (_, price) \<Rightarrow>
          (case calculate_cost_from_usage (Tokens \<lparr>input_tokens = of_int inp, output_tokens = of_int out,
             cached_input_tokens = of_int cached\<rparr>) price tier of
             None \<Rightarrow> 0 | Some cost_usd \<Rightarrow> py_int (cost_usd * 1000000)))"

definition reserve_cost_budget_microdollars :: "string option \<Rightarrow> string option \<Rightarrow> int" where
  "reserve_cost_budget_microdollars model tier =
     (if \<not> truthy_str model then 2000000
      else let cost = calculate_cost_microdollars (the model) 8192 8192 0 tier
           in if cost > 0 then cost else 2000000)"

definition reserve_budget_for_limit_type :: "limit_type \<Rightarrow> string option \<Rightarrow> string option \<Rightarrow> int" where
  "reserve_budget_for_limit_type t model tier = (case t of
     TOTAL_TOKENS \<Rightarrow> 8192 | INPUT_TOKENS \<Rightarrow> 8192 | OUTPUT_TOKENS \<Rightarrow> 8192
   | COST_USD \<Rightarrow> reserve_cost_budget_microdollars model tier | CREDITS \<Rightarrow> 0)"

definition reserve_delta_for_limit :: "api_key_limit \<Rightarrow> string option \<Rightarrow> string option \<Rightarrow> int" where
  "reserve_delta_for_limit l model tier =
     (let remaining = max_value l - current_value l
      in if remaining \<le> 0 then 0
         else min remaining (reserve_budget_for_limit_type (limit_type l) model tier))"

definition limit_applies_for_request :: "api_key_limit \<Rightarrow> string option \<Rightarrow> bool" where
  "limit_applies_for_request l model = (case model_filter l of
     None \<Rightarrow> True | Some f \<Rightarrow> (case model of None \<Rightarrow> False | Some m \<Rightarrow> f = m))"

definition rate_limit_exceeded_error :: "api_key_limit \<Rightarrow> api_key_error" where
  "rate_limit_exceeded_error l = ApiKeyRateLimitExceededError
     (''API key '' @ limit_type_value (limit_type l) @ '' '' @ limit_window_value (limit_window l) @ '' limit exceeded''
      @ (if truthy_str (model_filter l) then '' for model '' @ the (model_filter l) else []))
     (lim_reset_at l)"

section \<open>Reserving\<close>

definition ensure_valid_api_key_row :: "api_key option \<Rightarrow> api_key_error + api_key" where
  "ensure_valid_api_key_row row = (case row of
     None \<Rightarrow> Inl (ApiKeyInvalidError ''Invalid API key'')
   | Some r \<Rightarrow> if is_active r then Inr r else Inl (ApiKeyInvalidError ''Invalid API key''))"

definition key_expired :: "datetime \<Rightarrow> api_key \<Rightarrow> bool" where
  "key_expired now row = (case key_expires_at row of None \<Rightarrow> False | Some e \<Rightarrow> e < now)"

fun lazy_reset_expired_limits :: "api_key_limit list \<Rightarrow> datetime \<Rightarrow> api_db \<Rightarrow> bool \<times> api_db" where
  "lazy_reset_expired_limits [] now db = (False, db)"
| "lazy_reset_expired_limits (l # ls) now db =
     (if lim_reset_at l \<ge> now then lazy_reset_expired_limits ls now db
      else case reset_limit (limit_id l) (lim_reset_at l) (advance_reset (lim_reset_at l) now (limit_window l)) db of
        (done, db) \<Rightarrow> (True, snd (lazy_reset_expired_limits ls now db)))"

text \<open>The part of \<open>enforce_limits_for_request\<close> before its transaction: what it reads and resets.\<close>

definition enforce_read :: "datetime \<Rightarrow> string \<Rightarrow> api_db \<Rightarrow> (api_key_error + api_key_limit list) \<times> api_db" where
  "enforce_read now kid db = (case ensure_valid_api_key_row (get_by_id kid db) of
     Inl e \<Rightarrow> (Inl e, db)
   | Inr row \<Rightarrow>
       if key_expired now row then (Inl (ApiKeyInvalidError ''API key has expired''), db)
       else (case lazy_reset_expired_limits (get_limits_by_key kid db) now db of (limits_reset, db') \<Rightarrow>
         (case (if limits_reset then ensure_valid_api_key_row (get_by_id kid db') else Inr row) of
            Inl e \<Rightarrow> (Inl e, db')
          | Inr refreshed \<Rightarrow>
              if key_expired now refreshed then (Inl (ApiKeyInvalidError ''API key has expired''), db')
              else (Inr (get_limits_by_key kid db'), db'))))"

fun reserve_limits :: "string option \<Rightarrow> string option \<Rightarrow> api_key_limit list \<Rightarrow> reservation_item list \<Rightarrow> api_db
    \<Rightarrow> (api_key_error + reservation_item list) \<times> api_db" where
  "reserve_limits model tier [] items db = (Inr items, db)"
| "reserve_limits model tier (l # ls) items db =
     (if \<not> limit_applies_for_request l model then reserve_limits model tier ls items db
      else if current_value l \<ge> max_value l then (Inl (rate_limit_exceeded_error l), db)
      else let delta = reserve_delta_for_limit l model tier
           in if delta \<le> 0 then reserve_limits model tier ls items db
              else case try_reserve_usage (limit_id l) delta (lim_reset_at l) db of
                (False, db) \<Rightarrow> (Inl (rate_limit_exceeded_error l), db)
              | (True, db) \<Rightarrow> reserve_limits model tier ls
                  (items @ [\<lparr>item_limit_id = limit_id l, item_limit_type = limit_type l, reserved_delta = delta,
                             expected_reset_at = lim_reset_at l, actual_delta = None\<rparr>]) db)"

record usage_reservation_data =
  urd_reservation_id :: string
  urd_key_id :: string
  urd_model :: string

text \<open>Its transaction, with the limits read before and the id \<open>uuid4\<close> gives.\<close>

definition enforce_commit :: "string \<Rightarrow> string \<Rightarrow> string option \<Rightarrow> string option \<Rightarrow> api_key_limit list \<Rightarrow> api_db
    \<Rightarrow> (api_key_error + usage_reservation_data) \<times> api_db" where
  "enforce_commit rid kid model tier limits db =
     (let model_or = (case model of None \<Rightarrow> [] | Some m \<Rightarrow> m)
      in case reserve_limits model tier limits [] db of
           (Inl e, db') \<Rightarrow> (Inl e, db)
         | (Inr items, db') \<Rightarrow> (case create_usage_reservation rid kid model_or items db' of
             None \<Rightarrow> (Inl IntegrityError, db)
           | Some db'' \<Rightarrow> (Inr \<lparr>urd_reservation_id = rid, urd_key_id = kid, urd_model = model_or\<rparr>, db'')))"

definition enforce_limits_for_request :: "datetime \<Rightarrow> string \<Rightarrow> string \<Rightarrow> string option \<Rightarrow> string option \<Rightarrow> api_db
    \<Rightarrow> (api_key_error + usage_reservation_data) \<times> api_db" where
  "enforce_limits_for_request now rid kid model tier db = (case enforce_read now kid db of
     (Inl e, db) \<Rightarrow> (Inl e, db)
   | (Inr limits, db) \<Rightarrow> enforce_commit rid kid model tier limits db)"

section \<open>Settling\<close>

text \<open>What the settling handlers read: the reservation, if it is still reserved.\<close>

definition settle_read :: "string \<Rightarrow> api_db \<Rightarrow> reservation option" where
  "settle_read rid db = (case get_usage_reservation rid db of
     None \<Rightarrow> None | Some r \<Rightarrow> if res_status r \<noteq> Reserved then None else Some r)"

fun settle_items :: "string \<Rightarrow> (reservation_item \<Rightarrow> int) \<Rightarrow> reservation_item list \<Rightarrow> api_db \<Rightarrow> api_db" where
  "settle_items rid actual [] db = db"
| "settle_items rid actual (item # items) db =
     (let delta = actual item - reserved_delta item;
          db = (if delta \<noteq> 0
                then snd (adjust_reserved_usage (item_limit_id item) delta (expected_reset_at item) db) else db)
      in settle_items rid actual items (upsert_reservation_item_actual rid item (actual item) db))"

definition settle_commit :: "datetime \<Rightarrow> reservation \<Rightarrow> string \<Rightarrow> int option \<Rightarrow> int option \<Rightarrow> int option
    \<Rightarrow> string option \<Rightarrow> reservation_status \<Rightarrow> api_db \<Rightarrow> api_db" where
  "settle_commit now r model inp out cached tier st db =
     (let rid = reservation_id r;
          (claimed, db') = transition_usage_reservation_status rid Reserved Settling db
      in if \<not> claimed then db
         else let i = or_zero inp; ot = or_zero out; c = or_zero cached;
                  cost = calculate_cost_microdollars model i ot c tier;
                  actual = (\<lambda>item. compute_increment_for_limit_type (item_limit_type item) i ot cost);
                  db' = settle_items rid actual (res_items r) db';
                  db' = settle_usage_reservation_row rid st inp out cached (Some cost) db'
              in update_last_used now (res_api_key_id r) db')"

definition settle_usage_reservation :: "datetime \<Rightarrow> string \<Rightarrow> string \<Rightarrow> int option \<Rightarrow> int option \<Rightarrow> int option
    \<Rightarrow> string option \<Rightarrow> reservation_status \<Rightarrow> api_db \<Rightarrow> api_db" where
  "settle_usage_reservation now rid model inp out cached tier st db = (case settle_read rid db of
     None \<Rightarrow> db | Some r \<Rightarrow> settle_commit now r model inp out cached tier st db)"

definition finalize_usage_reservation ::
    "datetime \<Rightarrow> string \<Rightarrow> string \<Rightarrow> int \<Rightarrow> int \<Rightarrow> int \<Rightarrow> string option \<Rightarrow> api_db \<Rightarrow> api_db" where
  "finalize_usage_reservation now rid model inp out cached tier =
     settle_usage_reservation now rid model (Some inp) (Some out) (Some cached) tier Finalized"

definition fail_usage_reservation :: "datetime \<Rightarrow> string \<Rightarrow> string \<Rightarrow> int option \<Rightarrow> int option \<Rightarrow> int option
    \<Rightarrow> string option \<Rightarrow> api_db \<Rightarrow> api_db" where
  "fail_usage_reservation now rid model inp out cached tier =
     settle_usage_reservation now rid model inp out cached tier Failed"

text \<open>
  The loop of the release adjusts every item; a reserved amount is positive, so the test for a zero
  difference in \<open>settle_items\<close> never skips one.
\<close>

fun release_items :: "string \<Rightarrow> reservation_item list \<Rightarrow> api_db \<Rightarrow> api_db" where
  "release_items rid [] db = db"
| "release_items rid (item # items) db =
     release_items rid items (upsert_reservation_item_actual rid item 0
       (snd (adjust_reserved_usage (item_limit_id item) (- reserved_delta item) (expected_reset_at item) db)))"

definition release_commit :: "reservation \<Rightarrow> api_db \<Rightarrow> api_db" where
  "release_commit r db =
     (let rid = reservation_id r;
          (claimed, db') = transition_usage_reservation_status rid Reserved Released db
      in if \<not> claimed then db
         else settle_usage_reservation_row rid Released None None None None
                (release_items rid (res_items r) db'))"

definition release_usage_reservation :: "string \<Rightarrow> api_db \<Rightarrow> api_db" where
  "release_usage_reservation rid db = (case settle_read rid db of
     None \<Rightarrow> db | Some r \<Rightarrow> release_commit r db)"

definition record_usage ::
    "datetime \<Rightarrow> string \<Rightarrow> string \<Rightarrow> int \<Rightarrow> int \<Rightarrow> int \<Rightarrow> string option \<Rightarrow> api_db \<Rightarrow> api_db" where
  "record_usage now kid model inp out cached tier =
     increment_limit_usage now kid model inp out (calculate_cost_microdollars model inp out cached tier)"

section \<open>Overlapping requests\<close>

text \<open>
  The tables together with what handlers in progress have read: the limits a request is about to
  reserve on, and the reservations that are about to be settled.
\<close>

record ledger =
  db :: api_db
  pending :: "(string \<times> string option \<times> string option \<times> api_key_limit list) multiset"
  settling :: "reservation multiset"

definition valid_tokens :: "int option \<Rightarrow> int option \<Rightarrow> int option \<Rightarrow> bool" where
  "valid_tokens inp out cached \<longleftrightarrow>
     0 \<le> or_zero cached \<and> or_zero cached \<le> or_zero inp \<and> 0 \<le> or_zero out"

inductive ledger_step :: "ledger \<Rightarrow> ledger \<Rightarrow> bool" where
  read: "enforce_read now kid (db s) = (Inr ls, d) \<Longrightarrow>
    ledger_step s (s\<lparr>db := d, pending := add_mset (kid, model, tier, ls) (pending s)\<rparr>)"
| read_fails: "enforce_read now kid (db s) = (Inl e, d) \<Longrightarrow> ledger_step s (s\<lparr>db := d\<rparr>)"
| reserve: "(kid, model, tier, ls) \<in># pending s \<Longrightarrow> enforce_commit rid kid model tier ls (db s) = (res, d) \<Longrightarrow>
    ledger_step s (s\<lparr>db := d, pending := pending s - {#(kid, model, tier, ls)#}\<rparr>)"
| fetch: "settle_read rid (db s) = Some r \<Longrightarrow> ledger_step s (s\<lparr>settling := add_mset r (settling s)\<rparr>)"
| settle: "r \<in># settling s \<Longrightarrow> valid_tokens inp out cached \<Longrightarrow> st \<in> {Finalized, Failed} \<Longrightarrow>
    ledger_step s (s\<lparr>db := settle_commit now r model inp out cached tier st (db s),
      settling := settling s - {#r#}\<rparr>)"
| release: "r \<in># settling s \<Longrightarrow>
    ledger_step s (s\<lparr>db := release_commit r (db s), settling := settling s - {#r#}\<rparr>)"

text \<open>What an item charges: its reservation while that stands, what was used once it is settled.\<close>

definition item_charge :: "reservation_status \<Rightarrow> reservation_item \<Rightarrow> int" where
  "item_charge st i = (if st = Reserved then reserved_delta i else or_zero (actual_delta i))"

definition item_matches :: "int \<Rightarrow> datetime \<Rightarrow> reservation_item \<Rightarrow> bool" where
  "item_matches lid e i \<longleftrightarrow> item_limit_id i = lid \<and> expected_reset_at i = e"

definition res_charge :: "int \<Rightarrow> datetime \<Rightarrow> reservation \<Rightarrow> int" where
  "res_charge lid e r = sum_list (map (item_charge (res_status r)) (filter (item_matches lid e) (res_items r)))"

definition charged :: "int \<Rightarrow> datetime \<Rightarrow> api_db \<Rightarrow> int" where
  "charged lid e d = sum_list (map (res_charge lid e) (reservations d))"

definition reservation_ok :: "reservation \<Rightarrow> bool" where
  "reservation_ok r \<longleftrightarrow> distinct (map item_limit_id (res_items r)) \<and> res_status r \<noteq> Settling \<and>
     (\<forall>i \<in> set (res_items r). 0 \<le> item_charge (res_status r) i \<and> (res_status r = Reserved \<longrightarrow> 0 < reserved_delta i))"

definition db_inv :: "api_db \<Rightarrow> bool" where
  "db_inv d \<longleftrightarrow> distinct (map limit_id (api_key_limits d)) \<and> distinct (map reservation_id (reservations d)) \<and>
     (\<forall>r \<in> set (reservations d). reservation_ok r) \<and>
     (\<forall>l \<in> set (api_key_limits d). \<forall>r \<in> set (reservations d). \<forall>i \<in> set (res_items r).
        item_limit_id i = limit_id l \<longrightarrow> expected_reset_at i \<le> lim_reset_at l) \<and>
     (\<forall>l \<in> set (api_key_limits d). current_value l = charged (limit_id l) (lim_reset_at l) d)"

text \<open>A reservation read before still has its row, which is unchanged as long as it is reserved.\<close>

definition known :: "api_db \<Rightarrow> reservation \<Rightarrow> bool" where
  "known d r \<longleftrightarrow> (\<exists>r' \<in> set (reservations d). reservation_id r' = reservation_id r \<and> (res_status r' = Reserved \<longrightarrow> r' = r))"

definition ledger_inv :: "ledger \<Rightarrow> bool" where
  "ledger_inv s \<longleftrightarrow> db_inv (db s) \<and>
     (\<forall>(kid, model, tier, ls) \<in># pending s. distinct (map limit_id ls)) \<and>
     (\<forall>r \<in># settling s. res_status r = Reserved \<and> known (db s) r)"

text \<open>Tables whose limits are unused and that hold no reservation.\<close>

definition fresh_db :: "api_db \<Rightarrow> bool" where
  "fresh_db d \<longleftrightarrow> distinct (map limit_id (api_key_limits d)) \<and> reservations d = [] \<and>
     (\<forall>l \<in> set (api_key_limits d). current_value l = 0)"

definition initial_ledger :: "api_db \<Rightarrow> ledger" where
  "initial_ledger d = \<lparr>db = d, pending = {#}, settling = {#}\<rparr>"

text \<open>A key with one daily limit of tokens, unused.\<close>

definition sample_key :: api_key where
  "sample_key = \<lparr>key_id = ''k'', key_name = ''key'', key_hash = ''h'', key_prefix = ''p'', allowed_models = None,
     enforced_model = None, enforced_reasoning_effort = None, enforced_service_tier = None,
     enforced_model_tiers = None, account_assignment_scope_enabled = False, assigned_account_ids = [],
     key_expires_at = None, is_active = True, created_at = 0, last_used_at = None\<rparr>"

definition sample_limit :: api_key_limit where
  "sample_limit = \<lparr>limit_id = 1, lim_api_key_id = ''k'', limit_type = TOTAL_TOKENS, limit_window = DAILY,
     max_value = 10000, current_value = 0, model_filter = None, lim_reset_at = 100\<rparr>"

definition sample_db :: api_db where
  "sample_db = \<lparr>api_keys = [sample_key], api_key_limits = [sample_limit], reservations = []\<rparr>"

definition item_sum :: "(reservation_item \<Rightarrow> int) \<Rightarrow> reservation_item list \<Rightarrow> api_key_limit \<Rightarrow> int" where
  "item_sum f items l = sum_list (map f (filter (item_matches (limit_id l) (lim_reset_at l)) items))"

text \<open>Adding an amount per limit.\<close>

definition add_usage :: "(api_key_limit \<Rightarrow> int) \<Rightarrow> api_key_limit list \<Rightarrow> api_key_limit list" where
  "add_usage f ls = map (\<lambda>l. l\<lparr>current_value := current_value l + f l\<rparr>) ls"

text \<open>The items of a reservation after the loop.\<close>

fun set_actuals :: "(reservation_item \<Rightarrow> int) \<Rightarrow> reservation_item list \<Rightarrow> reservation_item list \<Rightarrow> reservation_item list" where
  "set_actuals actual [] stored = stored"
| "set_actuals actual (i # is) stored = set_actuals actual is (set_item_actual i (actual i) stored)"

text \<open>A limit as a request at the given time finds it.\<close>

definition renew :: "datetime \<Rightarrow> api_key_limit \<Rightarrow> api_key_limit" where
  "renew now l = (if lim_reset_at l < now
     then l\<lparr>current_value := 0, lim_reset_at := advance_reset (lim_reset_at l) now (limit_window l)\<rparr> else l)"

section \<open>The effect of the table updates\<close>

lemma update_limits_simps [simp]:
  "api_key_limits (update_limits P f d) = map (\<lambda>l. if P l then f l else l) (api_key_limits d)"
  "reservations (update_limits P f d) = reservations d"
  "api_keys (update_limits P f d) = api_keys d"
  by (simp_all add: update_limits_def)

lemma update_reservations_simps [simp]:
  "api_key_limits (update_reservations P f d) = api_key_limits d"
  "reservations (update_reservations P f d) = map (\<lambda>r. if P r then f r else r) (reservations d)"
  "api_keys (update_reservations P f d) = api_keys d"
  by (simp_all add: update_reservations_def)

lemma update_last_used_simps [simp]:
  "api_key_limits (update_last_used now kid d) = api_key_limits d"
  "reservations (update_last_used now kid d) = reservations d"
  by (simp_all add: update_last_used_def)

lemma item_sum_simps [simp]:
  "item_sum f [] l = 0"
  "item_sum f (i # is) l = (if item_matches (limit_id l) (lim_reset_at l) i then f i else 0) + item_sum f is l"
  "item_sum f (is @ js) l = item_sum f is l + item_sum f js l"
  "item_sum f is (l\<lparr>current_value := v\<rparr>) = item_sum f is l"
  by (simp_all add: item_sum_def)

lemma add_usage_add:
  "(\<And>l v. g (l\<lparr>current_value := v\<rparr>) = g l) \<Longrightarrow> add_usage g (add_usage f ls) = add_usage (\<lambda>l. f l + g l) ls"
  by (simp add: add_usage_def add.assoc)

lemma add_usage_cong: "(\<And>l. l \<in> set ls \<Longrightarrow> f l = g l) \<Longrightarrow> add_usage f ls = add_usage g ls"
  by (simp add: add_usage_def)

lemma add_usage_zero [simp]: "add_usage (\<lambda>l. 0) ls = ls"
  by (simp add: add_usage_def)

lemma add_usage_ids [simp]: "map limit_id (add_usage f ls) = map limit_id ls"
  by (simp add: add_usage_def)

lemma distinct_id_eq: "distinct (map f xs) \<Longrightarrow> x \<in> set xs \<Longrightarrow> y \<in> set xs \<Longrightarrow> f x = f y \<Longrightarrow> x = y"
  by (metis distinct_map inj_onD)

lemma try_reserve_usage_ok:
  assumes "distinct (map limit_id (api_key_limits d))" "0 < delta"
    and "try_reserve_usage lid delta e d = (True, d')"
  shows "api_key_limits d' = add_usage (\<lambda>l. if limit_id l = lid \<and> lim_reset_at l = e then delta else 0) (api_key_limits d) \<and>
    reservations d' = reservations d \<and> api_keys d' = api_keys d \<and>
    (\<exists>l \<in> set (api_key_limits d). limit_id l = lid \<and> lim_reset_at l = e \<and> current_value l + delta \<le> max_value l)"
proof -
  let ?P = "\<lambda>l. limit_id l = lid \<and> lim_reset_at l = e \<and> current_value l + delta \<le> max_value l"
  have d': "d' = update_limits ?P (\<lambda>l. l\<lparr>current_value := current_value l + delta\<rparr>) d"
    and "list_ex ?P (api_key_limits d)"
    using assms(2,3) by (auto simp: try_reserve_usage_def Let_def)
  then obtain l0 where l0: "l0 \<in> set (api_key_limits d)" "?P l0" by (auto simp: list_ex_iff)
  have "?P l \<longleftrightarrow> limit_id l = lid \<and> lim_reset_at l = e" if "l \<in> set (api_key_limits d)" for l
    using distinct_id_eq [OF assms(1) that l0(1)] l0(2) by auto
  then show ?thesis using l0 unfolding d' add_usage_def by auto
qed

lemma reserve_limits_ok:
  "distinct (map limit_id (api_key_limits d)) \<Longrightarrow> distinct (map limit_id ls) \<Longrightarrow>
   reserve_limits model tier ls items d = (Inr items', d') \<Longrightarrow>
   \<exists>new. items' = items @ new \<and> api_key_limits d' = add_usage (item_sum reserved_delta new) (api_key_limits d) \<and>
     reservations d' = reservations d \<and> api_keys d' = api_keys d \<and> distinct (map item_limit_id new) \<and>
     (\<forall>i \<in> set new. 0 < reserved_delta i \<and> item_limit_id i \<in> limit_id ` set ls \<and>
        (\<exists>l \<in> set (api_key_limits d). item_matches (limit_id l) (lim_reset_at l) i \<and>
           current_value l + reserved_delta i \<le> max_value l))"
proof (induction ls arbitrary: items d)
  case Nil
  then show ?case by (simp add: item_sum_def)
next
  case (Cons l ls)
  consider (skip) "reserve_limits model tier ls items d = (Inr items', d')"
    | (take) delta d1 where "0 < delta" "try_reserve_usage (limit_id l) delta (lim_reset_at l) d = (True, d1)"
      "reserve_limits model tier ls (items @ [\<lparr>item_limit_id = limit_id l, item_limit_type = limit_type l,
         reserved_delta = delta, expected_reset_at = lim_reset_at l, actual_delta = None\<rparr>]) d1 = (Inr items', d')"
    using Cons(4) by (auto simp: Let_def not_le split: if_splits prod.splits bool.splits)
  then show ?case
  proof cases
    case skip
    from Cons(1) [OF Cons(2) _ skip] Cons(3) show ?thesis by fastforce
  next
    case (take delta d1)
    let ?i = "\<lparr>item_limit_id = limit_id l, item_limit_type = limit_type l, reserved_delta = delta,
       expected_reset_at = lim_reset_at l, actual_delta = None\<rparr>"
    note t = try_reserve_usage_ok [OF Cons(2) take(1,2)]
    have d1: "distinct (map limit_id (api_key_limits d1))" using t Cons(2) by simp
    from Cons(1) [OF d1 _ take(3)] Cons(3) obtain new where n:
      "items' = items @ ?i # new" "api_key_limits d' = add_usage (item_sum reserved_delta new) (api_key_limits d1)"
      "reservations d' = reservations d1" "api_keys d' = api_keys d1" "distinct (map item_limit_id new)"
      "\<forall>i \<in> set new. 0 < reserved_delta i \<and> item_limit_id i \<in> limit_id ` set ls \<and>
        (\<exists>l \<in> set (api_key_limits d1). item_matches (limit_id l) (lim_reset_at l) i \<and>
           current_value l + reserved_delta i \<le> max_value l)" by auto
    have m: "item_matches (limit_id k) (lim_reset_at k) ?i \<longleftrightarrow> limit_id k = limit_id l \<and> lim_reset_at k = lim_reset_at l"
      for k by (auto simp: item_matches_def)
    have lims: "api_key_limits d' = add_usage (item_sum reserved_delta (?i # new)) (api_key_limits d)"
      unfolding n(2) conjunct1 [OF t] by (subst add_usage_add) (simp, rule add_usage_cong, simp add: m)
    have old: "\<exists>k \<in> set (api_key_limits d). item_matches (limit_id k) (lim_reset_at k) i \<and>
        current_value k + reserved_delta i \<le> max_value k" if i: "i \<in> set new" for i
    proof -
      have "item_limit_id i \<in> limit_id ` set ls" using n(6) i by blast
      then have ne: "item_limit_id i \<noteq> limit_id l" using Cons(3) by auto
      from n(6) i obtain k where "k \<in> set (api_key_limits d1)" "item_matches (limit_id k) (lim_reset_at k) i"
        "current_value k + reserved_delta i \<le> max_value k" by blast
      with ne show ?thesis
        unfolding conjunct1 [OF t] by (auto simp: add_usage_def item_matches_def)
    qed
    have "limit_id l \<notin> item_limit_id ` set new" using n(6) Cons(3) by auto
    with n(5) have dist: "distinct (map item_limit_id (?i # new))" by simp
    have new: "\<forall>i \<in> set (?i # new). 0 < reserved_delta i \<and> item_limit_id i \<in> limit_id ` set (l # ls) \<and>
        (\<exists>k \<in> set (api_key_limits d). item_matches (limit_id k) (lim_reset_at k) i \<and>
           current_value k + reserved_delta i \<le> max_value k)"
      using n(6) old t take(1) by (auto simp: m)
    have "reservations d' = reservations d" "api_keys d' = api_keys d" using n(3,4) t by simp_all
    with n(1) lims dist new show ?thesis by blast
  qed
qed

lemma set_item_actual_absent:
  "item_limit_id item \<in> item_limit_id ` set items \<Longrightarrow> set_item_actual item a items =
     map (\<lambda>i. if item_limit_id i = item_limit_id item then i\<lparr>actual_delta := Some a\<rparr> else i) items"
  by (auto simp: set_item_actual_def list_ex_iff)

lemma adjust_reserved_usage_ok:
  assumes "\<forall>l \<in> set (api_key_limits d). limit_id l = lid \<longrightarrow> lim_reset_at l = e \<longrightarrow> - delta \<le> current_value l"
  shows "api_key_limits (snd (adjust_reserved_usage lid delta e d)) =
      add_usage (\<lambda>l. if limit_id l = lid \<and> lim_reset_at l = e then delta else 0) (api_key_limits d)"
    "reservations (snd (adjust_reserved_usage lid delta e d)) = reservations d"
    "api_keys (snd (adjust_reserved_usage lid delta e d)) = api_keys d"
  using assms by (auto simp: adjust_reserved_usage_def Let_def add_usage_def not_le)

lemma adjust_if_nonzero:
  assumes "\<forall>l \<in> set (api_key_limits d). limit_id l = lid \<longrightarrow> lim_reset_at l = e \<longrightarrow> - delta \<le> current_value l"
  defines "d1 \<equiv> (if delta \<noteq> 0 then snd (adjust_reserved_usage lid delta e d) else d)"
  shows "api_key_limits d1 =
      add_usage (\<lambda>l. if limit_id l = lid \<and> lim_reset_at l = e then delta else 0) (api_key_limits d)"
    "reservations d1 = reservations d" "api_keys d1 = api_keys d"
proof -
  note ad = adjust_reserved_usage_ok [of d lid e delta, OF assms(1)]
  show "api_key_limits d1 =
      add_usage (\<lambda>l. if limit_id l = lid \<and> lim_reset_at l = e then delta else 0) (api_key_limits d)"
  proof (cases "delta = 0")
    case True
    then have "add_usage (\<lambda>l. if limit_id l = lid \<and> lim_reset_at l = e then delta else 0) (api_key_limits d) =
        add_usage (\<lambda>l. 0) (api_key_limits d)" by (intro add_usage_cong) auto
    with True show ?thesis by (simp add: d1_def)
  qed (simp add: d1_def ad(1))
  show "reservations d1 = reservations d" "api_keys d1 = api_keys d"
    using ad(2,3) by (simp_all add: d1_def)
qed

lemma upsert_item_simps [simp]:
  "api_key_limits (upsert_reservation_item_actual rid item a d) = api_key_limits d"
  "api_keys (upsert_reservation_item_actual rid item a d) = api_keys d"
  "reservations (upsert_reservation_item_actual rid item a d) = map (\<lambda>r. if reservation_id r = rid
     then r\<lparr>res_items := set_item_actual item a (res_items r)\<rparr> else r) (reservations d)"
  by (simp_all add: upsert_reservation_item_actual_def)

lemma settle_items_limits:
  "distinct (map item_limit_id items) \<Longrightarrow> (\<And>i. i \<in> set items \<Longrightarrow> 0 \<le> actual i) \<Longrightarrow>
   (\<And>i l. i \<in> set items \<Longrightarrow> l \<in> set (api_key_limits d) \<Longrightarrow> item_matches (limit_id l) (lim_reset_at l) i \<Longrightarrow>
      reserved_delta i \<le> current_value l) \<Longrightarrow>
   api_key_limits (settle_items rid actual items d) =
     add_usage (item_sum (\<lambda>i. actual i - reserved_delta i) items) (api_key_limits d) \<and>
   api_keys (settle_items rid actual items d) = api_keys d \<and>
   reservations (settle_items rid actual items d) = map (\<lambda>r. if reservation_id r = rid
     then r\<lparr>res_items := set_actuals actual items (res_items r)\<rparr> else r) (reservations d)"
proof (induction items arbitrary: d)
  case Nil
  then show ?case by (simp add: item_sum_def) (rule map_idI [symmetric], simp)
next
  case (Cons i items)
  let ?delta = "actual i - reserved_delta i"
  define d1 where "d1 = (if ?delta \<noteq> 0
     then snd (adjust_reserved_usage (item_limit_id i) ?delta (expected_reset_at i) d) else d)"
  have cur: "\<forall>l \<in> set (api_key_limits d). limit_id l = item_limit_id i \<longrightarrow> lim_reset_at l = expected_reset_at i \<longrightarrow>
      - ?delta \<le> current_value l"
    using Cons(3) [of i] Cons(4) [of i] by (fastforce simp add: item_matches_def)
  have d1: "api_key_limits d1 = add_usage (\<lambda>l. if limit_id l = item_limit_id i \<and> lim_reset_at l = expected_reset_at i
      then ?delta else 0) (api_key_limits d)" "reservations d1 = reservations d" "api_keys d1 = api_keys d"
    unfolding d1_def by (rule adjust_if_nonzero [OF cur])+
  let ?d2 = "upsert_reservation_item_actual rid i (actual i) d1"
  have m: "item_matches (limit_id k) (lim_reset_at k) i \<longleftrightarrow> limit_id k = item_limit_id i \<and> lim_reset_at k = expected_reset_at i"
    for k by (auto simp: item_matches_def)
  have "reserved_delta j \<le> current_value l"
    if j: "j \<in> set items" and l: "l \<in> set (api_key_limits ?d2)" and m: "item_matches (limit_id l) (lim_reset_at l) j" for j l
  proof -
    have "item_limit_id j \<in> set (map item_limit_id items)" using j by simp
    moreover have "item_limit_id i \<notin> set (map item_limit_id items)" using Cons(2) by simp
    ultimately have "item_limit_id j \<noteq> item_limit_id i" by metis
    with l m have "l \<in> set (api_key_limits d)" by (auto simp: d1(1) add_usage_def item_matches_def)
    then show ?thesis using Cons(4) [of j l] j m by simp
  qed
  from Cons(1) [of ?d2, OF _ _ this] Cons(2,3) have IH:
    "api_key_limits (settle_items rid actual items ?d2) =
       add_usage (item_sum (\<lambda>i. actual i - reserved_delta i) items) (api_key_limits d1)"
    "api_keys (settle_items rid actual items ?d2) = api_keys d"
    "reservations (settle_items rid actual items ?d2) = map (\<lambda>r. if reservation_id r = rid
       then r\<lparr>res_items := set_actuals actual items (res_items r)\<rparr> else r) (reservations ?d2)"
    by (simp_all add: d1(3))
  have eq: "settle_items rid actual (i # items) d = settle_items rid actual items ?d2"
    by (simp only: settle_items.simps Let_def d1_def)
  have "api_key_limits (settle_items rid actual items ?d2) =
      add_usage (item_sum (\<lambda>i. actual i - reserved_delta i) (i # items)) (api_key_limits d)"
    unfolding IH(1) d1(1) by (subst add_usage_add) (simp, rule add_usage_cong, simp add: m)
  moreover have "reservations (settle_items rid actual items ?d2) = map (\<lambda>r. if reservation_id r = rid
      then r\<lparr>res_items := set_actuals actual (i # items) (res_items r)\<rparr> else r) (reservations d)"
    unfolding IH(3) by (auto simp: d1(2))
  ultimately show ?case unfolding eq using IH(2) by blast
qed

lemma set_actuals_find:
  "distinct (map item_limit_id items) \<Longrightarrow> item_limit_id ` set items \<subseteq> item_limit_id ` set stored \<Longrightarrow>
   set_actuals actual items stored = map (\<lambda>j. case find (\<lambda>i. item_limit_id i = item_limit_id j) items of
      None \<Rightarrow> j | Some i \<Rightarrow> j\<lparr>actual_delta := Some (actual i)\<rparr>) stored"
proof (induction items arbitrary: stored)
  case Nil
  then show ?case by (simp add: map_idI)
next
  case (Cons i items)
  let ?s = "map (\<lambda>j. if item_limit_id j = item_limit_id i then j\<lparr>actual_delta := Some (actual i)\<rparr> else j) stored"
  have s: "set_item_actual i (actual i) stored = ?s"
    using Cons(3) by (intro set_item_actual_absent) auto
  have ids: "item_limit_id ` set ?s = item_limit_id ` set stored" unfolding set_map image_image by (intro image_cong) auto
  have none: "find (\<lambda>k. item_limit_id k = item_limit_id i) items = None"
    using Cons(2) by (auto simp: find_None_iff image_iff)
  have "set_actuals actual items ?s = map (\<lambda>j. case find (\<lambda>i. item_limit_id i = item_limit_id j) items of
      None \<Rightarrow> j | Some i \<Rightarrow> j\<lparr>actual_delta := Some (actual i)\<rparr>) ?s"
    using Cons(2,3) ids by (intro Cons(1)) auto
  then show ?case using none by (auto simp: s)
qed

lemma find_self:
  "distinct (map f xs) \<Longrightarrow> x \<in> set xs \<Longrightarrow> find (\<lambda>y. f y = f x) xs = Some x"
  by (induction xs) (auto simp: image_iff)

lemma set_actuals_self:
  "distinct (map item_limit_id items) \<Longrightarrow>
   set_actuals actual items items = map (\<lambda>i. i\<lparr>actual_delta := Some (actual i)\<rparr>) items"
  by (simp add: set_actuals_find find_self)

lemma sum_list_update_id:
  fixes g :: "'a \<Rightarrow> int"
  assumes "distinct (map f rs)" "r \<in> set rs"
  shows "sum_list (map g (map (\<lambda>x. if f x = f r then h x else x) rs)) = sum_list (map g rs) - g r + g (h r)"
  using assms
proof (induction rs)
  case (Cons x rs)
  show ?case
  proof (cases "x = r")
    case True
    then have "map (\<lambda>x. if f x = f r then h x else x) rs = rs"
      using Cons(2) by (intro map_idI) (auto simp: image_iff)
    with True show ?thesis by simp
  next
    case False
    then have "r \<in> set rs" "f x \<noteq> f r" using Cons(2,3) by (auto simp: image_iff)
    with Cons show ?thesis by simp
  qed
qed simp

section \<open>Counters equal charges\<close>

lemma res_charge_nonneg: "reservation_ok r \<Longrightarrow> 0 \<le> res_charge lid e r"
  by (auto simp: res_charge_def reservation_ok_def intro!: sum_list_nonneg)

lemma sum_list_member_le:
  fixes g :: "'a \<Rightarrow> int"
  assumes "\<forall>x \<in> set xs. 0 \<le> g x" "y \<in> set xs"
  shows "g y \<le> sum_list (map g xs)"
  using assms
proof (induction xs)
  case (Cons x xs)
  have "0 \<le> sum_list (map g xs)" using Cons(2) by (auto intro!: sum_list_nonneg)
  with Cons show ?case by fastforce
qed simp

lemma item_le_charged:
  assumes "db_inv d" "r \<in> set (reservations d)" "i \<in> set (res_items r)" "item_matches lid e i"
  shows "item_charge (res_status r) i \<le> charged lid e d"
proof -
  have ok: "\<forall>r \<in> set (reservations d). reservation_ok r" using assms(1) by (simp add: db_inv_def)
  have "item_charge (res_status r) i \<le> res_charge lid e r"
    unfolding res_charge_def using ok assms(2-4)
    by (intro sum_list_member_le) (auto simp: reservation_ok_def)
  also have "\<dots> \<le> charged lid e d"
    unfolding charged_def using ok assms(2) by (intro sum_list_member_le) (auto simp: res_charge_nonneg)
  finally show ?thesis .
qed

lemma add_usage_set: "set (add_usage f ls) = (\<lambda>l. l\<lparr>current_value := current_value l + f l\<rparr>) ` set ls"
  by (simp add: add_usage_def)

lemma item_charge_Reserved [simp]: "item_charge Reserved = reserved_delta"
  by (simp add: item_charge_def fun_eq_iff)

lemma item_matches_actual [simp]: "item_matches lid e (i\<lparr>actual_delta := a\<rparr>) = item_matches lid e i"
  by (simp add: item_matches_def)

lemma db_invI:
  assumes "distinct (map limit_id (api_key_limits d))" "distinct (map reservation_id (reservations d))"
    "\<And>r. r \<in> set (reservations d) \<Longrightarrow> reservation_ok r"
    "\<And>l r i. l \<in> set (api_key_limits d) \<Longrightarrow> r \<in> set (reservations d) \<Longrightarrow> i \<in> set (res_items r) \<Longrightarrow>
       item_limit_id i = limit_id l \<Longrightarrow> expected_reset_at i \<le> lim_reset_at l"
    "\<And>l. l \<in> set (api_key_limits d) \<Longrightarrow> current_value l = charged (limit_id l) (lim_reset_at l) d"
  shows "db_inv d"
  using assms by (simp add: db_inv_def)

lemma db_inv_unfold:
  assumes "db_inv d"
  shows "distinct (map limit_id (api_key_limits d))" "distinct (map reservation_id (reservations d))"
    "r \<in> set (reservations d) \<Longrightarrow> reservation_ok r"
    "l \<in> set (api_key_limits d) \<Longrightarrow> r \<in> set (reservations d) \<Longrightarrow> i \<in> set (res_items r) \<Longrightarrow>
       item_limit_id i = limit_id l \<Longrightarrow> expected_reset_at i \<le> lim_reset_at l"
    "l \<in> set (api_key_limits d) \<Longrightarrow> current_value l = charged (limit_id l) (lim_reset_at l) d"
  using assms by (simp_all add: db_inv_def)

text \<open>A new reservation.\<close>

lemma db_inv_new_reservation:
  assumes inv: "db_inv d" and lims: "api_key_limits d' = add_usage (item_sum reserved_delta new) (api_key_limits d)"
    and res: "reservations d' = reservations d @ [r]" and st: "res_status r = Reserved" and items: "res_items r = new"
    and id: "reservation_id r \<notin> reservation_id ` set (reservations d)"
    and dist: "distinct (map item_limit_id new)"
    and new: "\<forall>i \<in> set new. 0 < reserved_delta i \<and>
        (\<exists>l \<in> set (api_key_limits d). item_matches (limit_id l) (lim_reset_at l) i \<and>
           current_value l + reserved_delta i \<le> max_value l)"
  shows "db_inv d'"
proof (rule db_invI)
  note u = db_inv_unfold [OF inv]
  show "distinct (map limit_id (api_key_limits d'))" using u(1) by (simp add: lims)
  show "distinct (map reservation_id (reservations d'))" using u(2) id by (simp add: res)
  have r: "reservation_ok r" using dist new by (auto simp: reservation_ok_def items st)
  show "reservation_ok q" if "q \<in> set (reservations d')" for q using that u(3) r by (auto simp: res)
  show "expected_reset_at i \<le> lim_reset_at l"
    if l: "l \<in> set (api_key_limits d')" and q: "q \<in> set (reservations d')" "i \<in> set (res_items q)" "item_limit_id i = limit_id l"
    for l q i
  proof -
    from l obtain k where k: "k \<in> set (api_key_limits d)" "limit_id k = limit_id l" "lim_reset_at k = lim_reset_at l"
      unfolding lims add_usage_set by auto
    show ?thesis
    proof (cases "q = r")
      case True
      then obtain k' where "k' \<in> set (api_key_limits d)" "item_matches (limit_id k') (lim_reset_at k') i"
        using q(2) new items by blast
      with distinct_id_eq [OF u(1), of k' k] k q(3) show ?thesis by (auto simp: item_matches_def)
    next
      case False
      with q(1) have "q \<in> set (reservations d)" by (simp add: res)
      with u(4) [of k q i] k q show ?thesis by simp
    qed
  qed
  show "current_value l = charged (limit_id l) (lim_reset_at l) d'" if "l \<in> set (api_key_limits d')" for l
  proof -
    from that obtain k where k: "k \<in> set (api_key_limits d)" "l = k\<lparr>current_value := current_value k + item_sum reserved_delta new k\<rparr>"
      unfolding lims add_usage_set by auto
    have "item_sum reserved_delta new k = res_charge (limit_id k) (lim_reset_at k) r"
      by (simp add: item_sum_def res_charge_def items st)
    then show ?thesis using u(5) [OF k(1)] by (simp add: k(2) charged_def res)
  qed
qed

text \<open>A reservation that is settled: every item is charged what was used.\<close>

lemma db_inv_settled:
  assumes inv: "db_inv d" and r: "r \<in> set (reservations d)" "res_status r = Reserved"
    and lims: "api_key_limits d' = add_usage (item_sum (\<lambda>i. actual i - reserved_delta i) (res_items r)) (api_key_limits d)"
    and res: "reservations d' = map (\<lambda>q. if reservation_id q = reservation_id r then h q else q) (reservations d)"
    and h: "reservation_id (h r) = reservation_id r" "res_status (h r) \<notin> {Reserved, Settling}"
      "res_items (h r) = map (\<lambda>i. i\<lparr>actual_delta := Some (actual i)\<rparr>) (res_items r)"
    and actual: "\<forall>i \<in> set (res_items r). 0 \<le> actual i"
  shows "db_inv d'"
proof (rule db_invI)
  note u = db_inv_unfold [OF inv]
  have upd: "(if reservation_id q = reservation_id r then h q else q) = (if q = r then h r else q)"
    if "q \<in> set (reservations d)" for q using distinct_id_eq [OF u(2) that r(1)] by auto
  then have res': "reservations d' = map (\<lambda>q. if q = r then h r else q) (reservations d)"
    unfolding res by (intro map_cong) auto
  show "distinct (map limit_id (api_key_limits d'))" using u(1) by (simp add: lims)
  have "map reservation_id (reservations d') = map reservation_id (reservations d)"
    unfolding res' using h(1) by simp
  then show "distinct (map reservation_id (reservations d'))" using u(2) by simp
  have "item_charge (res_status (h r)) (i\<lparr>actual_delta := Some (actual i)\<rparr>) = actual i" for i
    using h(2) by (simp add: item_charge_def or_zero_def)
  then have hr: "reservation_ok (h r)"
    and ch: "res_charge lid e (h r) = sum_list (map actual (filter (item_matches lid e) (res_items r)))" for lid e
    using h u(3) [OF r(1)] actual
    by (auto simp: reservation_ok_def res_charge_def filter_map comp_def)
  show "reservation_ok q" if "q \<in> set (reservations d')" for q using that u(3) hr by (auto simp: res' split: if_splits)
  show "expected_reset_at i \<le> lim_reset_at l"
    if l: "l \<in> set (api_key_limits d')" and q: "q \<in> set (reservations d')" "i \<in> set (res_items q)" "item_limit_id i = limit_id l"
    for l q i
  proof -
    from l obtain k where k: "k \<in> set (api_key_limits d)" "limit_id k = limit_id l" "lim_reset_at k = lim_reset_at l"
      unfolding lims add_usage_set by auto
    from q(1,2) obtain q0 i0 where "q0 \<in> set (reservations d)" "i0 \<in> set (res_items q0)" "item_limit_id i0 = item_limit_id i"
      "expected_reset_at i0 = expected_reset_at i" unfolding res' using h(3) r(1) by (auto split: if_splits)
    with u(4) [of k q0 i0] k q(3) show ?thesis by simp
  qed
  show "current_value l = charged (limit_id l) (lim_reset_at l) d'" if "l \<in> set (api_key_limits d')" for l
  proof -
    from that obtain k where k: "k \<in> set (api_key_limits d)"
      "l = k\<lparr>current_value := current_value k + item_sum (\<lambda>i. actual i - reserved_delta i) (res_items r) k\<rparr>"
      unfolding lims add_usage_set by auto
    have "res_charge (limit_id k) (lim_reset_at k) r = item_sum reserved_delta (res_items r) k"
      "res_charge (limit_id k) (lim_reset_at k) (h r) = item_sum actual (res_items r) k"
      using ch r(2) by (simp_all add: item_sum_def res_charge_def)
    moreover have "charged (limit_id k) (lim_reset_at k) d' = charged (limit_id k) (lim_reset_at k) d
        - res_charge (limit_id k) (lim_reset_at k) r + res_charge (limit_id k) (lim_reset_at k) (h r)"
      unfolding charged_def res by (rule sum_list_update_id [OF u(2) r(1)])
    ultimately show ?thesis using u(5) [OF k(1)] by (simp add: k(2) item_sum_def sum_list_subtractf)
  qed
qed

section \<open>Resetting\<close>

lemma advance_reset_spec:
  "now < advance_reset r now w \<and> (\<exists>k. advance_reset r now w = r + int k * window_delta w) \<and>
     (r \<le> now \<longrightarrow> advance_reset r now w \<le> now + window_delta w) \<and> (now < r \<longrightarrow> advance_reset r now w = r)"
proof (induction r now w rule: advance_reset.induct)
  case (1 r now w)
  show ?case
  proof (cases "r \<le> now")
    case True
    with 1 obtain k where k: "advance_reset (r + window_delta w) now w = r + window_delta w + int k * window_delta w" by blast
    have eq: "advance_reset r now w = advance_reset (r + window_delta w) now w"
      using True by (subst advance_reset.simps) simp
    have "advance_reset r now w = r + int (Suc k) * window_delta w" unfolding eq k by (simp add: algebra_simps)
    moreover have "advance_reset r now w \<le> now + window_delta w" unfolding eq
    proof (cases "r + window_delta w \<le> now")
      case True': True
      then show "advance_reset (r + window_delta w) now w \<le> now + window_delta w" using 1 True by blast
    next
      case False
      then have "advance_reset (r + window_delta w) now w = r + window_delta w" by (subst advance_reset.simps) simp
      with True show "advance_reset (r + window_delta w) now w \<le> now + window_delta w" by simp
    qed
    moreover have "\<not> now < r" using True by simp
    ultimately show ?thesis using 1 True unfolding eq by blast
  next
    case False
    then have eq: "advance_reset r now w = r" by (subst advance_reset.simps) simp
    have "r = r + int 0 * window_delta w" by simp
    with False eq show ?thesis by (metis not_le)
  qed
qed

lemma db_inv_reset:
  assumes inv: "db_inv d" and "e < e'"
  shows "db_inv (snd (reset_limit lid e e' d))"
proof (rule db_invI)
  let ?d = "snd (reset_limit lid e e' d)"
  let ?f = "\<lambda>l. if limit_id l = lid \<and> lim_reset_at l = e then l\<lparr>current_value := 0, lim_reset_at := e'\<rparr> else l"
  note u = db_inv_unfold [OF inv]
  have lims: "api_key_limits ?d = map ?f (api_key_limits d)" and res: "reservations ?d = reservations d"
    by (simp_all add: reset_limit_def Let_def)
  have "map limit_id (map ?f (api_key_limits d)) = map limit_id (api_key_limits d)" by simp
  then show "distinct (map limit_id (api_key_limits ?d))" unfolding lims using u(1) by metis
  show "distinct (map reservation_id (reservations ?d))" "\<And>r. r \<in> set (reservations ?d) \<Longrightarrow> reservation_ok r"
    using u(2,3) by (simp_all add: res)
  show later: "expected_reset_at i \<le> lim_reset_at l"
    if "l \<in> set (api_key_limits ?d)" "r \<in> set (reservations ?d)" "i \<in> set (res_items r)" "item_limit_id i = limit_id l" for l r i
    using that u(4) [of _ r i] assms(2) unfolding lims res by (fastforce split: if_splits)
  show "current_value l = charged (limit_id l) (lim_reset_at l) ?d" if l: "l \<in> set (api_key_limits ?d)" for l
  proof -
    from l obtain k where k: "k \<in> set (api_key_limits d)" "l = ?f k" unfolding lims by auto
    have ch: "charged i t ?d = charged i t d" for i t by (simp add: charged_def res)
    show ?thesis
    proof (cases "limit_id k = lid \<and> lim_reset_at k = e")
      case True
      have "\<not> item_matches (limit_id k) e' i" if "r \<in> set (reservations d)" "i \<in> set (res_items r)" for r i
        using u(4) [OF k(1) that] True assms(2) by (auto simp: item_matches_def)
      then have "res_charge (limit_id k) e' r = 0" if "r \<in> set (reservations d)" for r
        using that by (simp add: res_charge_def)
      then have "charged (limit_id k) e' d = 0" unfolding charged_def by (simp add: sum_list_0 cong: map_cong)
      with True k ch show ?thesis by simp
    qed (use u(5) [OF k(1)] k(2) ch in auto)
  qed
qed

lemma lazy_reset_inv:
  "db_inv d \<Longrightarrow> db_inv (snd (lazy_reset_expired_limits ls now d)) \<and>
     reservations (snd (lazy_reset_expired_limits ls now d)) = reservations d \<and>
     api_keys (snd (lazy_reset_expired_limits ls now d)) = api_keys d"
proof (induction ls now d rule: lazy_reset_expired_limits.induct)
  case (2 l ls now d)
  let ?e = "advance_reset (lim_reset_at l) now (limit_window l)"
  obtain b d1 where r: "reset_limit (limit_id l) (lim_reset_at l) ?e d = (b, d1)" by fastforce
  show ?case
  proof (cases "now \<le> lim_reset_at l")
    case True
    with 2(1) [OF True 2(3)] show ?thesis by simp
  next
    case False
    then have "lim_reset_at l < ?e" using advance_reset_spec [of now "lim_reset_at l" "limit_window l"] by simp
    from db_inv_reset [OF 2(3) this, of "limit_id l"] have "db_inv d1" by (simp add: r)
    moreover have "reservations d1 = reservations d" "api_keys d1 = api_keys d"
      using r by (auto simp: reset_limit_def Let_def)
    ultimately show ?thesis using 2(2) [OF False r [symmetric]] False by (simp add: r)
  qed
qed simp

section \<open>The handlers keep the ledger\<close>

lemma enforce_read_inv:
  assumes "db_inv d" "enforce_read now kid d = (res, d')"
  shows "db_inv d'" "reservations d' = reservations d"
    "res = Inr ls \<Longrightarrow> distinct (map limit_id ls) \<and> ls = get_limits_by_key kid d'"
proof -
  have l: "d' = d \<or> d' = snd (lazy_reset_expired_limits (get_limits_by_key kid d) now d)"
    and r: "res = Inr ls \<Longrightarrow> ls = get_limits_by_key kid d'"
    using assms(2) by (auto simp: enforce_read_def split: sum.splits if_splits prod.splits)
  from l lazy_reset_inv [OF assms(1)] assms(1) show inv: "db_inv d'" "reservations d' = reservations d" by auto
  show "res = Inr ls \<Longrightarrow> distinct (map limit_id ls) \<and> ls = get_limits_by_key kid d'"
    using r db_inv_unfold(1) [OF inv(1)] by (simp add: get_limits_by_key_def distinct_map_filter)
qed

lemma enforce_commit_cases:
  assumes "enforce_commit rid kid model tier ls d = (res, d')"
  obtains (Rejected) e where "res = Inl e" "d' = d"
  | (Granted) items d1 where "res = Inr \<lparr>urd_reservation_id = rid, urd_key_id = kid,
        urd_model = (case model of None \<Rightarrow> [] | Some m \<Rightarrow> m)\<rparr>"
      "reserve_limits model tier ls [] d = (Inr items, d1)"
      "\<forall>r \<in> set (reservations d1). reservation_id r \<noteq> rid" "api_keys d' = api_keys d1"
      "api_key_limits d' = api_key_limits d1" "reservations d' = reservations d1 @
        [\<lparr>reservation_id = rid, res_api_key_id = kid, res_model = (case model of None \<Rightarrow> [] | Some m \<Rightarrow> m),
          res_status = Reserved, res_items = items, res_input_tokens = None, res_output_tokens = None,
          res_cached_input_tokens = None, res_cost_microdollars = None\<rparr>]"
  using assms
  by (auto simp: enforce_commit_def create_usage_reservation_def Let_def list_ex_iff
      split: prod.splits sum.splits option.splits if_splits)

lemma enforce_commit_inv:
  assumes inv: "db_inv d" and "distinct (map limit_id ls)" and "enforce_commit rid kid model tier ls d = (res, d')"
  shows "db_inv d' \<and> (\<exists>new. reservations d' = reservations d @ new)"
  using assms(3)
proof (cases rule: enforce_commit_cases)
  case Rejected
  with inv show ?thesis by simp
next
  case (Granted items d1)
  from reserve_limits_ok [OF db_inv_unfold(1) [OF inv] assms(2) Granted(2)]
  have i: "api_key_limits d1 = add_usage (item_sum reserved_delta items) (api_key_limits d)"
      "reservations d1 = reservations d" "distinct (map item_limit_id items)"
      "\<forall>i \<in> set items. 0 < reserved_delta i \<and>
        (\<exists>l \<in> set (api_key_limits d). item_matches (limit_id l) (lim_reset_at l) i \<and>
           current_value l + reserved_delta i \<le> max_value l)" by auto
  from db_inv_new_reservation [OF inv _ Granted(6) [unfolded i(2)] _ _ _ i(3,4)] Granted(3,5) i(1,2) Granted(6)
  show ?thesis by auto
qed

lemma find_in_set: "find P xs = Some x \<Longrightarrow> x \<in> set xs"
  by (induction xs) (auto split: if_splits)

lemma find_model_price: "get_pricing_for_model m None None = Some (k, p) \<Longrightarrow> (k, p) \<in> set DEFAULT_PRICING_MODELS"
  by (auto simp: get_pricing_for_model_def dict_or_def Let_def dest: find_in_set split: if_splits option.splits)

lemma calculate_cost_microdollars_nonneg:
  assumes "0 \<le> c" "c \<le> i" "0 \<le> ot"
  shows "0 \<le> calculate_cost_microdollars model i ot c tier"
proof (cases "get_pricing_for_model model None None")
  case (Some kp)
  obtain k p where kp: "kp = (k, p)" by fastforce
  have "(k, p) \<in> set DEFAULT_PRICING_MODELS" using Some kp by (intro find_model_price [of model]) simp
  with default_prices_ok have "price_ok (snd (k, p))" unfolding list_all_iff by blast
  then have "price_ok p" by simp
  from cost_formula [OF effective_rates_ok [OF this], of "\<lparr>input_tokens = of_int i, output_tokens = of_int ot,
      cached_input_tokens = of_int c\<rparr>" tier]
  obtain c' where "calculate_cost_from_usage (Tokens \<lparr>input_tokens = of_int i, output_tokens = of_int ot,
      cached_input_tokens = of_int c\<rparr>) p tier = Some c'" "0 \<le> c'"
    using assms by (auto simp: usage_ok_def)
  then show ?thesis using Some kp by (simp add: calculate_cost_microdollars_def py_int_nonneg)
qed (simp add: calculate_cost_microdollars_def)

lemma compute_increment_nonneg:
  "0 \<le> i \<Longrightarrow> 0 \<le> ot \<Longrightarrow> 0 \<le> cost \<Longrightarrow> 0 \<le> compute_increment_for_limit_type t i ot cost"
  by (cases t) (simp_all add: compute_increment_for_limit_type_def)

lemma transition_reserved:
  assumes "transition_usage_reservation_status rid Reserved st d = (claimed, d1)"
  shows "claimed \<longleftrightarrow> (\<exists>q \<in> set (reservations d). reservation_id q = rid \<and> res_status q = Reserved)"
    "api_key_limits d1 = api_key_limits d"
    "reservations d1 = map (\<lambda>q. if reservation_id q = rid \<and> res_status q = Reserved then q\<lparr>res_status := st\<rparr> else q) (reservations d)"
  using assms by (auto simp: transition_usage_reservation_status_def Let_def list_ex_iff)

text \<open>The row of a settled reservation.\<close>

lemma settle_row_simps [simp]:
  "api_key_limits (settle_usage_reservation_row rid st inp out cached cost d) = api_key_limits d"
  "reservations (settle_usage_reservation_row rid st inp out cached cost d) = map (\<lambda>q. if reservation_id q = rid
     then q\<lparr>res_status := st, res_input_tokens := inp, res_output_tokens := out,
            res_cached_input_tokens := cached, res_cost_microdollars := cost\<rparr> else q) (reservations d)"
  by (simp_all add: settle_usage_reservation_row_def)

lemma release_items_eq:
  "\<forall>i \<in> set items. 0 < reserved_delta i \<Longrightarrow> release_items rid items d = settle_items rid (\<lambda>i. 0) items d"
  by (induction items arbitrary: d) (simp_all add: Let_def)

lemma settle_effect:
  fixes inp out cached cost :: "int option"
  assumes inv: "db_inv d" and r: "r \<in> set (reservations d)" "res_status r = Reserved"
    and t: "transition_usage_reservation_status (reservation_id r) Reserved st' d = (True, d1)"
    and actual: "\<forall>i \<in> set (res_items r). 0 \<le> actual i" and st: "st \<notin> {Reserved, Settling}"
  defines "d2 \<equiv> settle_usage_reservation_row (reservation_id r) st inp out cached cost
      (settle_items (reservation_id r) actual (res_items r) d1)"
  shows "db_inv d2"
    and "reservations d2 = map (\<lambda>q. if reservation_id q = reservation_id r then r\<lparr>res_status := st,
       res_items := map (\<lambda>i. i\<lparr>actual_delta := Some (actual i)\<rparr>) (res_items r), res_input_tokens := inp,
       res_output_tokens := out, res_cached_input_tokens := cached, res_cost_microdollars := cost\<rparr> else q) (reservations d)"
    and "api_key_limits d2 = add_usage (item_sum (\<lambda>i. actual i - reserved_delta i) (res_items r)) (api_key_limits d)"
proof -
  note u = db_inv_unfold [OF inv]
  note tr = transition_reserved [OF t]
  have ok: "reservation_ok r" by (rule u(3) [OF r(1)])
  have "reserved_delta i \<le> current_value l"
    if "i \<in> set (res_items r)" "l \<in> set (api_key_limits d1)" "item_matches (limit_id l) (lim_reset_at l) i" for i l
    using item_le_charged [OF inv r(1) that(1,3)] u(5) [of l] that(2) r(2) by (simp add: tr(2))
  with ok actual settle_items_limits [of "res_items r" actual d1 "reservation_id r"]
  have s: "api_key_limits (settle_items (reservation_id r) actual (res_items r) d1) =
        add_usage (item_sum (\<lambda>i. actual i - reserved_delta i) (res_items r)) (api_key_limits d1)"
      "reservations (settle_items (reservation_id r) actual (res_items r) d1) = map (\<lambda>q. if reservation_id q = reservation_id r
        then q\<lparr>res_items := set_actuals actual (res_items r) (res_items q)\<rparr> else q) (reservations d1)"
    by (simp_all add: reservation_ok_def)
  show lims: "api_key_limits d2 = add_usage (item_sum (\<lambda>i. actual i - reserved_delta i) (res_items r)) (api_key_limits d)"
    by (simp add: d2_def s(1) tr(2))
  let ?h = "r\<lparr>res_status := st, res_items := map (\<lambda>i. i\<lparr>actual_delta := Some (actual i)\<rparr>) (res_items r),
     res_input_tokens := inp, res_output_tokens := out, res_cached_input_tokens := cached, res_cost_microdollars := cost\<rparr>"
  have sa: "set_actuals actual (res_items r) (res_items r) = map (\<lambda>i. i\<lparr>actual_delta := Some (actual i)\<rparr>) (res_items r)"
    using ok by (simp add: set_actuals_self reservation_ok_def)
  show res: "reservations d2 = map (\<lambda>q. if reservation_id q = reservation_id r then ?h else q) (reservations d)"
    unfolding d2_def settle_row_simps s(2) tr(3) map_map
  proof (rule map_cong [OF refl])
    fix q assume q: "q \<in> set (reservations d)"
    show "((\<lambda>q. if reservation_id q = reservation_id r then q\<lparr>res_status := st, res_input_tokens := inp,
        res_output_tokens := out, res_cached_input_tokens := cached, res_cost_microdollars := cost\<rparr> else q) \<circ>
      ((\<lambda>q. if reservation_id q = reservation_id r
         then q\<lparr>res_items := set_actuals actual (res_items r) (res_items q)\<rparr> else q) \<circ>
       (\<lambda>q. if reservation_id q = reservation_id r \<and> res_status q = Reserved then q\<lparr>res_status := st'\<rparr> else q))) q =
      (if reservation_id q = reservation_id r then ?h else q)"
      using distinct_id_eq [OF u(2) q r(1)] sa r(2) by (cases "q = r") (cases r, auto)
  qed
  show "db_inv d2"
    by (rule db_inv_settled [OF inv r lims res]) (use st actual in auto)
qed

lemma settle_commit_inv:
  assumes inv: "db_inv d" and r: "\<exists>q \<in> set (reservations d). reservation_id q = reservation_id r \<and> (res_status q = Reserved \<longrightarrow> q = r)"
    and v: "valid_tokens inp out cached" and st: "st \<in> {Finalized, Failed}"
  shows "db_inv (settle_commit now r model inp out cached tier st d) \<and>
    (settle_commit now r model inp out cached tier st d = d \<or> r \<in> set (reservations d) \<and>
      (\<exists>h. reservation_id h = reservation_id r \<and> res_status h = st \<and>
        reservations (settle_commit now r model inp out cached tier st d) =
          map (\<lambda>q. if reservation_id q = reservation_id r then h else q) (reservations d)))"
proof -
  obtain claimed d1 where t: "transition_usage_reservation_status (reservation_id r) Reserved Settling d = (claimed, d1)"
    by fastforce
  show ?thesis
  proof (cases claimed)
    case False
    then show ?thesis using inv by (simp add: settle_commit_def t)
  next
    case True
    from transition_reserved(1) [OF t] True obtain q where "q \<in> set (reservations d)" "reservation_id q = reservation_id r"
      "res_status q = Reserved" by blast
    with r distinct_id_eq [OF db_inv_unfold(2) [OF inv]] have rr: "r \<in> set (reservations d)" "res_status r = Reserved" by metis+
    define cost where "cost = calculate_cost_microdollars model (or_zero inp) (or_zero out) (or_zero cached) tier"
    define actual where "actual = (\<lambda>item :: reservation_item. compute_increment_for_limit_type (item_limit_type item) (or_zero inp) (or_zero out) cost)"
    have "0 \<le> or_zero inp" "0 \<le> or_zero out" "0 \<le> cost"
      using v by (auto simp: valid_tokens_def cost_def intro: calculate_cost_microdollars_nonneg)
    then have a: "\<forall>i \<in> set (res_items r). 0 \<le> actual i"
      by (simp add: actual_def compute_increment_nonneg)
    have eq: "settle_commit now r model inp out cached tier st d = update_last_used now (res_api_key_id r)
       (settle_usage_reservation_row (reservation_id r) st inp out cached (Some cost)
          (settle_items (reservation_id r) actual (res_items r) d1))"
      using t True by (simp add: settle_commit_def Let_def actual_def cost_def)
    note e = settle_effect [OF inv rr _ a, of Settling d1 st inp out cached "Some cost"]
    have upd: "db_inv (update_last_used now kid x) = db_inv x" for kid x by (simp add: db_inv_def charged_def)
    show ?thesis
      unfolding eq upd using e t True st rr(1) by (auto intro!: exI [of _ "r\<lparr>res_status := st,
       res_items := map (\<lambda>i. i\<lparr>actual_delta := Some (actual i)\<rparr>) (res_items r), res_input_tokens := inp,
       res_output_tokens := out, res_cached_input_tokens := cached, res_cost_microdollars := Some cost\<rparr>"])
  qed
qed

lemma release_commit_inv:
  assumes inv: "db_inv d" and r: "\<exists>q \<in> set (reservations d). reservation_id q = reservation_id r \<and> (res_status q = Reserved \<longrightarrow> q = r)"
  shows "db_inv (release_commit r d) \<and> (release_commit r d = d \<or> r \<in> set (reservations d) \<and>
      (\<exists>h. reservation_id h = reservation_id r \<and> res_status h = Released \<and>
        reservations (release_commit r d) = map (\<lambda>q. if reservation_id q = reservation_id r then h else q) (reservations d)) \<and>
      api_key_limits (release_commit r d) = add_usage (item_sum (\<lambda>i. - reserved_delta i) (res_items r)) (api_key_limits d))"
proof -
  obtain claimed d1 where t: "transition_usage_reservation_status (reservation_id r) Reserved Released d = (claimed, d1)"
    by fastforce
  show ?thesis
  proof (cases claimed)
    case False
    then show ?thesis using inv by (simp add: release_commit_def t)
  next
    case True
    from transition_reserved(1) [OF t] True obtain q where "q \<in> set (reservations d)" "reservation_id q = reservation_id r"
      "res_status q = Reserved" by blast
    with r distinct_id_eq [OF db_inv_unfold(2) [OF inv]] have rr: "r \<in> set (reservations d)" "res_status r = Reserved" by metis+
    have "\<forall>i \<in> set (res_items r). 0 < reserved_delta i"
      using db_inv_unfold(3) [OF inv rr(1)] rr(2) by (simp add: reservation_ok_def)
    then have eq: "release_commit r d = settle_usage_reservation_row (reservation_id r) Released None None None None
       (settle_items (reservation_id r) (\<lambda>i. 0) (res_items r) d1)"
      using t True by (simp add: release_commit_def release_items_eq Let_def)
    note e = settle_effect [OF inv rr, of Released d1 "\<lambda>i. 0" Released None None None None]
    show ?thesis
      unfolding eq using e t True rr(1) by (auto intro!: exI [of _ "r\<lparr>res_status := Released,
       res_items := map (\<lambda>i. i\<lparr>actual_delta := Some 0\<rparr>) (res_items r), res_input_tokens := None,
       res_output_tokens := None, res_cached_input_tokens := None, res_cost_microdollars := None\<rparr>"])
  qed
qed

lemma known_append: "known d r \<Longrightarrow> reservations d' = reservations d @ new \<Longrightarrow> known d' r"
  by (auto simp: known_def)

lemma known_settled:
  assumes "known d r" "reservations d' = map (\<lambda>q. if reservation_id q = reservation_id p then h else q) (reservations d)"
    and "reservation_id h = reservation_id p" "res_status h \<noteq> Reserved"
  shows "known d' r"
proof -
  obtain q where q: "q \<in> set (reservations d)" "reservation_id q = reservation_id r" "res_status q = Reserved \<longrightarrow> q = r"
    using assms(1) by (auto simp: known_def)
  then show ?thesis unfolding known_def assms(2) using assms(3,4)
    by (intro bexI [of _ "if reservation_id q = reservation_id p then h else q"]) auto
qed

lemma known_after:
  assumes "known d q" "st \<noteq> Reserved"
    and "d' = d \<or> (\<exists>h. reservation_id h = reservation_id r \<and> res_status h = st \<and>
      reservations d' = map (\<lambda>q. if reservation_id q = reservation_id r then h else q) (reservations d))"
  shows "known d' q"
  using assms(3)
proof (elim disjE exE conjE)
  fix h
  assume h: "reservation_id h = reservation_id r" "res_status h = st"
    "reservations d' = map (\<lambda>q. if reservation_id q = reservation_id r then h else q) (reservations d)"
  show ?thesis by (rule known_settled [OF assms(1) h(3,1)]) (use h(2) assms(2) in simp)
qed (simp add: assms(1))

lemma ledger_inv_step:
  assumes "ledger_step s s'" "ledger_inv s"
  shows "ledger_inv s'"
  using assms(1)
proof (cases rule: ledger_step.cases)
  case (read now kid ls d model tier)
  note e = enforce_read_inv [OF _ read(2)]
  from e(1,2) e(3) [of ls] assms(2) show ?thesis unfolding read(1) by (auto simp: ledger_inv_def known_def)
next
  case (read_fails now kid e d)
  from enforce_read_inv(1,2) [OF _ read_fails(2)] assms(2) show ?thesis
    unfolding read_fails(1) by (auto simp: ledger_inv_def known_def)
next
  case (reserve kid model tier ls rid res d)
  have "distinct (map limit_id ls)" using assms(2) reserve(2) by (auto simp: ledger_inv_def)
  from enforce_commit_inv [OF _ this reserve(3)] assms(2) show ?thesis
    unfolding reserve(1) by (auto simp: ledger_inv_def dest: in_diffD known_append)
next
  case (fetch rid r)
  then have "r \<in> set (reservations (db s))" "res_status r = Reserved"
    by (auto simp: settle_read_def get_usage_reservation_def dest: find_in_set split: option.splits if_splits)
  with assms(2) show ?thesis unfolding fetch(1) by (auto simp: ledger_inv_def known_def)
next
  case (settle r inp out cached st now model tier)
  have "known (db s) r" using assms(2) settle(2) by (auto simp: ledger_inv_def)
  from settle_commit_inv [OF _ this [unfolded known_def] settle(3,4), of now model tier] assms(2)
  have d: "db_inv (settle_commit now r model inp out cached tier st (db s))"
    "settle_commit now r model inp out cached tier st (db s) = db s \<or>
      (\<exists>h. reservation_id h = reservation_id r \<and> res_status h = st \<and>
        reservations (settle_commit now r model inp out cached tier st (db s)) =
          map (\<lambda>q. if reservation_id q = reservation_id r then h else q) (reservations (db s)))"
    by (auto simp: ledger_inv_def)
  have "st \<noteq> Reserved" using settle(4) by auto
  from known_after [OF _ this d(2)] d(1) assms(2) show ?thesis
    unfolding settle(1) by (auto simp: ledger_inv_def dest: in_diffD)
next
  case (release r)
  have "known (db s) r" using assms(2) release(2) by (auto simp: ledger_inv_def)
  from release_commit_inv [OF _ this [unfolded known_def]] assms(2)
  have d: "db_inv (release_commit r (db s))"
    "release_commit r (db s) = db s \<or> (\<exists>h. reservation_id h = reservation_id r \<and> res_status h = Released \<and>
      reservations (release_commit r (db s)) = map (\<lambda>q. if reservation_id q = reservation_id r then h else q) (reservations (db s)))"
    by (auto simp: ledger_inv_def)
  from known_after [OF _ _ d(2)] d(1) assms(2) show ?thesis
    unfolding release(1) by (auto simp: ledger_inv_def dest: in_diffD)
qed

lemma fresh_db_inv: "fresh_db d \<Longrightarrow> db_inv d"
  by (simp add: fresh_db_def db_inv_def charged_def)

lemma ledger_inv_reachable: "ledger_step\<^sup>*\<^sup>* s s' \<Longrightarrow> ledger_inv s \<Longrightarrow> ledger_inv s'"
  by (induction rule: rtranclp_induct) (auto intro: ledger_inv_step)

text \<open>
  C3. The quota ledger is exact: however the requests of all keys overlap, and although what a handler
  has read may be stale when it writes, the counter of a limit always equals the sum of the
  charges of its current window, the reserved amounts of the open requests and the used amounts of
  the settled ones, so that nothing is lost and nothing is counted twice.
\<close>

theorem quota_ledger_exact:
  assumes "fresh_db d" and "ledger_step\<^sup>*\<^sup>* (initial_ledger d) s" and "l \<in> set (api_key_limits (db s))"
  shows "current_value l = charged (limit_id l) (lim_reset_at l) (db s) \<and> 0 \<le> current_value l"
proof -
  have "ledger_inv (initial_ledger d)" using fresh_db_inv [OF assms(1)] by (simp add: ledger_inv_def initial_ledger_def)
  from ledger_inv_reachable [OF assms(2) this] have inv: "db_inv (db s)" by (simp add: ledger_inv_def)
  note u = db_inv_unfold [OF inv]
  have "0 \<le> charged (limit_id l) (lim_reset_at l) (db s)"
    unfolding charged_def using u(3) res_charge_nonneg by (auto intro!: sum_list_nonneg)
  with u(5) [OF assms(3)] show ?thesis by simp
qed

lemma sample_read: "enforce_read 50 ''k'' sample_db = (Inr [sample_limit], sample_db)"
  by (simp add: enforce_read_def sample_db_def sample_key_def sample_limit_def get_by_id_def
      ensure_valid_api_key_row_def key_expired_def get_limits_by_key_def)

lemma sample_reserve:
  "api_key_limits (snd (enforce_commit ''r'' ''k'' None None [sample_limit] sample_db)) = [sample_limit\<lparr>current_value := 8192\<rparr>]"
  by (simp add: enforce_commit_def sample_limit_def limit_applies_for_request_def reserve_delta_for_limit_def
      reserve_budget_for_limit_type_def try_reserve_usage_def update_limits_def create_usage_reservation_def sample_db_def)

theorem quota_ledger_exact_witness:
  "charged 1 100 (snd (enforce_commit ''r'' ''k'' None None [sample_limit] sample_db)) = 8192"
proof -
  let ?s = "initial_ledger sample_db" and ?d = "snd (enforce_commit ''r'' ''k'' None None [sample_limit] sample_db)"
  let ?p = "(''k'', None, None, [sample_limit])"
  have "ledger_step ?s (?s\<lparr>db := sample_db, pending := add_mset ?p (pending ?s)\<rparr>)"
    by (rule ledger_step.read [where now = 50]) (simp add: initial_ledger_def sample_read)
  moreover have "ledger_step (?s\<lparr>db := sample_db, pending := add_mset ?p (pending ?s)\<rparr>) (?s\<lparr>db := ?d\<rparr>)"
    using ledger_step.reserve [of "''k''" None None "[sample_limit]" "?s\<lparr>db := sample_db, pending := add_mset ?p (pending ?s)\<rparr>"
      "''r''", OF _ prod.collapse [symmetric]] by (simp add: initial_ledger_def)
  ultimately have "ledger_step\<^sup>*\<^sup>* ?s (?s\<lparr>db := ?d\<rparr>)" by (meson converse_rtranclp_into_rtranclp r_into_rtranclp)
  moreover have "fresh_db sample_db" by (simp add: fresh_db_def sample_db_def sample_limit_def)
  ultimately show ?thesis
    using quota_ledger_exact [of sample_db "?s\<lparr>db := ?d\<rparr>" "sample_limit\<lparr>current_value := 8192\<rparr>"]
    by (simp add: sample_reserve) (simp add: sample_limit_def)
qed

section \<open>Limits and reservations\<close>

lemma filter_eq_single: "distinct xs \<Longrightarrow> x \<in> set xs \<Longrightarrow> filter (\<lambda>y. y = x) xs = [x]"
  by (induction xs) (auto simp: filter_empty_conv)

lemma item_sum_single:
  assumes "distinct (map item_limit_id items)" "i \<in> set items" "item_matches (limit_id l) (lim_reset_at l) i"
  shows "item_sum f items l = f i"
proof -
  have "filter (item_matches (limit_id l) (lim_reset_at l)) items = filter (\<lambda>j. j = i) items"
  proof (rule filter_cong [OF refl])
    fix j
    assume "j \<in> set items"
    then have "item_limit_id j = item_limit_id i \<Longrightarrow> j = i" using distinct_id_eq [OF assms(1) _ assms(2)] by simp
    then show "item_matches (limit_id l) (lim_reset_at l) j \<longleftrightarrow> j = i" using assms(3) by (auto simp: item_matches_def)
  qed
  moreover have "filter (\<lambda>j. j = i) items = [i]"
    using assms(1,2) by (simp add: filter_eq_single distinct_map)
  ultimately show ?thesis by (simp add: item_sum_def)
qed

text \<open>
  C4. Reserving respects every limit and is all or nothing: a request that is granted raises a counter
  only up to its maximum, and one that is rejected leaves all counters and reservations as they
  were, whatever other requests did since it read the limits.
\<close>

theorem reserve_within_limits:
  assumes "distinct (map limit_id (api_key_limits d))" and "distinct (map limit_id ls)"
    and "enforce_commit rid kid model tier ls d = (res, d')"
  shows "case res of Inl e \<Rightarrow> d' = d
    | Inr data \<Rightarrow> list_all2 (\<lambda>l l'. l' = l \<or> current_value l < current_value l' \<and> current_value l' \<le> max_value l' \<and>
        l = l'\<lparr>current_value := current_value l\<rparr>) (api_key_limits d) (api_key_limits d')"
    (is "case res of Inl e \<Rightarrow> _ | Inr data \<Rightarrow> list_all2 ?R _ _")
  using assms(3)
proof (cases rule: enforce_commit_cases)
  case (Granted items d1)
  from reserve_limits_ok [OF assms(1,2) Granted(2)]
  have lims: "api_key_limits d' = add_usage (item_sum reserved_delta items) (api_key_limits d)"
      "distinct (map item_limit_id items)"
    and fits: "\<forall>i \<in> set items. 0 < reserved_delta i \<and> (\<exists>l \<in> set (api_key_limits d).
        item_matches (limit_id l) (lim_reset_at l) i \<and> current_value l + reserved_delta i \<le> max_value l)"
    using Granted(5) by auto
  have ok: "item_sum reserved_delta items l = 0 \<or> 0 < item_sum reserved_delta items l \<and>
      current_value l + item_sum reserved_delta items l \<le> max_value l"
    if l: "l \<in> set (api_key_limits d)" for l
  proof (cases "\<exists>i \<in> set items. item_matches (limit_id l) (lim_reset_at l) i")
    case True
    then obtain i where i: "i \<in> set items" "item_matches (limit_id l) (lim_reset_at l) i" by blast
    then obtain k where k: "k \<in> set (api_key_limits d)" "item_matches (limit_id k) (lim_reset_at k) i"
      "current_value k + reserved_delta i \<le> max_value k" "0 < reserved_delta i" using fits by blast
    have "k = l" by (rule distinct_id_eq [OF assms(1) k(1) l]) (use k(2) i(2) in \<open>simp add: item_matches_def\<close>)
    with k(3,4) show ?thesis by (simp add: item_sum_single [OF lims(2) i])
  qed (simp add: item_sum_def filter_False)
  have "?R l (l\<lparr>current_value := current_value l + item_sum reserved_delta items l\<rparr>)"
    if "l \<in> set (api_key_limits d)" for l
    using ok [OF that] by (elim disjE) simp_all
  then show ?thesis
    unfolding Granted(1) lims(1) add_usage_def sum.case list_all2_map2 list_all2_same by blast
qed simp

lemma sample_reserve_grants:
  "enforce_commit ''r'' ''k'' None None [sample_limit] sample_db =
     (Inr \<lparr>urd_reservation_id = ''r'', urd_key_id = ''k'', urd_model = []\<rparr>,
      snd (enforce_commit ''r'' ''k'' None None [sample_limit] sample_db))"
  by (simp add: enforce_commit_def sample_limit_def limit_applies_for_request_def reserve_delta_for_limit_def
      reserve_budget_for_limit_type_def try_reserve_usage_def update_limits_def create_usage_reservation_def sample_db_def)

theorem reserve_within_limits_witness:
  "\<exists>l. api_key_limits (snd (enforce_commit ''r'' ''k'' None None [sample_limit] sample_db)) = [l] \<and>
     current_value l \<le> 10000"
proof -
  have "distinct (map limit_id (api_key_limits sample_db))" "distinct (map limit_id [sample_limit])"
    by (simp_all add: sample_db_def)
  from reserve_within_limits [OF this sample_reserve_grants] show ?thesis
    by (auto simp: sample_db_def sample_limit_def list_all2_Cons1 dest: arg_cong [where f = max_value])
qed

lemma settle_read_SomeD: "settle_read rid d = Some r \<Longrightarrow>
    r \<in> set (reservations d) \<and> reservation_id r = rid \<and> res_status r = Reserved"
  by (auto simp: settle_read_def get_usage_reservation_def dest: find_SomeD split: option.splits if_splits)

lemma settle_read_settled:
  assumes "\<forall>r \<in> set (reservations d). reservation_id r = rid \<longrightarrow> res_status r \<noteq> Reserved"
  shows "settle_read rid d = None"
  using assms by (cases "settle_read rid d") (auto dest: settle_read_SomeD)

lemma settle_read_row: "st \<noteq> Reserved \<Longrightarrow>
    settle_read rid (settle_usage_reservation_row rid st inp out cached cost d) = None"
  by (rule settle_read_settled) (simp add: ball_Un)

lemma settle_read_last_used [simp]: "settle_read rid (update_last_used now kid d) = settle_read rid d"
  by (simp add: settle_read_def get_usage_reservation_def)

lemma settle_read_after:
  assumes "settle_read rid d = Some r" "transition_usage_reservation_status rid Reserved st d = (c, d1)"
  shows "c \<and> reservation_id r = rid"
  using transition_reserved(1) [OF assms(2)] settle_read_SomeD [OF assms(1)] by blast

lemma settle_read_settle:
  assumes "st \<noteq> Reserved"
  shows "settle_read rid (settle_usage_reservation now rid model inp out cached tier st d) = None"
proof (cases "settle_read rid d")
  case (Some r)
  obtain c d1 where t: "transition_usage_reservation_status rid Reserved Settling d = (c, d1)" by fastforce
  from settle_read_after [OF Some t] have "c" "reservation_id r = rid" by simp_all
  then show ?thesis using Some t assms
    by (simp add: settle_usage_reservation_def settle_commit_def Let_def settle_read_row)
qed (simp add: settle_usage_reservation_def)

lemma settle_read_release: "settle_read rid (release_usage_reservation rid d) = None"
proof (cases "settle_read rid d")
  case (Some r)
  obtain c d1 where t: "transition_usage_reservation_status rid Reserved Released d = (c, d1)" by fastforce
  from settle_read_after [OF Some t] have "c" "reservation_id r = rid" by simp_all
  then show ?thesis using Some t
    by (simp add: release_usage_reservation_def release_commit_def Let_def settle_read_row)
qed (simp add: release_usage_reservation_def)

lemma settle_read_none:
  assumes "settle_read rid d = None"
  shows "finalize_usage_reservation now rid model inp out cached tier d = d"
    "fail_usage_reservation now rid model inp' out' cached' tier d = d" "release_usage_reservation rid d = d"
  using assms by (simp_all add: finalize_usage_reservation_def fail_usage_reservation_def
      settle_usage_reservation_def release_usage_reservation_def)

text \<open>
  C5. A reservation is settled once: after a request was finalized, failed or released, each of the
  three is without effect on the tables, so no usage is charged or given back twice.
\<close>

theorem settled_once:
  assumes "d1 \<in> {finalize_usage_reservation now rid model inp out cached tier d,
      fail_usage_reservation now rid model inp' out' cached' tier d, release_usage_reservation rid d}"
  shows "finalize_usage_reservation now1 rid model1 inp1 out1 cached1 tier1 d1 = d1 \<and>
    fail_usage_reservation now1 rid model1 inp2 out2 cached2 tier1 d1 = d1 \<and>
    release_usage_reservation rid d1 = d1"
proof -
  have "settle_read rid d1 = None"
    using assms by (auto simp: finalize_usage_reservation_def fail_usage_reservation_def settle_read_settle settle_read_release)
  then show ?thesis by (simp add: settle_read_none)
qed

theorem settled_once_witness:
  "release_usage_reservation ''r'' (release_usage_reservation ''r'' (snd (enforce_commit ''r'' ''k'' None None [sample_limit] sample_db)))
     = release_usage_reservation ''r'' (snd (enforce_commit ''r'' ''k'' None None [sample_limit] sample_db))"
  using settled_once [where d = "snd (enforce_commit ''r'' ''k'' None None [sample_limit] sample_db)" and rid = "''r''"
      and ?d1.0 = "release_usage_reservation ''r'' (snd (enforce_commit ''r'' ''k'' None None [sample_limit] sample_db))"]
  by simp

text \<open>
  C6. Releasing undoes reserving: a request that is admitted and then released leaves every counter as
  it found it.
\<close>

theorem reserve_release_roundtrip:
  assumes "db_inv d" and "distinct (map limit_id ls)" and "enforce_commit rid kid model tier ls d = (Inr data, d')"
  shows "api_key_limits (release_usage_reservation rid d') = api_key_limits d"
  using assms(3)
proof (cases rule: enforce_commit_cases)
  case (Granted items d1)
  from reserve_limits_ok [OF db_inv_unfold(1) [OF assms(1)] assms(2) Granted(2)]
  have lims: "api_key_limits d' = add_usage (item_sum reserved_delta items) (api_key_limits d)" using Granted(5) by auto
  have inv: "db_inv d'" using enforce_commit_inv [OF assms] by simp
  obtain r where r: "r \<in> set (reservations d')" "reservation_id r = rid" "res_status r = Reserved" "res_items r = items"
    "get_usage_reservation rid d' = Some r"
  proof
    let ?r = "last (reservations d')"
    show "?r \<in> set (reservations d')" "reservation_id ?r = rid" "res_status ?r = Reserved" "res_items ?r = items"
      by (simp_all add: Granted(6))
    have "find (\<lambda>r. reservation_id r = rid) (reservations d1) = None" using Granted(3) by (simp add: find_None_iff)
    then show "get_usage_reservation rid d' = Some ?r" by (simp add: get_usage_reservation_def Granted(6) find_append_none)
  qed
  have rel: "release_usage_reservation rid d' = release_commit r d'"
    using r(3,5) by (simp add: release_usage_reservation_def settle_read_def)
  have ne: "release_commit r d' \<noteq> d'"
  proof
    assume "release_commit r d' = d'"
    with settle_read_release [of rid d'] have "settle_read rid d' = None" by (simp add: rel)
    then show False using r(3,5) by (simp add: settle_read_def)
  qed
  have ex: "\<exists>q \<in> set (reservations d'). reservation_id q = reservation_id r \<and> (res_status q = Reserved \<longrightarrow> q = r)"
    using r(1) by blast
  have "api_key_limits (release_commit r d') = add_usage (item_sum (\<lambda>i. - reserved_delta i) (res_items r)) (api_key_limits d')"
    using release_commit_inv [OF inv ex] ne by blast
  moreover have "item_sum reserved_delta items l + item_sum (\<lambda>i. - reserved_delta i) items l = 0" for l
    by (induction items) simp_all
  ultimately show ?thesis unfolding rel lims r(4) by (simp only: add_usage_add item_sum_simps(4) add_usage_zero)
qed simp

lemma sample_db_inv: "db_inv sample_db"
  by (rule fresh_db_inv) (simp add: fresh_db_def sample_db_def sample_limit_def)

theorem reserve_release_roundtrip_witness:
  "api_key_limits (release_usage_reservation ''r'' (snd (enforce_commit ''r'' ''k'' None None [sample_limit] sample_db)))
     = [sample_limit]"
  using reserve_release_roundtrip [OF sample_db_inv _ sample_reserve_grants] by (simp add: sample_db_def)

section \<open>Windows\<close>

lemma renew_id [simp]: "limit_id (renew now l) = limit_id l"
  by (simp add: renew_def)

lemma reset_limit_renews:
  assumes "distinct (map limit_id (api_key_limits d))" "l \<in> set (api_key_limits d)" "lim_reset_at l < now"
    and "reset_limit (limit_id l) (lim_reset_at l) (advance_reset (lim_reset_at l) now (limit_window l)) d = (b, d1)"
  shows "api_key_limits d1 = map (\<lambda>k. if k = l then renew now k else k) (api_key_limits d)"
proof -
  have "(if limit_id k = limit_id l \<and> lim_reset_at k = lim_reset_at l
      then k\<lparr>current_value := 0, lim_reset_at := advance_reset (lim_reset_at l) now (limit_window l)\<rparr> else k)
      = (if k = l then renew now k else k)" if k: "k \<in> set (api_key_limits d)" for k
    using distinct_id_eq [OF assms(1) k assms(2)] assms(3) by (auto simp: renew_def)
  then show ?thesis using assms(4) by (auto simp: reset_limit_def Let_def)
qed

lemma lazy_reset_limits:
  "distinct (map limit_id (api_key_limits d)) \<Longrightarrow> distinct (map limit_id ls) \<Longrightarrow> set ls \<subseteq> set (api_key_limits d) \<Longrightarrow>
   api_key_limits (snd (lazy_reset_expired_limits ls now d)) =
     map (\<lambda>l. if l \<in> set ls then renew now l else l) (api_key_limits d)"
proof (induction ls arbitrary: d)
  case (Cons l ls)
  show ?case
  proof (cases "now \<le> lim_reset_at l")
    case True
    then have "renew now l = l" by (simp add: renew_def)
    with Cons True show ?thesis by (auto intro!: map_cong)
  next
    case False
    obtain b d1 where r: "reset_limit (limit_id l) (lim_reset_at l)
      (advance_reset (lim_reset_at l) now (limit_window l)) d = (b, d1)" by fastforce
    have d1: "api_key_limits d1 = map (\<lambda>k. if k = l then renew now k else k) (api_key_limits d)"
      by (rule reset_limit_renews [OF Cons(2) _ _ r]) (use Cons(4) False in auto)
    have ids: "map limit_id (api_key_limits d1) = map limit_id (api_key_limits d)" by (simp add: d1)
    have nl: "limit_id l \<notin> limit_id ` set ls" using Cons(3) by simp
    have "set ls \<subseteq> set (api_key_limits d1)" using Cons(4) nl by (force simp: d1)
    from Cons(1) [OF _ _ this] Cons(2,3) ids
    have "api_key_limits (snd (lazy_reset_expired_limits ls now d1)) =
      map (\<lambda>l. if l \<in> set ls then renew now l else l) (api_key_limits d1)" by simp
    moreover have "renew now l \<notin> set ls" "l \<notin> set ls" using nl by (metis imageI renew_id)+
    ultimately show ?thesis using False by (simp add: r d1)
  qed
qed simp

text \<open>
  C7. Limits whose window has lapsed restart lazily and correctly: a request that gets past the checks
  has moved each lapsed limit of its key, by a whole number of windows, to the first end of window
  after now and emptied it, has left every other limit alone, and goes on with limits none of
  which is stale.
\<close>

theorem lapsed_limits_restart:
  assumes "distinct (map limit_id (api_key_limits d))" and "enforce_read now kid d = (Inr ls, d')"
  shows "list_all2 (\<lambda>l l'. if lim_api_key_id l = kid \<and> lim_reset_at l < now
      then l' = l\<lparr>current_value := 0, lim_reset_at := lim_reset_at l'\<rparr> \<and> now < lim_reset_at l' \<and>
        lim_reset_at l' \<le> now + window_delta (limit_window l) \<and>
        (\<exists>k. lim_reset_at l' = lim_reset_at l + int k * window_delta (limit_window l))
      else l' = l) (api_key_limits d) (api_key_limits d') \<and>
    ls = get_limits_by_key kid d' \<and> list_all (\<lambda>l. now \<le> lim_reset_at l) ls"
    (is "list_all2 ?R _ _ \<and> _")
proof -
  have d': "d' = snd (lazy_reset_expired_limits (get_limits_by_key kid d) now d)" and ls: "ls = get_limits_by_key kid d'"
    using assms(2) by (auto simp: enforce_read_def split: sum.splits if_splits prod.splits)
  have "api_key_limits d' = map (\<lambda>l. if l \<in> set (get_limits_by_key kid d) then renew now l else l) (api_key_limits d)"
    unfolding d' using assms(1) by (intro lazy_reset_limits) (auto simp: get_limits_by_key_def distinct_map_filter)
  also have "\<dots> = map (\<lambda>l. if lim_api_key_id l = kid then renew now l else l) (api_key_limits d)"
    by (rule map_cong) (auto simp: get_limits_by_key_def)
  finally have lims: "api_key_limits d' = map (\<lambda>l. if lim_api_key_id l = kid then renew now l else l) (api_key_limits d)" .
  have fresh: "now \<le> lim_reset_at (renew now l)" for l
    using advance_reset_spec [of now "lim_reset_at l" "limit_window l"] by (auto simp: renew_def)
  have "list_all (\<lambda>l. now \<le> lim_reset_at l) ls"
    unfolding ls get_limits_by_key_def lims list_all_iff using fresh by (auto split: if_splits)
  moreover have "?R l (if lim_api_key_id l = kid then renew now l else l)" for l
    using advance_reset_spec [of now "lim_reset_at l" "limit_window l"] by (simp add: renew_def)
  ultimately show ?thesis unfolding lims list_all2_map2 list_all2_same using ls by blast
qed

lemma sample_read_lapsed:
  "enforce_read 150 ''k'' sample_db = (Inr [renew 150 sample_limit], sample_db\<lparr>api_key_limits := [renew 150 sample_limit]\<rparr>)"
  by (simp add: enforce_read_def sample_db_def sample_key_def sample_limit_def get_by_id_def renew_def reset_limit_def
      ensure_valid_api_key_row_def key_expired_def get_limits_by_key_def update_limits_def)

theorem lapsed_limits_restart_witness: "150 < lim_reset_at (renew 150 sample_limit)"
  using lapsed_limits_restart [OF _ sample_read_lapsed] by (simp add: sample_db_def) (simp add: sample_limit_def)

end
