(* ===== verification/Api_Keys.thy ===== *)
theory Api_Keys
  imports Api_Limits
begin

text \<open>
  The administration of API keys: the rest of \<open>app/modules/api_keys/service.py\<close> and
  \<open>repository.py\<close> over the tables of theory \<open>Api_Limits\<close>. Normalising and storing the settings of a
  key, creating, updating, regenerating, deleting and validating keys, and the usage figures shown
  for a key. \<open>sha256\<close> is the argument \<open>sha\<close>; the generated key, fresh ids, the clock and the rows of the
  accounts table are arguments; \<open>render\<close> is \<open>str\<close> on JSON values other than strings.

  The lemmas show that stored settings are read back normalised, that an update keeps the usage of
  the limits it keeps and is all or nothing, that a regenerated or disabled key stops working and
  a new one works, and that the usage chart loses no request.
\<close>

section \<open>Normalisation\<close>

definition quoted :: "string \<Rightarrow> string" where
  "quoted s = CHR 0x27 # s @ [CHR 0x27]"

definition normalize_name :: "string \<Rightarrow> api_key_error + string" where
  "normalize_name name = (let normalized = strip name
     in if normalized = [] then Inl (ApiKeyValueError ''API key name is required'') else Inr normalized)"

definition serialize_allowed_models :: "string list option \<Rightarrow> json_text option" where
  "serialize_allowed_models models = map_option (\<lambda>ms. Text (JArr (map JStr ms))) models"

definition py_str :: "(json \<Rightarrow> string) \<Rightarrow> json \<Rightarrow> string" where
  "py_str render v = (case v of JStr s \<Rightarrow> s | _ \<Rightarrow> render v)"

definition deserialize_allowed_models :: "(json \<Rightarrow> string) \<Rightarrow> json_text option \<Rightarrow> api_key_error + string list option" where
  "deserialize_allowed_models render payload = (case payload of
     None \<Rightarrow> Inr None
   | Some Malformed \<Rightarrow> Inl (ApiKeyValueError ''JSONDecodeError'')
   | Some (Text parsed) \<Rightarrow> (case parsed of
       JArr vs \<Rightarrow> Inr (Some (filter (\<lambda>m. m \<noteq> []) (map (\<lambda>v. strip (py_str render v)) vs)))
     | _ \<Rightarrow> Inr None))"

definition normalize_allowed_models :: "string list option \<Rightarrow> string list option" where
  "normalize_allowed_models models = map_option (\<lambda>ms. filter (\<lambda>m. m \<noteq> []) (map strip ms)) models"

fun normalize_ids_loop :: "string list \<Rightarrow> string list \<Rightarrow> string list" where
  "normalize_ids_loop seen [] = []"
| "normalize_ids_loop seen (x # xs) = (let v = strip x
     in if v = [] \<or> v \<in> set seen then normalize_ids_loop seen xs else v # normalize_ids_loop (v # seen) xs)"

definition normalize_assigned_account_ids :: "string list option \<Rightarrow> string list" where
  "normalize_assigned_account_ids ids = (case ids of None \<Rightarrow> [] | Some xs \<Rightarrow> normalize_ids_loop [] xs)"

definition normalize_model_slug :: "string option \<Rightarrow> string option" where
  "normalize_model_slug v = (case v of None \<Rightarrow> None
     | Some s \<Rightarrow> (let n = strip s in if n = [] then None else Some n))"

definition SUPPORTED_REASONING_EFFORTS :: "string list" where
  "SUPPORTED_REASONING_EFFORTS = [''none'', ''minimal'', ''low'', ''medium'', ''high'', ''xhigh'']"

definition SUPPORTED_SERVICE_TIERS :: "string list" where
  "SUPPORTED_SERVICE_TIERS = [''auto'', ''default'', ''priority'', ''flex'']"

definition normalize_expires_at :: "pydatetime option \<Rightarrow> datetime option" where
  "normalize_expires_at v = map_option to_utc_naive v"

definition normalize_reasoning_effort :: "string option \<Rightarrow> api_key_error + string option" where
  "normalize_reasoning_effort v = (case v of None \<Rightarrow> Inr None
     | Some s \<Rightarrow> (let n = py_lower (strip s)
         in if n = [] then Inr None
            else if n \<notin> set SUPPORTED_REASONING_EFFORTS then Inl (ApiKeyValueError
              (''Unsupported enforced reasoning effort '' @ quoted n @ ''. Expected one of: high, low, medium, minimal, none, xhigh''))
            else Inr (Some n)))"

definition normalize_reasoning_effort_lenient :: "string option \<Rightarrow> string option" where
  "normalize_reasoning_effort_lenient v = (case v of None \<Rightarrow> None
     | Some s \<Rightarrow> (let n = py_lower (strip s)
         in if n = [] then None else if n \<in> set SUPPORTED_REASONING_EFFORTS then Some n else None))"

definition normalize_service_tier_strict :: "string option \<Rightarrow> api_key_error + string option" where
  "normalize_service_tier_strict v = (case v of None \<Rightarrow> Inr None
     | Some s \<Rightarrow> (let n = py_lower (strip s)
         in if n = [] then Inr None
            else let n = (if n = ''fast'' then ''priority'' else n)
                 in if n \<notin> set SUPPORTED_SERVICE_TIERS then Inl (ApiKeyValueError
                      (''Unsupported enforced service tier '' @ quoted n @ ''. Expected one of: auto, default, fast, flex, priority''))
                    else Inr (Some n)))"

definition normalize_service_tier_lenient :: "string option \<Rightarrow> string option" where
  "normalize_service_tier_lenient v = (case v of None \<Rightarrow> None
     | Some s \<Rightarrow> (let n = py_lower (strip s)
         in if n = [] then None else if n = ''fast'' then Some ''priority''
            else if n \<in> set SUPPORTED_SERVICE_TIERS then Some n else None))"

record model_tier =
  tier_model :: "string option"
  tier_reasoning_effort :: "string option"

record model_tiers =
  tier_mini :: "model_tier option"
  tier_standard :: "model_tier option"

definition mk_tier :: "string option \<Rightarrow> string option \<Rightarrow> model_tier option" where
  "mk_tier model effort = (if model = None \<and> effort = None then None
     else Some \<lparr>tier_model = model, tier_reasoning_effort = effort\<rparr>)"

definition mk_tiers :: "model_tier option \<Rightarrow> model_tier option \<Rightarrow> model_tiers option" where
  "mk_tiers mini standard = (if mini = None \<and> standard = None then None
     else Some \<lparr>tier_mini = mini, tier_standard = standard\<rparr>)"

definition normalize_enforced_model_tier :: "model_tier option \<Rightarrow> api_key_error + model_tier option" where
  "normalize_enforced_model_tier t = (case t of None \<Rightarrow> Inr None
     | Some t \<Rightarrow> bind_sum (normalize_reasoning_effort (tier_reasoning_effort t)) (\<lambda>effort.
         Inr (mk_tier (normalize_model_slug (tier_model t)) effort)))"

definition normalize_enforced_model_tiers :: "model_tiers option \<Rightarrow> api_key_error + model_tiers option" where
  "normalize_enforced_model_tiers ts = (case ts of None \<Rightarrow> Inr None
     | Some ts \<Rightarrow> bind_sum (normalize_enforced_model_tier (tier_mini ts)) (\<lambda>mini.
         bind_sum (normalize_enforced_model_tier (tier_standard ts)) (\<lambda>standard. Inr (mk_tiers mini standard))))"

definition tier_payload :: "model_tier \<Rightarrow> (string \<times> json) list" where
  "tier_payload t = (case tier_model t of None \<Rightarrow> [] | Some m \<Rightarrow> [(''model'', JStr m)]) @
     (case tier_reasoning_effort t of None \<Rightarrow> [] | Some r \<Rightarrow> [(''reasoningEffort'', JStr r)])"

definition serialize_enforced_model_tiers :: "model_tiers option \<Rightarrow> api_key_error + json option" where
  "serialize_enforced_model_tiers ts = bind_sum (normalize_enforced_model_tiers ts) (\<lambda>n. case n of
     None \<Rightarrow> Inr None
   | Some n \<Rightarrow>
       (let payload = (case tier_mini n of None \<Rightarrow> [] | Some t \<Rightarrow> [(''mini'', JObj (tier_payload t))]) @
          (case tier_standard n of None \<Rightarrow> [] | Some t \<Rightarrow> [(''standard'', JObj (tier_payload t))])
        in Inr (if payload = [] then None else Some (JObj payload))))"

definition deserialize_enforced_model_tier :: "json \<Rightarrow> model_tier option" where
  "deserialize_enforced_model_tier v = (case v of
     JObj d \<Rightarrow>
       (let reasoning = (if has_key d ''reasoningEffort'' then jget d ''reasoningEffort'' else jget d ''reasoning_effort'')
        in mk_tier (normalize_model_slug (jstr (jget d ''model'')))
             (normalize_reasoning_effort_lenient (jstr reasoning)))
   | _ \<Rightarrow> None)"

definition deserialize_enforced_model_tiers :: "json option \<Rightarrow> model_tiers option" where
  "deserialize_enforced_model_tiers v = (case v of
     Some (JObj d) \<Rightarrow> mk_tiers (deserialize_enforced_model_tier (jget d ''mini''))
        (deserialize_enforced_model_tier (jget d ''standard''))
   | _ \<Rightarrow> None)"

definition tier_allowed :: "string list \<Rightarrow> string \<Rightarrow> model_tier option \<Rightarrow> api_key_error + unit" where
  "tier_allowed allowed name t = (case t of None \<Rightarrow> Inr ()
     | Some t \<Rightarrow> (case tier_model t of None \<Rightarrow> Inr ()
         | Some m \<Rightarrow> if m \<notin> set allowed
             then Inl (ApiKeyValueError (''enforced_model_tiers.'' @ name @
               ''.model must be present in allowed_models when allowed_models is configured''))
             else Inr ()))"

definition validate_tiered_model_enforcement :: "model_tiers option \<Rightarrow> string list option \<Rightarrow> api_key_error + unit" where
  "validate_tiered_model_enforcement ts allowed = (case ts of None \<Rightarrow> Inr ()
     | Some ts \<Rightarrow> (case allowed of None \<Rightarrow> Inr ()
         | Some ms \<Rightarrow> if ms = [] then Inr ()
             else bind_sum (tier_allowed ms ''mini'' (tier_mini ts)) (\<lambda>u.
                    tier_allowed ms ''standard'' (tier_standard ts))))"

section \<open>Limit rules\<close>

record limit_rule_input =
  li_limit_type :: string
  li_limit_window :: string
  li_max_value :: int
  li_model_filter :: "string option"

definition LimitType :: "string \<Rightarrow> api_key_error + limit_type" where
  "LimitType s = (case find (\<lambda>t. limit_type_value t = s) [TOTAL_TOKENS, INPUT_TOKENS, OUTPUT_TOKENS, COST_USD, CREDITS] of
     None \<Rightarrow> Inl (ApiKeyValueError (quoted s @ '' is not a valid LimitType'')) | Some t \<Rightarrow> Inr t)"

definition LimitWindow :: "string \<Rightarrow> api_key_error + limit_window" where
  "LimitWindow s = (case find (\<lambda>w. limit_window_value w = s) [DAILY, WEEKLY, MONTHLY, FIVE_HOURS, SEVEN_DAYS] of
     None \<Rightarrow> Inl (ApiKeyValueError (quoted s @ '' is not a valid LimitWindow'')) | Some w \<Rightarrow> Inr w)"

text \<open>A row that is not yet inserted has id 0.\<close>

definition limit_input_to_row :: "limit_rule_input \<Rightarrow> string \<Rightarrow> datetime \<Rightarrow> int \<Rightarrow> datetime option
    \<Rightarrow> api_key_error + api_key_limit" where
  "limit_input_to_row li kid now current reset =
     bind_sum (LimitWindow (li_limit_window li)) (\<lambda>window.
       if li_limit_type li = limit_type_value CREDITS \<and> li_model_filter li \<noteq> None
       then Inl (ApiKeyValueError ''credits limits do not support model_filter'')
       else bind_sum (LimitType (li_limit_type li)) (\<lambda>ty.
         Inr \<lparr>limit_id = 0, lim_api_key_id = kid, limit_type = ty, limit_window = window,
              max_value = li_max_value li, current_value = current, model_filter = li_model_filter li,
              lim_reset_at = (case reset of None \<Rightarrow> next_reset now window | Some r \<Rightarrow> r)\<rparr>))"

type_synonym limit_identity = "string \<times> string \<times> string option"

definition limit_identity_from_input :: "limit_rule_input \<Rightarrow> limit_identity" where
  "limit_identity_from_input li = (li_limit_type li, li_limit_window li, li_model_filter li)"

definition limit_identity_from_row :: "api_key_limit \<Rightarrow> limit_identity" where
  "limit_identity_from_row l = (limit_type_value (limit_type l), limit_window_value (limit_window l), model_filter l)"

text \<open>A dict built from a list keeps the last value of a key.\<close>

definition dict_by :: "('a \<Rightarrow> 'k) \<Rightarrow> 'a list \<Rightarrow> 'k \<rightharpoonup> 'a" where
  "dict_by f xs = map_of (rev (map (\<lambda>x. (f x, x)) xs))"

fun collect_sum :: "('a \<Rightarrow> 'e + 'b) \<Rightarrow> 'a list \<Rightarrow> 'e + 'b list" where
  "collect_sum f [] = Inr []"
| "collect_sum f (x # xs) = bind_sum (f x) (\<lambda>y. bind_sum (collect_sum f xs) (\<lambda>ys. Inr (y # ys)))"

definition build_limit_rows_for_update :: "string \<Rightarrow> datetime \<Rightarrow> limit_rule_input list \<Rightarrow> api_key_limit list \<Rightarrow> bool
    \<Rightarrow> api_key_error + api_key_limit list" where
  "build_limit_rows_for_update kid now submitted existing reset_usage =
     (let existing_by_key = dict_by limit_identity_from_row existing
      in if \<not> distinct (map limit_identity_from_input submitted)
         then Inl (ApiKeyValueError ''Duplicate limit rules are not allowed'')
         else collect_sum (\<lambda>li. case existing_by_key (limit_identity_from_input li) of
             None \<Rightarrow> limit_input_to_row li kid now 0 None
           | Some matched \<Rightarrow> if reset_usage then limit_input_to_row li kid now 0 None
               else limit_input_to_row li kid now (current_value matched) (Some (lim_reset_at matched))) submitted)"

definition build_reset_limit_rows :: "string \<Rightarrow> datetime \<Rightarrow> api_key_limit list \<Rightarrow> api_key_limit list" where
  "build_reset_limit_rows kid now existing =
     map (\<lambda>l. \<lparr>limit_id = 0, lim_api_key_id = kid, limit_type = limit_type l, limit_window = limit_window l,
       max_value = max_value l, current_value = 0, model_filter = model_filter l,
       lim_reset_at = next_reset now (limit_window l)\<rparr>) existing"

section \<open>The repository\<close>

text \<open>A setting of an update is \<open>None\<close> when it is left unset.\<close>

record key_update =
  ku_name :: "string option"
  ku_allowed_models :: "json_text option option"
  ku_enforced_model :: "string option option"
  ku_enforced_reasoning_effort :: "string option option"
  ku_enforced_service_tier :: "string option option"
  ku_enforced_model_tiers :: "json option option"
  ku_account_assignment_scope_enabled :: "bool option"
  ku_expires_at :: "datetime option option"
  ku_is_active :: "bool option"
  ku_key_hash :: "string option"
  ku_key_prefix :: "string option"

definition unset_update :: key_update where
  "unset_update = \<lparr>ku_name = None, ku_allowed_models = None, ku_enforced_model = None,
     ku_enforced_reasoning_effort = None, ku_enforced_service_tier = None, ku_enforced_model_tiers = None,
     ku_account_assignment_scope_enabled = None, ku_expires_at = None, ku_is_active = None,
     ku_key_hash = None, ku_key_prefix = None\<rparr>"

definition set_if :: "'a option \<Rightarrow> 'a \<Rightarrow> 'a" where
  "set_if new old = (case new of None \<Rightarrow> old | Some v \<Rightarrow> v)"

definition apply_update :: "key_update \<Rightarrow> api_key \<Rightarrow> api_key" where
  "apply_update u k = k\<lparr>
     key_name := set_if (ku_name u) (key_name k),
     allowed_models := set_if (ku_allowed_models u) (allowed_models k),
     enforced_model := set_if (ku_enforced_model u) (enforced_model k),
     enforced_reasoning_effort := set_if (ku_enforced_reasoning_effort u) (enforced_reasoning_effort k),
     enforced_service_tier := set_if (ku_enforced_service_tier u) (enforced_service_tier k),
     enforced_model_tiers := set_if (ku_enforced_model_tiers u) (enforced_model_tiers k),
     account_assignment_scope_enabled := set_if (ku_account_assignment_scope_enabled u) (account_assignment_scope_enabled k),
     key_expires_at := set_if (ku_expires_at u) (key_expires_at k),
     is_active := set_if (ku_is_active u) (is_active k),
     key_hash := set_if (ku_key_hash u) (key_hash k),
     key_prefix := set_if (ku_key_prefix u) (key_prefix k)\<rparr>"

definition map_key :: "string \<Rightarrow> (api_key \<Rightarrow> api_key) \<Rightarrow> api_db \<Rightarrow> api_db" where
  "map_key kid f d = d\<lparr>api_keys := map (\<lambda>k. if key_id k = kid then f k else k) (api_keys d)\<rparr>"

text \<open>The primary key and the unique hash can make an insertion or an update fail.\<close>

definition repo_create :: "api_key \<Rightarrow> api_db \<Rightarrow> api_key_error + api_db" where
  "repo_create row d = (if list_ex (\<lambda>k. key_id k = key_id row \<or> key_hash k = key_hash row) (api_keys d)
     then Inl IntegrityError else Inr (d\<lparr>api_keys := api_keys d @ [row]\<rparr>))"

definition repo_update :: "string \<Rightarrow> key_update \<Rightarrow> api_db \<Rightarrow> api_key_error + api_db" where
  "repo_update kid u d = (case ku_key_hash u of
     Some h \<Rightarrow> if list_ex (\<lambda>k. key_hash k = h \<and> key_id k \<noteq> kid) (api_keys d) then Inl IntegrityError
        else Inr (map_key kid (apply_update u) d)
   | None \<Rightarrow> Inr (map_key kid (apply_update u) d))"

text \<open>Deleting limits cascades to the items of reservations on them.\<close>

definition delete_limits :: "(api_key_limit \<Rightarrow> bool) \<Rightarrow> api_db \<Rightarrow> api_db" where
  "delete_limits P d =
     (let gone = map limit_id (filter P (api_key_limits d))
      in d\<lparr>api_key_limits := filter (\<lambda>l. \<not> P l) (api_key_limits d),
            reservations := map (\<lambda>r. r\<lparr>res_items := filter (\<lambda>i. item_limit_id i \<notin> set gone) (res_items r)\<rparr>)
              (reservations d)\<rparr>)"

definition repo_delete :: "string \<Rightarrow> api_db \<Rightarrow> bool \<times> api_db" where
  "repo_delete kid d = (case get_by_id kid d of
     None \<Rightarrow> (False, d)
   | Some k \<Rightarrow> (let d = delete_limits (\<lambda>l. lim_api_key_id l = kid) d
       in (True, d\<lparr>api_keys := filter (\<lambda>k. key_id k \<noteq> kid) (api_keys d),
             reservations := filter (\<lambda>r. res_api_key_id r \<noteq> kid) (reservations d)\<rparr>)))"

text \<open>The ids are those the database gives to the inserted rows, in order.\<close>

definition insert_limits :: "int list \<Rightarrow> string \<Rightarrow> api_key_limit list \<Rightarrow> api_db \<Rightarrow> api_db" where
  "insert_limits ids kid rows d = d\<lparr>api_key_limits := api_key_limits d @
     map (\<lambda>(i, l). l\<lparr>limit_id := i, lim_api_key_id := kid\<rparr>) (zip ids rows)\<rparr>"

definition replace_limits :: "int list \<Rightarrow> string \<Rightarrow> api_key_limit list \<Rightarrow> api_db \<Rightarrow> api_db" where
  "replace_limits ids kid rows d = insert_limits ids kid rows (delete_limits (\<lambda>l. lim_api_key_id l = kid) d)"

definition limit_key :: "api_key_limit \<Rightarrow> limit_type \<times> limit_window \<times> string option" where
  "limit_key l = (limit_type l, limit_window l, model_filter l)"

definition upsert_limits :: "int list \<Rightarrow> string \<Rightarrow> api_key_limit list \<Rightarrow> api_db \<Rightarrow> api_db" where
  "upsert_limits ids kid rows d =
     (let existing = get_limits_by_key kid d;
          existing_by_key = dict_by limit_key existing;
          incoming_by_key = dict_by limit_key rows;
          updated = update_limits (\<lambda>l. lim_api_key_id l = kid \<and> existing_by_key (limit_key l) = Some l)
            (\<lambda>l. case incoming_by_key (limit_key l) of None \<Rightarrow> l
               | Some r \<Rightarrow> l\<lparr>max_value := max_value r, current_value := current_value r, lim_reset_at := lim_reset_at r\<rparr>) d;
          added = insert_limits ids kid (filter (\<lambda>r. existing_by_key (limit_key r) = None) rows) updated
      in delete_limits (\<lambda>l. lim_api_key_id l = kid \<and> limit_key l \<notin> set (map limit_key rows)) added)"

definition replace_account_assignments :: "string \<Rightarrow> string list \<Rightarrow> api_db \<Rightarrow> api_db" where
  "replace_account_assignments kid account_ids d = map_key kid (\<lambda>k. k\<lparr>assigned_account_ids := account_ids\<rparr>) d"

section \<open>What is shown of a key\<close>

record limit_rule_data =
  lr_id :: int
  lr_limit_type :: string
  lr_limit_window :: string
  lr_max_value :: int
  lr_current_value :: int
  lr_model_filter :: "string option"
  lr_reset_at :: datetime

definition to_limit_rule_data :: "api_key_limit \<Rightarrow> limit_rule_data" where
  "to_limit_rule_data l = \<lparr>lr_id = limit_id l, lr_limit_type = limit_type_value (limit_type l),
     lr_limit_window = limit_window_value (limit_window l), lr_max_value = max_value l,
     lr_current_value = current_value l, lr_model_filter = model_filter l, lr_reset_at = lim_reset_at l\<rparr>"

record api_key_data =
  akd_id :: string
  akd_name :: string
  akd_key_prefix :: string
  akd_allowed_models :: "string list option"
  akd_enforced_model :: "string option"
  akd_enforced_reasoning_effort :: "string option"
  akd_enforced_service_tier :: "string option"
  akd_enforced_model_tiers :: "model_tiers option"
  akd_expires_at :: "datetime option"
  akd_is_active :: bool
  akd_created_at :: datetime
  akd_last_used_at :: "datetime option"
  akd_limits :: "limit_rule_data list"
  akd_account_assignment_scope_enabled :: bool
  akd_assigned_account_ids :: "string list"

text \<open>The limits of the row are those of the table; the usage summary is attached by \<open>list_keys\<close>.\<close>

definition to_api_key_data :: "(json \<Rightarrow> string) \<Rightarrow> api_db \<Rightarrow> api_key \<Rightarrow> api_key_error + api_key_data" where
  "to_api_key_data render d k = bind_sum (deserialize_allowed_models render (allowed_models k)) (\<lambda>models. Inr
     \<lparr>akd_id = key_id k, akd_name = key_name k, akd_key_prefix = key_prefix k, akd_allowed_models = models,
      akd_enforced_model = normalize_model_slug (enforced_model k),
      akd_enforced_reasoning_effort = normalize_reasoning_effort_lenient (enforced_reasoning_effort k),
      akd_enforced_service_tier = normalize_service_tier_lenient (enforced_service_tier k),
      akd_enforced_model_tiers = deserialize_enforced_model_tiers (enforced_model_tiers k),
      akd_expires_at = key_expires_at k, akd_is_active = is_active k, akd_created_at = created_at k,
      akd_last_used_at = last_used_at k,
      akd_limits = map to_limit_rule_data (get_limits_by_key (key_id k) d),
      akd_account_assignment_scope_enabled = account_assignment_scope_enabled k,
      akd_assigned_account_ids = assigned_account_ids k\<rparr>)"

type_synonym api_key_created_data = "api_key_data \<times> string"

section \<open>The service\<close>

record create_data =
  cd_name :: string
  cd_allowed_models :: "string list option"
  cd_enforced_service_tier :: "string option"
  cd_enforced_model_tiers :: "model_tiers option"
  cd_expires_at :: "pydatetime option"
  cd_limits :: "limit_rule_input list"

definition new_key_row :: "(string \<Rightarrow> string) \<Rightarrow> string \<Rightarrow> string \<Rightarrow> datetime \<Rightarrow> create_data \<Rightarrow> api_key_error + api_key" where
  "new_key_row sha uuid plain now p =
     (let models = normalize_allowed_models (cd_allowed_models p)
      in bind_sum (normalize_service_tier_strict (cd_enforced_service_tier p)) (\<lambda>tier.
         bind_sum (normalize_enforced_model_tiers (cd_enforced_model_tiers p)) (\<lambda>tiers.
         bind_sum (validate_tiered_model_enforcement tiers models) (\<lambda>u.
         bind_sum (normalize_name (cd_name p)) (\<lambda>name.
         bind_sum (serialize_enforced_model_tiers tiers) (\<lambda>stored. Inr
           \<lparr>key_id = uuid, key_name = name, key_hash = sha plain, key_prefix = take 15 plain,
            allowed_models = serialize_allowed_models models, enforced_model = None,
            enforced_reasoning_effort = None, enforced_service_tier = tier, enforced_model_tiers = stored,
            account_assignment_scope_enabled = False, assigned_account_ids = [],
            key_expires_at = normalize_expires_at (cd_expires_at p), is_active = True, created_at = now,
            last_used_at = None\<rparr>))))))"

text \<open>The key is committed before its limits are looked at.\<close>

definition create_key :: "(string \<Rightarrow> string) \<Rightarrow> (json \<Rightarrow> string) \<Rightarrow> string \<Rightarrow> string \<Rightarrow> datetime \<Rightarrow> int list
    \<Rightarrow> create_data \<Rightarrow> api_db \<Rightarrow> (api_key_error + api_key_created_data) \<times> api_db" where
  "create_key sha render uuid plain now ids p d =
     (case bind_sum (new_key_row sha uuid plain now p) (\<lambda>row. map_sum id (Pair row) (repo_create row d)) of
        Inl e \<Rightarrow> (Inl e, d)
      | Inr (row, d1) \<Rightarrow>
          if cd_limits p = [] then (map_sum id (\<lambda>data. (data, plain)) (to_api_key_data render d1 row), d1)
          else (case collect_sum (\<lambda>li. limit_input_to_row li uuid now 0 None) (cd_limits p) of
             Inl e \<Rightarrow> (Inl e, d1)
           | Inr rows \<Rightarrow>
               (let d2 = replace_limits ids uuid rows d1
                in case get_by_id uuid d2 of
                     None \<Rightarrow> (Inl (ApiKeyValueError ''Failed to create API key''), d2)
                   | Some created \<Rightarrow> (map_sum id (\<lambda>data. (data, plain)) (to_api_key_data render d2 created), d2))))"

text \<open>A field of the payload is \<open>None\<close> when its \<open>_set\<close> flag is off.\<close>

record update_data =
  ud_name :: "string option option"
  ud_allowed_models :: "string list option option"
  ud_enforced_service_tier :: "string option option"
  ud_enforced_model_tiers :: "model_tiers option option"
  ud_expires_at :: "pydatetime option option"
  ud_is_active :: "bool option option"
  ud_assigned_account_ids :: "string list option option"
  ud_limits :: "limit_rule_input list option option"
  ud_reset_usage :: bool

definition join_names :: "string list \<Rightarrow> string" where
  "join_names xs = (case xs of [] \<Rightarrow> [] | x # xs \<Rightarrow> x @ concat (map (\<lambda>y. '', '' @ y) xs))"

definition resolve_assigned_accounts :: "string list \<Rightarrow> string list option option \<Rightarrow> api_key_error + string list option" where
  "resolve_assigned_accounts accounts p = (case p of
     None \<Rightarrow> Inr None
   | Some ids \<Rightarrow>
       (let assigned = normalize_assigned_account_ids ids;
            missing = filter (\<lambda>a. a \<notin> set accounts) assigned
        in if missing \<noteq> [] then Inl (ApiKeyValueError (''Unknown account ids: '' @ join_names missing))
           else Inr (Some assigned)))"

definition check_tiers :: "(json \<Rightarrow> string) \<Rightarrow> string list option option \<Rightarrow> model_tiers option option \<Rightarrow> api_key
    \<Rightarrow> api_key_error + unit" where
  "check_tiers render models tiers existing =
     (if models = None \<and> tiers = None then Inr ()
      else bind_sum (case models of Some ms \<Rightarrow> Inr ms
               | None \<Rightarrow> deserialize_allowed_models render (allowed_models existing)) (\<lambda>effective_models.
             validate_tiered_model_enforcement
               (case tiers of Some ts \<Rightarrow> ts | None \<Rightarrow> deserialize_enforced_model_tiers (enforced_model_tiers existing))
               effective_models))"

definition update_limit_rows :: "datetime \<Rightarrow> string \<Rightarrow> update_data \<Rightarrow> api_db \<Rightarrow> api_key_error + api_key_limit list option" where
  "update_limit_rows now kid p d = (case ud_limits p of
     Some submitted \<Rightarrow> map_sum id Some (build_limit_rows_for_update kid now
        (case submitted of None \<Rightarrow> [] | Some ls \<Rightarrow> ls) (get_limits_by_key kid d) (ud_reset_usage p))
   | None \<Rightarrow> if ud_reset_usage p then Inr (Some (build_reset_limit_rows kid now (get_limits_by_key kid d))) else Inr None)"

definition opt_sum :: "('a \<Rightarrow> 'e + 'b) \<Rightarrow> 'a option \<Rightarrow> 'e + 'b option" where
  "opt_sum f v = (case v of None \<Rightarrow> Inr None | Some x \<Rightarrow> map_sum id Some (f x))"

text \<open>What \<open>update_key\<close> prepares before its transaction, and the update itself.\<close>

definition prepare_update :: "(json \<Rightarrow> string) \<Rightarrow> datetime \<Rightarrow> string list \<Rightarrow> string \<Rightarrow> update_data \<Rightarrow> api_key \<Rightarrow> api_db
    \<Rightarrow> api_key_error + (key_update \<times> string list option \<times> api_key_limit list option)" where
  "prepare_update render now accounts kid p existing d =
     (let models = map_option normalize_allowed_models (ud_allowed_models p)
      in bind_sum (resolve_assigned_accounts accounts (ud_assigned_account_ids p)) (\<lambda>assigned.
         bind_sum (opt_sum normalize_service_tier_strict (ud_enforced_service_tier p)) (\<lambda>tier.
         bind_sum (opt_sum normalize_enforced_model_tiers (ud_enforced_model_tiers p)) (\<lambda>tiers.
         bind_sum (check_tiers render models tiers existing) (\<lambda>u.
         bind_sum (update_limit_rows now kid p d) (\<lambda>rows.
         bind_sum (opt_sum (\<lambda>n. normalize_name (case n of None \<Rightarrow> [] | Some s \<Rightarrow> s)) (ud_name p)) (\<lambda>name.
         bind_sum (opt_sum serialize_enforced_model_tiers tiers) (\<lambda>stored. Inr
           (\<lparr>ku_name = name, ku_allowed_models = map_option serialize_allowed_models models,
             ku_enforced_model = Some None, ku_enforced_reasoning_effort = Some None,
             ku_enforced_service_tier = tier, ku_enforced_model_tiers = stored,
             ku_account_assignment_scope_enabled = map_option (\<lambda>ids. ids \<noteq> []) assigned,
             ku_expires_at = map_option normalize_expires_at (ud_expires_at p),
             ku_is_active = (case ud_is_active p of None \<Rightarrow> None | Some v \<Rightarrow> v),
             ku_key_hash = None, ku_key_prefix = None\<rparr>, assigned, rows)))))))))"

text \<open>
  The third result lists the hashes dropped from the cache of validated keys.
\<close>

definition update_key :: "(json \<Rightarrow> string) \<Rightarrow> datetime \<Rightarrow> string list \<Rightarrow> int list \<Rightarrow> string \<Rightarrow> update_data \<Rightarrow> api_db
    \<Rightarrow> (api_key_error + api_key_data) \<times> api_db \<times> string list" where
  "update_key render now accounts ids kid p d = (case get_by_id kid d of
     None \<Rightarrow> (Inl (ApiKeyNotFoundError (''API key not found: '' @ kid)), d, [])
   | Some existing \<Rightarrow> (case prepare_update render now accounts kid p existing d of
       Inl e \<Rightarrow> (Inl e, d, [])
     | Inr (u, assigned, rows) \<Rightarrow>
         (let d1 = map_key kid (apply_update u) d;
              d2 = (case assigned of None \<Rightarrow> d1 | Some a \<Rightarrow> replace_account_assignments kid a d1);
              d3 = (case rows of None \<Rightarrow> d2 | Some rs \<Rightarrow> upsert_limits ids kid rs d2)
          in case get_by_id kid d3 of
               None \<Rightarrow> (Inl (ApiKeyNotFoundError (''API key not found: '' @ kid)), d3, [])
             | Some row \<Rightarrow> (to_api_key_data render d3 row, d3, [key_hash row]))))"

definition delete_key :: "string \<Rightarrow> api_db \<Rightarrow> (api_key_error + unit) \<times> api_db \<times> string list" where
  "delete_key kid d = (case get_by_id kid d of
     None \<Rightarrow> (Inl (ApiKeyNotFoundError (''API key not found: '' @ kid)), d, [])
   | Some row \<Rightarrow> (case repo_delete kid d of
       (False, d') \<Rightarrow> (Inl (ApiKeyNotFoundError (''API key not found: '' @ kid)), d', [])
     | (True, d') \<Rightarrow> (Inr (), d', [key_hash row])))"

definition regenerate_key :: "(string \<Rightarrow> string) \<Rightarrow> (json \<Rightarrow> string) \<Rightarrow> string \<Rightarrow> string \<Rightarrow> api_db
    \<Rightarrow> (api_key_error + api_key_created_data) \<times> api_db \<times> string list" where
  "regenerate_key sha render plain kid d = (case get_by_id kid d of
     None \<Rightarrow> (Inl (ApiKeyNotFoundError (''API key not found: '' @ kid)), d, [])
   | Some row \<Rightarrow> (case repo_update kid (unset_update\<lparr>ku_key_hash := Some (sha plain), ku_key_prefix := Some (take 15 plain)\<rparr>) d of
       Inl e \<Rightarrow> (Inl e, d, [])
     | Inr d' \<Rightarrow> (case get_by_id kid d' of
         None \<Rightarrow> (Inl (ApiKeyNotFoundError (''API key not found: '' @ kid)), d', [])
       | Some updated \<Rightarrow> (map_sum id (\<lambda>data. (data, plain)) (to_api_key_data render d' updated), d', [key_hash row]))))"

definition validate_key :: "(string \<Rightarrow> string) \<Rightarrow> (json \<Rightarrow> string) \<Rightarrow> datetime \<Rightarrow> string \<Rightarrow> api_db
    \<Rightarrow> (api_key_error + api_key_data) \<times> api_db" where
  "validate_key sha render now plain d =
     (if plain = [] then (Inl (ApiKeyInvalidError ''Missing API key in Authorization header''), d)
      else case ensure_valid_api_key_row (get_by_hash (sha plain) d) of
        Inl e \<Rightarrow> (Inl e, d)
      | Inr row \<Rightarrow>
          if key_expired now row then (Inl (ApiKeyInvalidError ''API key has expired''), d)
          else (case lazy_reset_expired_limits (get_limits_by_key (key_id row) d) now d of (limits_reset, d') \<Rightarrow>
            (case (if limits_reset then ensure_valid_api_key_row (get_by_hash (sha plain) d') else Inr row) of
               Inl e \<Rightarrow> (Inl e, d')
             | Inr refreshed \<Rightarrow>
                 if key_expired now refreshed then (Inl (ApiKeyInvalidError ''API key has expired''), d')
                 else (to_api_key_data render d' refreshed, d'))))"

definition get_key_by_id :: "(json \<Rightarrow> string) \<Rightarrow> datetime \<Rightarrow> string \<Rightarrow> api_db \<Rightarrow> api_key_error + api_key_data" where
  "get_key_by_id render now kid d = bind_sum (ensure_valid_api_key_row (get_by_id kid d)) (\<lambda>row.
     if key_expired now row then Inl (ApiKeyInvalidError ''API key has expired'') else to_api_key_data render d row)"

section \<open>Usage figures\<close>

text \<open>A row of \<open>request_logs\<close>, as far as the usage figures read it.\<close>

record usage_row =
  ur_api_key_id :: "string option"
  ur_requested_at :: datetime
  ur_input_tokens :: "int option"
  ur_output_tokens :: "int option"
  ur_reasoning_tokens :: "int option"
  ur_cached_input_tokens :: "int option"
  ur_cost_usd :: "pyfloat option"

record usage_totals =
  total_requests :: int
  total_tokens :: int
  total_input_tokens :: int
  billable_input_tokens :: int
  total_cached_input_tokens :: int
  total_output_tokens :: int
  total_cost_usd :: pyfloat

definition opt_int :: "int option \<Rightarrow> int" where
  "opt_int v = (case v of None \<Rightarrow> 0 | Some n \<Rightarrow> n)"

definition row_output_tokens :: "usage_row \<Rightarrow> int" where
  "row_output_tokens r = (case ur_output_tokens r of Some n \<Rightarrow> n | None \<Rightarrow> opt_int (ur_reasoning_tokens r))"

definition summarize_rows :: "usage_row list \<Rightarrow> usage_totals" where
  "summarize_rows rs =
     (let input_sum = sum_list (map (\<lambda>r. opt_int (ur_input_tokens r)) rs);
          output_sum = sum_list (map row_output_tokens rs);
          cached_sum = max 0 (min (sum_list (map (\<lambda>r. opt_int (ur_cached_input_tokens r)) rs)) input_sum)
      in \<lparr>total_requests = int (length rs), total_tokens = input_sum + output_sum, total_input_tokens = input_sum,
          billable_input_tokens = max 0 (input_sum - cached_sum), total_cached_input_tokens = cached_sum,
          total_output_tokens = output_sum,
          total_cost_usd = round_to 6 (sum_list (map (\<lambda>r. case ur_cost_usd r of None \<Rightarrow> 0 | Some c \<Rightarrow> c) rs))\<rparr>)"

definition rows_between :: "string \<Rightarrow> datetime \<Rightarrow> datetime \<Rightarrow> usage_row list \<Rightarrow> usage_row list" where
  "rows_between kid since until rows =
     filter (\<lambda>r. ur_api_key_id r = Some kid \<and> ur_requested_at r \<ge> since \<and> ur_requested_at r < until) rows"

definition get_usage_summary_by_key_id :: "string \<Rightarrow> usage_row list \<Rightarrow> usage_totals" where
  "get_usage_summary_by_key_id kid rows = summarize_rows (filter (\<lambda>r. ur_api_key_id r = Some kid) rows)"

definition usage_between :: "string \<Rightarrow> datetime \<Rightarrow> datetime \<Rightarrow> usage_row list \<Rightarrow> usage_totals" where
  "usage_between kid since until rows = summarize_rows (rows_between kid since until rows)"

definition epoch_seconds :: "datetime \<Rightarrow> int" where
  "epoch_seconds t = t div 1000000"

record trend_bucket =
  bucket_epoch :: int
  bucket_tokens :: int
  bucket_cost_usd :: pyfloat

definition bucket_of :: "int \<Rightarrow> datetime \<Rightarrow> int" where
  "bucket_of bs t = epoch_seconds t div bs * bs"

definition trends_by_key :: "string \<Rightarrow> datetime \<Rightarrow> datetime \<Rightarrow> int \<Rightarrow> usage_row list \<Rightarrow> trend_bucket list" where
  "trends_by_key kid since until bs rows =
     (let selected = rows_between kid since until rows;
          epochs = sort (remdups (map (\<lambda>r. bucket_of bs (ur_requested_at r)) selected))
      in map (\<lambda>e. let rs = filter (\<lambda>r. bucket_of bs (ur_requested_at r) = e) selected
           in \<lparr>bucket_epoch = e,
               bucket_tokens = sum_list (map (\<lambda>r. opt_int (ur_input_tokens r)) rs) + sum_list (map row_output_tokens rs),
               bucket_cost_usd = round_to 6 (sum_list (map (\<lambda>r. case ur_cost_usd r of None \<Rightarrow> 0 | Some c \<Rightarrow> c) rs))\<rparr>) epochs)"

record trends_data =
  td_key_id :: string
  td_cost :: "(int \<times> pyfloat) list"
  td_tokens :: "(int \<times> int) list"

text \<open>\<open>int(x.timestamp())\<close> truncates; the times are not before the epoch.\<close>

definition build_api_key_trends :: "string \<Rightarrow> trend_bucket list \<Rightarrow> datetime \<Rightarrow> datetime \<Rightarrow> int \<Rightarrow> trends_data" where
  "build_api_key_trends kid buckets since until bs =
     (if until \<le> since then \<lparr>td_key_id = kid, td_cost = [], td_tokens = []\<rparr>
      else
        let start_epoch = py_int (of_int since / 1000000) div bs * bs;
            end_epoch = py_int (of_int (until - 1) / 1000000) div bs * bs;
            bucket_count = (end_epoch - start_epoch) div bs + 1;
            time_grid = map (\<lambda>i. start_epoch + int i * bs) [0..<nat bucket_count];
            cost_by_bucket = dict_by bucket_epoch buckets
        in \<lparr>td_key_id = kid,
            td_cost = map (\<lambda>e. (e, round_to 6 (case cost_by_bucket e of None \<Rightarrow> 0 | Some b \<Rightarrow> bucket_cost_usd b))) time_grid,
            td_tokens = map (\<lambda>e. (e, case cost_by_bucket e of None \<Rightarrow> 0 | Some b \<Rightarrow> bucket_tokens b)) time_grid\<rparr>)"

definition get_key_trends :: "string \<Rightarrow> datetime \<Rightarrow> api_db \<Rightarrow> usage_row list \<Rightarrow> trends_data option" where
  "get_key_trends kid now d rows = (case get_by_id kid d of
     None \<Rightarrow> None
   | Some k \<Rightarrow> (let since = now - timedelta_days 7
       in Some (build_api_key_trends kid (trends_by_key kid since now 3600 rows) since now 3600)))"

record self_usage_window =
  sw_request_count :: int
  sw_total_tokens :: int
  sw_input_tokens :: int
  sw_cached_input_tokens :: int
  sw_output_tokens :: int
  sw_total_cost_usd :: pyfloat

definition to_self_usage_window :: "usage_totals \<Rightarrow> self_usage_window" where
  "to_self_usage_window t = \<lparr>sw_request_count = total_requests t, sw_total_tokens = total_tokens t,
     sw_input_tokens = total_input_tokens t, sw_cached_input_tokens = total_cached_input_tokens t,
     sw_output_tokens = total_output_tokens t, sw_total_cost_usd = total_cost_usd t\<rparr>"

definition get_key_usage_7d :: "string \<Rightarrow> datetime \<Rightarrow> api_db \<Rightarrow> usage_row list \<Rightarrow> (string \<times> usage_totals) option" where
  "get_key_usage_7d kid now d rows = (case get_by_id kid d of
     None \<Rightarrow> None | Some k \<Rightarrow> Some (kid, usage_between kid (now - timedelta_days 7) now rows))"

definition get_key_usage_windows_for_self :: "string \<Rightarrow> datetime \<Rightarrow> api_db \<Rightarrow> usage_row list
    \<Rightarrow> (self_usage_window \<times> self_usage_window \<times> self_usage_window) option" where
  "get_key_usage_windows_for_self kid now d rows = (case get_by_id kid d of
     None \<Rightarrow> None
   | Some k \<Rightarrow>
       (let window = (\<lambda>days. to_self_usage_window (usage_between kid (now - timedelta_days days) now rows))
        in Some (window 1, window 7, window 30)))"

text \<open>Days are numbered from the epoch.\<close>

definition day_of :: "datetime \<Rightarrow> int" where
  "day_of t = t div timedelta_days 1"

record daily_usage =
  du_day :: int
  du_requests :: int
  du_tokens :: int
  du_cost_usd :: pyfloat

definition daily_usage_by_key :: "string \<Rightarrow> datetime \<Rightarrow> datetime \<Rightarrow> usage_row list \<Rightarrow> daily_usage list" where
  "daily_usage_by_key kid since until rows =
     (let selected = rows_between kid since until rows
      in map (\<lambda>day. let t = summarize_rows (filter (\<lambda>r. day_of (ur_requested_at r) = day) selected)
           in \<lparr>du_day = day, du_requests = total_requests t,
               du_tokens = billable_input_tokens t + total_output_tokens t, du_cost_usd = total_cost_usd t\<rparr>)
           (sort (remdups (map (\<lambda>r. day_of (ur_requested_at r)) selected))))"

definition get_key_daily_usage_for_self :: "string \<Rightarrow> datetime \<Rightarrow> api_db \<Rightarrow> usage_row list \<Rightarrow> daily_usage list option" where
  "get_key_daily_usage_for_self kid now d rows = (case get_by_id kid d of
     None \<Rightarrow> None
   | Some k \<Rightarrow> (let since = (day_of now - 29) * timedelta_days 1
       in Some (filter (\<lambda>u. \<not> du_tokens u \<le> 0) (daily_usage_by_key kid since now rows))))"

text \<open>
  \<open>list_keys\<close> pairs every key, newest first, with its usage summary, \<open>None\<close> for a key with no log.
\<close>

definition list_all :: "api_db \<Rightarrow> api_key list" where
  "list_all d = rev (sort_key created_at (rev (api_keys d)))"

definition list_usage_summary_by_key :: "usage_row list \<Rightarrow> string \<Rightarrow> usage_totals option" where
  "list_usage_summary_by_key rows kid =
     (if kid = [] \<or> (\<forall>r \<in> set rows. ur_api_key_id r \<noteq> Some kid) then None
      else Some (get_usage_summary_by_key_id kid rows))"

definition list_keys :: "(json \<Rightarrow> string) \<Rightarrow> usage_row list \<Rightarrow> api_db
    \<Rightarrow> api_key_error + (api_key_data \<times> usage_totals option) list" where
  "list_keys render rows d = collect_sum (\<lambda>row. map_sum id (\<lambda>data. (data, list_usage_summary_by_key rows (key_id row)))
     (to_api_key_data render d row)) (list_all d)"

record self_limit_data =
  sl_limit_type :: string
  sl_limit_window :: string
  sl_max_value :: int
  sl_current_value :: int
  sl_remaining_value :: int
  sl_model_filter :: "string option"
  sl_reset_at :: datetime
  sl_source :: string

definition to_self_limit :: "api_key_limit \<Rightarrow> self_limit_data" where
  "to_self_limit l = \<lparr>sl_limit_type = limit_type_value (limit_type l), sl_limit_window = limit_window_value (limit_window l),
     sl_max_value = max_value l, sl_current_value = max 0 (min (current_value l) (max_value l)),
     sl_remaining_value = max 0 (max_value l - max 0 (min (current_value l) (max_value l))),
     sl_model_filter = model_filter l, sl_reset_at = lim_reset_at l,
     sl_source = (if limit_type l = CREDITS then ''api_key_override'' else ''api_key_limit'')\<rparr>"

definition get_key_usage_summary_for_self :: "string \<Rightarrow> datetime \<Rightarrow> usage_row list \<Rightarrow> api_db
    \<Rightarrow> (self_usage_window \<times> self_limit_data list) option \<times> api_db" where
  "get_key_usage_summary_for_self kid now rows d = (case get_by_id kid d of
     None \<Rightarrow> (None, d)
   | Some k \<Rightarrow> (case lazy_reset_expired_limits (get_limits_by_key kid d) now d of (limits_reset, d') \<Rightarrow>
       (if limits_reset \<and> get_by_id kid d' = None then (None, d')
        else (Some (to_self_usage_window (get_usage_summary_by_key_id kid rows), map to_self_limit (get_limits_by_key kid d')), d'))))"

section \<open>Stored settings\<close>

lemma normalize_model_slug_fixed: "normalize_model_slug v = e \<Longrightarrow> normalize_model_slug e = e"
  by (cases v) (auto simp: normalize_model_slug_def Let_def)

lemma normalize_reasoning_effort_fixed:
  "normalize_reasoning_effort v = Inr e \<Longrightarrow> normalize_reasoning_effort_lenient e = e"
  by (cases v) (auto simp: normalize_reasoning_effort_def normalize_reasoning_effort_lenient_def Let_def
      strip_py_lower split: if_splits)

lemma tier_normal:
  assumes "normalize_enforced_model_tier t = Inr (Some n)"
  shows "normalize_model_slug (tier_model n) = tier_model n"
    and "normalize_reasoning_effort_lenient (tier_reasoning_effort n) = tier_reasoning_effort n"
    and "mk_tier (tier_model n) (tier_reasoning_effort n) = Some n"
  using assms
  by (auto simp: normalize_enforced_model_tier_def mk_tier_def normalize_model_slug_fixed [OF refl] dest: normalize_reasoning_effort_fixed
      normalize_model_slug_fixed split: option.splits if_splits)

lemma deserialize_tier_payload:
  assumes "normalize_enforced_model_tier t = Inr (Some n)"
  shows "deserialize_enforced_model_tier (JObj (tier_payload n)) = Some n"
  using tier_normal [OF assms]
  by (auto simp: deserialize_enforced_model_tier_def tier_payload_def jget_def has_key_def
      normalize_reasoning_effort_lenient_def [of None] normalize_model_slug_def [of None] split: option.splits)

lemma mk_tier_None [simp]: "deserialize_enforced_model_tier JNull = None"
  by (simp add: deserialize_enforced_model_tier_def)

text \<open>
  Whatever enforced tiers are stored, reading them back gives the normalised tiers: no field is
  lost, renamed or added by the detour through the JSON column.
\<close>

theorem enforced_tiers_roundtrip:
  assumes "serialize_enforced_model_tiers ts = Inr stored"
  shows "normalize_enforced_model_tiers ts = Inr (deserialize_enforced_model_tiers stored)"
proof -
  from assms obtain n where n: "normalize_enforced_model_tiers ts = Inr n"
    by (auto simp: serialize_enforced_model_tiers_def)
  show ?thesis
  proof (cases n)
    case None
    with assms n show ?thesis
      by (simp add: serialize_enforced_model_tiers_def deserialize_enforced_model_tiers_def)
  next
    case (Some m)
    from n Some obtain t mini standard where t: "ts = Some t"
      "normalize_enforced_model_tier (tier_mini t) = Inr mini"
      "normalize_enforced_model_tier (tier_standard t) = Inr standard" "mk_tiers mini standard = Some m"
      by (auto simp: normalize_enforced_model_tiers_def split: option.splits)
    from t(4) have m: "m = \<lparr>tier_mini = mini, tier_standard = standard\<rparr>" "\<not> (mini = None \<and> standard = None)"
      by (auto simp: mk_tiers_def split: if_splits)
    show ?thesis
      using assms n t(2,3) m(2) unfolding Some m(1)
      by (cases mini; cases standard)
        (auto simp: serialize_enforced_model_tiers_def deserialize_enforced_model_tiers_def jget_def
          deserialize_tier_payload mk_tiers_def)
  qed
qed

theorem enforced_tiers_roundtrip_witness:
  "serialize_enforced_model_tiers (Some \<lparr>tier_mini = Some \<lparr>tier_model = Some '' m '', tier_reasoning_effort = Some ''HIGH''\<rparr>,
      tier_standard = Some \<lparr>tier_model = Some '' '', tier_reasoning_effort = None\<rparr>\<rparr>) =
     Inr (Some (JObj [(''mini'', JObj [(''model'', JStr ''m''), (''reasoningEffort'', JStr ''high'')])])) \<and>
   deserialize_enforced_model_tiers (Some (JObj [(''mini'', JObj [(''model'', JStr ''m''), (''reasoningEffort'', JStr ''high'')])])) =
     Some \<lparr>tier_mini = Some \<lparr>tier_model = Some ''m'', tier_reasoning_effort = Some ''high''\<rparr>, tier_standard = None\<rparr>"
proof -
  let ?ts = "Some \<lparr>tier_mini = Some \<lparr>tier_model = Some '' m '', tier_reasoning_effort = Some ''HIGH''\<rparr>,
      tier_standard = Some \<lparr>tier_model = Some '' '', tier_reasoning_effort = None\<rparr>\<rparr>"
  let ?j = "Some (JObj [(''mini'', JObj [(''model'', JStr ''m''), (''reasoningEffort'', JStr ''high'')])])"
  have stored: "serialize_enforced_model_tiers ?ts = Inr ?j" by code_simp
  moreover have "normalize_enforced_model_tiers ?ts =
      Inr (Some \<lparr>tier_mini = Some \<lparr>tier_model = Some ''m'', tier_reasoning_effort = Some ''high''\<rparr>, tier_standard = None\<rparr>)"
    by code_simp
  ultimately show ?thesis using enforced_tiers_roundtrip [OF stored] by simp
qed

section \<open>Keys and lookups\<close>

definition keys_ok :: "api_db \<Rightarrow> bool" where
  "keys_ok d \<longleftrightarrow> distinct (map key_id (api_keys d)) \<and> distinct (map key_hash (api_keys d)) \<and>
     (\<forall>k \<in> set (api_keys d). allowed_models k \<noteq> Some Malformed)"

lemma keys_ok_cong: "api_keys d' = api_keys d \<Longrightarrow> keys_ok d' = keys_ok d"
  by (simp add: keys_ok_def)

lemma api_keys_limit_ops [simp]:
  "api_keys (delete_limits P d) = api_keys d"
  "api_keys (insert_limits ids kid rows d) = api_keys d"
  "api_keys (replace_limits ids kid rows d) = api_keys d"
  "api_keys (upsert_limits ids kid rows d) = api_keys d"
  by (simp_all add: delete_limits_def insert_limits_def replace_limits_def upsert_limits_def update_limits_def Let_def)

lemma api_key_limits_map_key [simp]:
  "api_key_limits (map_key kid f d) = api_key_limits d"
  "api_key_limits (replace_account_assignments kid a d) = api_key_limits d"
  "get_limits_by_key k (map_key kid f d) = get_limits_by_key k d"
  "get_limits_by_key k (replace_account_assignments kid a d) = get_limits_by_key k d"
  by (simp_all add: map_key_def replace_account_assignments_def get_limits_by_key_def)

lemma apply_update_key [simp]:
  "key_id (apply_update u k) = key_id k"
  "key_hash (apply_update u k) = set_if (ku_key_hash u) (key_hash k)"
  "is_active (apply_update u k) = set_if (ku_is_active u) (is_active k)"
  "key_expires_at (apply_update u k) = set_if (ku_expires_at u) (key_expires_at k)"
  "allowed_models (apply_update u k) = set_if (ku_allowed_models u) (allowed_models k)"
  by (simp_all add: apply_update_def)

lemma set_if_simps [simp]: "set_if None v = v" "set_if (Some w) v = w"
  by (simp_all add: set_if_def)

lemma get_by_id_cong: "api_keys d' = api_keys d \<Longrightarrow> get_by_id kid d' = get_by_id kid d"
  by (simp add: get_by_id_def)

lemma get_by_hash_cong: "api_keys d' = api_keys d \<Longrightarrow> get_by_hash h d' = get_by_hash h d"
  by (simp add: get_by_hash_def)

lemma get_by_id_map_key:
  assumes "\<And>k. key_id (f k) = key_id k"
  shows "get_by_id kid' (map_key kid f d) = (if kid' = kid then map_option f (get_by_id kid d) else get_by_id kid' d)"
proof -
  have "find (\<lambda>k. key_id k = kid') (map (\<lambda>k. if key_id k = kid then f k else k) ks) =
      (if kid' = kid then map_option f (find (\<lambda>k. key_id k = kid) ks) else find (\<lambda>k. key_id k = kid') ks)" for ks
    using assms by (induction ks) auto
  then show ?thesis by (simp add: get_by_id_def map_key_def)
qed

lemma get_by_id_SomeD: "get_by_id kid d = Some k \<Longrightarrow> k \<in> set (api_keys d) \<and> key_id k = kid"
  unfolding get_by_id_def by (rule find_SomeD)

lemma get_by_hash_SomeD: "get_by_hash h d = Some k \<Longrightarrow> k \<in> set (api_keys d) \<and> key_hash k = h"
  unfolding get_by_hash_def by (rule find_SomeD)

lemma get_by_hash_member:
  "keys_ok d \<Longrightarrow> k \<in> set (api_keys d) \<Longrightarrow> get_by_hash (key_hash k) d = Some k"
  unfolding get_by_hash_def keys_ok_def
  by (cases "find (\<lambda>k'. key_hash k' = key_hash k) (api_keys d)")
    (auto simp: find_None_iff dest!: find_SomeD dest: distinct_key_eq)

lemma get_by_hash_None_iff: "get_by_hash h d = None \<longleftrightarrow> h \<notin> key_hash ` set (api_keys d)"
  by (auto simp: get_by_hash_def find_None_iff)

lemma to_api_key_data_ok:
  assumes "allowed_models k \<noteq> Some Malformed"
  obtains data where "to_api_key_data render d k = Inr data" "akd_id data = key_id k" "akd_is_active data = is_active k"
    "akd_expires_at data = key_expires_at k"
proof -
  have "\<exists>ms. deserialize_allowed_models render (allowed_models k) = Inr ms"
    using assms by (auto simp: deserialize_allowed_models_def split: option.splits json_text.splits json.splits)
  then obtain ms where "deserialize_allowed_models render (allowed_models k) = Inr ms" ..
  then show thesis by - (rule that, simp add: to_api_key_data_def, simp_all)
qed

lemma keys_ok_map_key:
  assumes ok: "keys_ok d" and f: "\<And>k. key_id (f k) = key_id k"
    "\<And>k. k \<in> set (api_keys d) \<Longrightarrow> key_id k = kid \<Longrightarrow> allowed_models (f k) \<noteq> Some Malformed"
    and h: "\<And>k. k \<in> set (api_keys d) \<Longrightarrow> key_id k = kid \<Longrightarrow>
        key_hash (f k) = key_hash k \<or> key_hash (f k) \<notin> key_hash ` {k \<in> set (api_keys d). key_id k \<noteq> kid}"
  shows "keys_ok (map_key kid f d)"
proof -
  let ?g = "\<lambda>k. if key_id k = kid then f k else k"
  have ids: "map key_id (map ?g (api_keys d)) = map key_id (api_keys d)" by (simp add: f(1))
  have eq: "x = y" if "x \<in> set (api_keys d)" "y \<in> set (api_keys d)" "key_hash x = key_hash y \<or> key_id x = key_id y" for x y
    using ok that by (auto simp: keys_ok_def dest: distinct_key_eq)
  have "inj_on (\<lambda>k. key_hash (?g k)) (set (api_keys d))"
  proof (rule inj_onI)
    fix x y
    assume xy: "x \<in> set (api_keys d)" "y \<in> set (api_keys d)" and e: "key_hash (?g x) = key_hash (?g y)"
    show "x = y"
    proof (cases "key_id x = key_id y")
      case False
      with e consider "key_hash x = key_hash y" | "key_id x = kid" "key_id y \<noteq> kid" "key_hash (f x) = key_hash y"
        | "key_id y = kid" "key_id x \<noteq> kid" "key_hash (f y) = key_hash x"
        by (auto split: if_splits)
      then show ?thesis
      proof cases
        case 2
        then have "key_hash (f x) \<in> key_hash ` {k \<in> set (api_keys d). key_id k \<noteq> kid}" using xy by force
        with h [OF xy(1) 2(1)] 2 eq xy show ?thesis by auto
      next
        case 3
        then have "key_hash (f y) \<in> key_hash ` {k \<in> set (api_keys d). key_id k \<noteq> kid}" using xy by force
        with h [OF xy(2) 3(1)] 3 eq xy show ?thesis by auto
      qed (use eq xy in blast)
    qed (use eq xy in blast)
  qed
  moreover have "distinct (api_keys d)" using ok by (auto simp: keys_ok_def distinct_map)
  ultimately have "distinct (map key_hash (map ?g (api_keys d)))" by (simp add: distinct_map comp_def inj_on_def)
  with ok ids f(2) show ?thesis by (auto simp: keys_ok_def map_key_def simp del: map_map)
qed

section \<open>Every handler keeps the tables well formed\<close>

lemma stored_models_not_malformed [simp]: "serialize_allowed_models ms \<noteq> Some Malformed"
  by (cases ms) (simp_all add: serialize_allowed_models_def)

lemma new_key_row_fields:
  assumes "new_key_row sha uuid plain now p = Inr row"
  shows "key_id row = uuid" "key_hash row = sha plain" "is_active row" "allowed_models row \<noteq> Some Malformed"
    "key_expires_at row = normalize_expires_at (cd_expires_at p)"
  using assms by (auto simp: new_key_row_def Let_def)

lemma repo_create_Inr:
  assumes "repo_create row d = Inr d'" "keys_ok d" "allowed_models row \<noteq> Some Malformed"
  shows "keys_ok d'" "api_keys d' = api_keys d @ [row]" "get_by_id (key_id row) d' = Some row"
proof -
  from assms(1) have new: "key_id row \<notin> key_id ` set (api_keys d)" "key_hash row \<notin> key_hash ` set (api_keys d)"
    and d': "d' = d\<lparr>api_keys := api_keys d @ [row]\<rparr>"
    unfolding repo_create_def list_ex_iff by (simp_all split: if_splits) (metis imageE)+
  show "keys_ok d'" using new assms(2,3) by (simp add: keys_ok_def d')
  show "api_keys d' = api_keys d @ [row]" by (simp add: d')
  from new(1) have "find (\<lambda>k. key_id k = key_id row) (api_keys d) = None"
    unfolding find_None_iff by (metis image_eqI)
  then show "get_by_id (key_id row) d' = Some row" by (simp add: get_by_id_def d' find_append_none)
qed

lemma prepare_update_fields:
  assumes "prepare_update render now accounts kid p existing d = Inr (u, assigned, rows)"
  shows "ku_key_hash u = None" "ku_allowed_models u \<noteq> Some (Some Malformed)"
    "ku_is_active u = (case ud_is_active p of None \<Rightarrow> None | Some v \<Rightarrow> v)"
    "update_limit_rows now kid p d = Inr rows"
  using assms by (auto simp: prepare_update_def Let_def)

lemma keys_ok_apply_update:
  assumes "keys_ok d" "ku_key_hash u = None" "ku_allowed_models u \<noteq> Some (Some Malformed)"
  shows "keys_ok (map_key kid (apply_update u) d)"
  using assms by (intro keys_ok_map_key) (auto simp: keys_ok_def set_if_def split: option.splits)

lemma keys_ok_assign: "keys_ok d \<Longrightarrow> keys_ok (replace_account_assignments kid a d)"
  unfolding replace_account_assignments_def by (rule keys_ok_map_key) (auto simp: keys_ok_def)

text \<open>The tables an update writes, when its checks pass.\<close>

definition written :: "int list \<Rightarrow> string \<Rightarrow> key_update \<Rightarrow> string list option \<Rightarrow> api_key_limit list option \<Rightarrow> api_db \<Rightarrow> api_db" where
  "written ids kid u assigned rows d =
     (let d1 = map_key kid (apply_update u) d;
          d2 = (case assigned of None \<Rightarrow> d1 | Some a \<Rightarrow> replace_account_assignments kid a d1)
      in case rows of None \<Rightarrow> d2 | Some rs \<Rightarrow> upsert_limits ids kid rs d2)"

lemma written_keys:
  assumes "keys_ok d" "ku_key_hash u = None" "ku_allowed_models u \<noteq> Some (Some Malformed)"
  shows "keys_ok (written ids kid u assigned rows d)"
    and "get_by_id kid d = Some k \<Longrightarrow> \<exists>k'. get_by_id kid (written ids kid u assigned rows d) = Some k' \<and>
      key_hash k' = key_hash k \<and> is_active k' = set_if (ku_is_active u) (is_active k)"
proof -
  let ?d1 = "map_key kid (apply_update u) d"
  let ?d2 = "case assigned of None \<Rightarrow> ?d1 | Some a \<Rightarrow> replace_account_assignments kid a ?d1"
  have keys: "api_keys (written ids kid u assigned rows d) = api_keys ?d2"
    by (cases rows; cases assigned) (simp_all add: written_def Let_def)
  have "keys_ok ?d1" using assms by (rule keys_ok_apply_update)
  then have "keys_ok ?d2" by (cases assigned) (simp_all add: keys_ok_assign)
  then show "keys_ok (written ids kid u assigned rows d)" unfolding keys_ok_cong [OF keys] .
  show "\<exists>k'. get_by_id kid (written ids kid u assigned rows d) = Some k' \<and>
      key_hash k' = key_hash k \<and> is_active k' = set_if (ku_is_active u) (is_active k)" if "get_by_id kid d = Some k"
    unfolding get_by_id_cong [OF keys] replace_account_assignments_def using that assms(2)
    by (cases assigned) (simp_all add: get_by_id_map_key)
qed

lemma update_key_cases:
  assumes ok: "keys_ok d"
  obtains (missing) e where "get_by_id kid d = None" "update_key render now accounts ids kid p d = (Inl e, d, [])"
  | (rejected) e where "update_key render now accounts ids kid p d = (Inl e, d, [])"
  | (written) existing u assigned rows data where "get_by_id kid d = Some existing"
      "prepare_update render now accounts kid p existing d = Inr (u, assigned, rows)"
      "update_key render now accounts ids kid p d = (Inr data, written ids kid u assigned rows d, [key_hash existing])"
proof (cases "get_by_id kid d")
  case None
  then show thesis by (intro missing) (simp_all add: update_key_def)
next
  case (Some existing)
  show thesis
  proof (cases "prepare_update render now accounts kid p existing d")
    case (Inl e)
    with Some show thesis by (intro rejected) (simp add: update_key_def)
  next
    case (Inr r)
    then obtain u assigned rows where r: "prepare_update render now accounts kid p existing d = Inr (u, assigned, rows)"
      by (cases r) auto
    note f = prepare_update_fields [OF r]
    obtain k' where k': "get_by_id kid (written ids kid u assigned rows d) = Some k'" "key_hash k' = key_hash existing"
      using written_keys(2) [OF ok f(1,2) Some] by blast
    have "allowed_models k' \<noteq> Some Malformed"
      using written_keys(1) [OF ok f(1,2)] get_by_id_SomeD [OF k'(1)] by (auto simp: keys_ok_def)
    then obtain data where "to_api_key_data render (written ids kid u assigned rows d) k' = Inr data"
      by (rule to_api_key_data_ok)
    with Some r k' show thesis by (intro written) (simp_all add: update_key_def written_def Let_def)
  qed
qed

lemma regenerate_key_cases:
  assumes ok: "keys_ok d"
  obtains (failed) e where "regenerate_key sha render plain kid d = (Inl e, d, [])"
  | (replaced) k data f where "get_by_id kid d = Some k" "f = (\<lambda>k. k\<lparr>key_hash := sha plain, key_prefix := take 15 plain\<rparr>)"
      "\<forall>k \<in> set (api_keys d). key_hash k = sha plain \<longrightarrow> key_id k = kid"
      "regenerate_key sha render plain kid d = (Inr (data, plain), map_key kid f d, [key_hash k])"
      "keys_ok (map_key kid f d)" "get_by_id kid (map_key kid f d) = Some (f k)"
proof (cases "get_by_id kid d")
  case None
  then show thesis by (intro failed) (simp add: regenerate_key_def)
next
  case (Some k)
  let ?u = "unset_update\<lparr>ku_key_hash := Some (sha plain), ku_key_prefix := Some (take 15 plain)\<rparr>"
  let ?f = "\<lambda>k. k\<lparr>key_hash := sha plain, key_prefix := take 15 plain\<rparr>"
  have f: "apply_update ?u = ?f" by (simp add: fun_eq_iff apply_update_def unset_update_def)
  show thesis
  proof (cases "list_ex (\<lambda>k. key_hash k = sha plain \<and> key_id k \<noteq> kid) (api_keys d)")
    case True
    with Some show thesis by (intro failed) (simp add: regenerate_key_def repo_update_def)
  next
    case False
    then have free: "\<forall>k \<in> set (api_keys d). key_hash k = sha plain \<longrightarrow> key_id k = kid" by (auto simp: list_ex_iff)
    have ok': "keys_ok (map_key kid ?f d)"
      using free ok by (intro keys_ok_map_key) (auto simp: keys_ok_def)
    have k': "get_by_id kid (map_key kid ?f d) = Some (?f k)" using Some by (simp add: get_by_id_map_key)
    have "allowed_models (?f k) \<noteq> Some Malformed" using ok get_by_id_SomeD [OF Some] by (simp add: keys_ok_def)
    then obtain data where "to_api_key_data render (map_key kid ?f d) (?f k) = Inr data" by (rule to_api_key_data_ok)
    with Some False k' f have "regenerate_key sha render plain kid d = (Inr (data, plain), map_key kid ?f d, [key_hash k])"
      by (simp add: regenerate_key_def repo_update_def)
    with Some free ok' k' show thesis by (intro replaced [OF _ refl]) simp_all
  qed
qed

section \<open>Which keys are accepted\<close>

lemma lazy_reset_api_keys [simp]: "api_keys (snd (lazy_reset_expired_limits ls now d)) = api_keys d"
proof (induction ls arbitrary: d)
  case (Cons l ls)
  then show ?case by (simp add: reset_limit_def Let_def update_limits_def)
qed simp

text \<open>Validating accepts exactly the active, unexpired keys of the table.\<close>

lemma validate_key_iff:
  assumes ok: "keys_ok d"
  shows "(\<exists>data. fst (validate_key sha render now plain d) = Inr data \<and> akd_id data = kid) \<longleftrightarrow>
    plain \<noteq> [] \<and> (\<exists>k. get_by_hash (sha plain) d = Some k \<and> is_active k \<and> \<not> key_expired now k \<and> key_id k = kid)"
proof (cases "plain \<noteq> [] \<and> (\<exists>k. get_by_hash (sha plain) d = Some k \<and> is_active k \<and> \<not> key_expired now k)")
  case False
  then have "\<exists>e. fst (validate_key sha render now plain d) = Inl e"
    by (cases "plain = []"; cases "get_by_hash (sha plain) d") (auto simp: validate_key_def ensure_valid_api_key_row_def)
  then have a: "\<nexists>data. fst (validate_key sha render now plain d) = Inr data \<and> akd_id data = kid"
    by (metis sum.distinct(1))
  from False have b: "\<not> (plain \<noteq> [] \<and>
      (\<exists>k. get_by_hash (sha plain) d = Some k \<and> is_active k \<and> \<not> key_expired now k \<and> key_id k = kid))" by blast
  show ?thesis by (simp only: a b)
next
  case True
  then obtain k where k: "plain \<noteq> []" "get_by_hash (sha plain) d = Some k" "is_active k" "\<not> key_expired now k" by blast
  obtain b d' where l: "lazy_reset_expired_limits (get_limits_by_key (key_id k) d) now d = (b, d')" by fastforce
  then have same: "api_keys d' = api_keys d" by (metis lazy_reset_api_keys snd_conv)
  have h: "get_by_hash (sha plain) d' = Some k" unfolding get_by_hash_cong [OF same] by (rule k(2))
  have "allowed_models k \<noteq> Some Malformed" using ok get_by_hash_SomeD [OF k(2)] by (auto simp: keys_ok_def)
  then obtain data where data: "to_api_key_data render d' k = Inr data" "akd_id data = key_id k"
    by (rule to_api_key_data_ok)
  have "fst (validate_key sha render now plain d) = Inr data"
    using k l h data(1) by (simp add: validate_key_def ensure_valid_api_key_row_def)
  with k data(2) show ?thesis by simp
qed

lemma validate_key_unknown:
  "get_by_hash (sha plain) d = None \<Longrightarrow> \<exists>m. validate_key sha render now plain d = (Inl (ApiKeyInvalidError m), d)"
  by (simp add: validate_key_def ensure_valid_api_key_row_def)

lemma get_by_hash_rehash:
  assumes ok: "keys_ok d" "keys_ok (map_key kid f d)" and k: "get_by_id kid d = Some k"
    and f: "f = (\<lambda>k. k\<lparr>key_hash := h, key_prefix := pfx\<rparr>)"
  shows "get_by_hash h (map_key kid f d) = Some (f k)"
    and "key_hash k \<noteq> h \<Longrightarrow> get_by_hash (key_hash k) (map_key kid f d) = None"
    and "h' \<noteq> h \<Longrightarrow> h' \<noteq> key_hash k \<Longrightarrow> get_by_hash h' (map_key kid f d) = get_by_hash h' d"
proof -
  have kd: "k \<in> set (api_keys d)" "key_id k = kid" using get_by_id_SomeD [OF k] by auto
  have "f k \<in> set (api_keys (map_key kid f d))" using kd by (auto simp: map_key_def)
  from get_by_hash_member [OF ok(2) this] show "get_by_hash h (map_key kid f d) = Some (f k)" by (simp add: f)
  have eq: "x = k" if "x \<in> set (api_keys d)" "key_hash x = key_hash k \<or> key_id x = kid" for x
    using ok(1) that kd by (auto simp: keys_ok_def dest: distinct_key_eq)
  show "key_hash k \<noteq> h \<Longrightarrow> get_by_hash (key_hash k) (map_key kid f d) = None"
    unfolding get_by_hash_None_iff using eq by (auto simp: map_key_def f) (metis kd(2))
  assume h': "h' \<noteq> h" "h' \<noteq> key_hash k"
  show "get_by_hash h' (map_key kid f d) = get_by_hash h' d"
  proof (cases "get_by_hash h' d")
    case None
    then have "h' \<notin> key_hash ` set (api_keys d)" by (simp only: get_by_hash_None_iff not_False_eq_True)
    with h' have "get_by_hash h' (map_key kid f d) = None"
      unfolding get_by_hash_None_iff by (auto simp: map_key_def f image_iff)
    with None show ?thesis by simp
  next
    case (Some x)
    then have x: "x \<in> set (api_keys d)" "key_hash x = h'" by (auto dest: get_by_hash_SomeD)
    with h' eq have "key_id x \<noteq> kid" by blast
    with x(1) have "x \<in> set (api_keys (map_key kid f d))" by (auto simp: map_key_def image_iff intro: bexI [of _ x])
    from get_by_hash_member [OF ok(2) this] Some x(2) show ?thesis by simp
  qed
qed

text \<open>
  C10. Regenerating a key replaces it: the old plain key is refused from then on and its hash is the
  one dropped from the cache, the new plain key identifies the same row exactly when that row is active
  and unexpired, and every other key is looked up as before.
\<close>

theorem regenerate_key_replaces:
  assumes ok: "keys_ok d" and k: "get_by_id kid d = Some k" "key_hash k = sha old" "sha plain \<noteq> sha old" "plain \<noteq> []"
    and r: "regenerate_key sha render plain kid d = (Inr r, d', dropped)"
  shows "(\<exists>m. validate_key sha render now old d' = (Inl (ApiKeyInvalidError m), d')) \<and> dropped = [sha old] \<and>
    ((\<exists>data. fst (validate_key sha render now plain d') = Inr data \<and> akd_id data = kid) \<longleftrightarrow>
       is_active k \<and> \<not> key_expired now k) \<and>
    (\<forall>h. h \<noteq> sha plain \<and> h \<noteq> sha old \<longrightarrow> get_by_hash h d' = get_by_hash h d) \<and> keys_ok d'"
proof (cases rule: regenerate_key_cases [OF ok, of sha render plain kid, case_names failed replaced])
  case (failed e)
  with r show ?thesis by simp
next
  case (replaced k2 data f)
  with k r have eq: "k2 = k" "d' = map_key kid f d" "dropped = [sha old]" by simp_all
  note h = get_by_hash_rehash [OF ok replaced(5) k(1) replaced(2)]
  have "\<exists>m. validate_key sha render now old d' = (Inl (ApiKeyInvalidError m), d')"
    using h(2) k(2,3) by (intro validate_key_unknown) (simp add: eq)
  moreover have "key_expired now (f k) = key_expired now k" "is_active (f k) = is_active k" "key_id (f k) = kid"
    using get_by_id_SomeD [OF k(1)] by (simp_all add: replaced(2) key_expired_def)
  ultimately show ?thesis using h(1,3) k(2,4) replaced(5) by (auto simp: validate_key_iff eq)
qed

definition demo_key :: api_key where
  "demo_key = \<lparr>key_id = ''k1'', key_name = ''dev'', key_hash = ''sk-old'', key_prefix = ''sk-old'', allowed_models = None,
     enforced_model = None, enforced_reasoning_effort = None, enforced_service_tier = None, enforced_model_tiers = None,
     account_assignment_scope_enabled = False, assigned_account_ids = [], key_expires_at = None, is_active = True,
     created_at = 0, last_used_at = None\<rparr>"

definition demo_limit :: "int \<Rightarrow> limit_type \<Rightarrow> int \<Rightarrow> api_key_limit" where
  "demo_limit i ty used = \<lparr>limit_id = i, lim_api_key_id = ''k1'', limit_type = ty, limit_window = DAILY, max_value = 100,
     current_value = used, model_filter = None, lim_reset_at = 1000\<rparr>"

definition demo_db :: api_db where
  "demo_db = \<lparr>api_keys = [demo_key], api_key_limits = [demo_limit 1 TOTAL_TOKENS 40, demo_limit 2 COST_USD 7],
     reservations = []\<rparr>"

lemma demo_db_ok: "keys_ok demo_db"
  by (simp add: keys_ok_def demo_db_def demo_key_def)

theorem regenerate_key_replaces_witness:
  "\<exists>m. validate_key (\<lambda>s. s) (\<lambda>v. []) 5 ''sk-old'' (fst (snd (regenerate_key (\<lambda>s. s) (\<lambda>v. []) ''sk-new'' ''k1'' demo_db))) =
     (Inl (ApiKeyInvalidError m), fst (snd (regenerate_key (\<lambda>s. s) (\<lambda>v. []) ''sk-new'' ''k1'' demo_db)))"
proof -
  have k: "get_by_id ''k1'' demo_db = Some demo_key" by (simp add: get_by_id_def demo_db_def demo_key_def)
  have "\<not> isl (fst (regenerate_key (\<lambda>s. s) (\<lambda>v. []) ''sk-new'' ''k1'' demo_db))" by code_simp
  then obtain r where "fst (regenerate_key (\<lambda>s. s) (\<lambda>v. []) ''sk-new'' ''k1'' demo_db) = Inr r"
    by (metis isl_def old.sum.exhaust)
  then have r: "regenerate_key (\<lambda>s. s) (\<lambda>v. []) ''sk-new'' ''k1'' demo_db =
      (Inr r, fst (snd (regenerate_key (\<lambda>s. s) (\<lambda>v. []) ''sk-new'' ''k1'' demo_db)),
       snd (snd (regenerate_key (\<lambda>s. s) (\<lambda>v. []) ''sk-new'' ''k1'' demo_db)))" by (metis prod.collapse)
  show ?thesis
    using regenerate_key_replaces [OF demo_db_ok k, of "\<lambda>s. s" "''sk-old''" "''sk-new''" "\<lambda>v. []", OF _ _ _ r]
    by (simp add: demo_key_def)
qed

section \<open>Updating the limits of a key\<close>

lemma dict_by_distinct:
  "distinct (map f xs) \<Longrightarrow> dict_by f xs k = Some x \<longleftrightarrow> x \<in> set xs \<and> f x = k"
proof -
  assume d: "distinct (map f xs)"
  then have "distinct (map fst (rev (map (\<lambda>x. (f x, x)) xs)))" by (simp add: rev_map [symmetric] comp_def)
  from map_of_eq_Some_iff [OF this] show ?thesis by (auto simp: dict_by_def)
qed

lemma dict_by_None: "dict_by f xs k = None \<longleftrightarrow> k \<notin> f ` set xs"
  by (simp add: dict_by_def map_of_eq_None_iff image_image)

lemma limit_values_inj:
  "limit_type_value s = limit_type_value t \<longleftrightarrow> s = t" "limit_window_value v = limit_window_value w \<longleftrightarrow> v = w"
  by (cases s; cases t; simp add: limit_type_value_def) (cases v; cases w; simp add: limit_window_value_def)

lemma limit_identity_iff: "limit_identity_from_row l = limit_identity_from_row m \<longleftrightarrow> limit_key l = limit_key m"
  by (simp add: limit_identity_from_row_def limit_key_def limit_values_inj)

lemma limit_input_to_row_Inr:
  assumes "limit_input_to_row li kid now current reset = Inr l"
  shows "limit_identity_from_row l = limit_identity_from_input li" "max_value l = li_max_value li"
    "current_value l = current" "lim_reset_at l = (case reset of None \<Rightarrow> next_reset now (limit_window l) | Some r \<Rightarrow> r)"
  using assms
  by (auto simp: limit_input_to_row_def LimitType_def LimitWindow_def limit_identity_from_row_def
      limit_identity_from_input_def dest!: find_SomeD split: if_splits option.splits)

lemma collect_sum_Inr:
  "collect_sum f xs = Inr ys \<longleftrightarrow> list_all2 (\<lambda>x y. f x = Inr y) xs ys"
  by (induction xs arbitrary: ys) (auto simp: list_all2_Cons1)

definition overwrite :: "api_key_limit list \<Rightarrow> api_key_limit \<Rightarrow> api_key_limit" where
  "overwrite rows l = (case dict_by limit_key rows (limit_key l) of None \<Rightarrow> l
     | Some r \<Rightarrow> l\<lparr>max_value := max_value r, current_value := current_value r, lim_reset_at := lim_reset_at r\<rparr>)"

lemma overwrite_simps [simp]:
  "limit_key (overwrite rows l) = limit_key l" "lim_api_key_id (overwrite rows l) = lim_api_key_id l"
  "limit_id (overwrite rows l) = limit_id l"
proof -
  have "limit_key (l\<lparr>max_value := m, current_value := c, lim_reset_at := t\<rparr>) = limit_key l" for m c t
    by (simp add: limit_key_def)
  then show "limit_key (overwrite rows l) = limit_key l" "lim_api_key_id (overwrite rows l) = lim_api_key_id l"
    "limit_id (overwrite rows l) = limit_id l"
    by (cases "dict_by limit_key rows (limit_key l)"; simp add: overwrite_def)+
qed

lemma limit_key_inserted [simp]: "limit_key (l\<lparr>limit_id := i, lim_api_key_id := kid\<rparr>) = limit_key l"
  by (simp add: limit_key_def)

lemma overwrite_row:
  assumes "distinct (map limit_key rows)" "r \<in> set rows" "limit_key l = limit_key r"
  shows "max_value (overwrite rows l) = max_value r \<and> current_value (overwrite rows l) = current_value r \<and>
    lim_reset_at (overwrite rows l) = lim_reset_at r"
proof -
  have "dict_by limit_key rows (limit_key l) = Some r" using assms by (simp add: dict_by_distinct)
  then show ?thesis by (simp add: overwrite_def)
qed

abbreviation new_rows :: "string \<Rightarrow> api_key_limit list \<Rightarrow> api_db \<Rightarrow> api_key_limit list" where
  "new_rows kid rows d \<equiv> filter (\<lambda>r. limit_key r \<notin> limit_key ` set (get_limits_by_key kid d)) rows"

lemma limits_upsert:
  assumes "distinct (map limit_key (get_limits_by_key kid d))"
  shows "api_key_limits (upsert_limits ids kid rows d) =
    filter (\<lambda>l. lim_api_key_id l = kid \<longrightarrow> limit_key l \<in> limit_key ` set rows)
      (map (\<lambda>l. if lim_api_key_id l = kid then overwrite rows l else l) (api_key_limits d)) @
    map (\<lambda>(i, l). l\<lparr>limit_id := i, lim_api_key_id := kid\<rparr>) (zip ids (new_rows kid rows d))"
proof -
  have own: "dict_by limit_key (get_limits_by_key kid d) (limit_key l) = Some l"
    if "l \<in> set (api_key_limits d)" "lim_api_key_id l = kid" for l
    using that by (simp add: dict_by_distinct [OF assms]) (simp add: get_limits_by_key_def)
  have upd: "map (\<lambda>l. if lim_api_key_id l = kid \<and> dict_by limit_key (get_limits_by_key kid d) (limit_key l) = Some l
       then overwrite rows l else l) (api_key_limits d) =
     map (\<lambda>l. if lim_api_key_id l = kid then overwrite rows l else l) (api_key_limits d)"
    by (rule map_cong) (auto simp: own)
  have ins: "filter (\<lambda>l. lim_api_key_id l = kid \<longrightarrow> limit_key l \<in> limit_key ` set rows)
      (map (\<lambda>(i, l). l\<lparr>limit_id := i, lim_api_key_id := kid\<rparr>) (zip ids (new_rows kid rows d))) =
     map (\<lambda>(i, l). l\<lparr>limit_id := i, lim_api_key_id := kid\<rparr>) (zip ids (new_rows kid rows d))"
    by (rule filter_True) (auto dest!: set_zip_rightD)
  show ?thesis
    unfolding upsert_limits_def Let_def delete_limits_def insert_limits_def update_limits_def overwrite_def
    by (simp add: upd [unfolded overwrite_def] ins dict_by_None)
qed

lemma upsert_other_keys:
  assumes "distinct (map limit_key (get_limits_by_key kid d))" "k \<noteq> kid"
  shows "get_limits_by_key k (upsert_limits ids kid rows d) = get_limits_by_key k d"
proof -
  have "filter (\<lambda>l. lim_api_key_id l = k) (filter (\<lambda>l. lim_api_key_id l = kid \<longrightarrow> limit_key l \<in> K)
      (map (\<lambda>l. if lim_api_key_id l = kid then overwrite rows l else l) ls)) = filter (\<lambda>l. lim_api_key_id l = k) ls" for K ls
    using assms(2) by (induction ls) auto
  moreover have "filter (\<lambda>l. lim_api_key_id l = k) (map (\<lambda>(i, l). l\<lparr>limit_id := i, lim_api_key_id := kid\<rparr>) xs) = []" for xs
    using assms(2) by (induction xs) auto
  ultimately show ?thesis unfolding get_limits_by_key_def limits_upsert [OF assms(1)] filter_append by simp
qed

lemma upsert_own_limits:
  assumes "distinct (map limit_key (get_limits_by_key kid d))"
  shows "get_limits_by_key kid (upsert_limits ids kid rows d) =
    map (overwrite rows) (filter (\<lambda>l. limit_key l \<in> limit_key ` set rows) (get_limits_by_key kid d)) @
    map (\<lambda>(i, l). l\<lparr>limit_id := i, lim_api_key_id := kid\<rparr>) (zip ids (new_rows kid rows d))"
proof -
  have "filter (\<lambda>l. lim_api_key_id l = kid) (filter (\<lambda>l. lim_api_key_id l = kid \<longrightarrow> limit_key l \<in> K)
      (map (\<lambda>l. if lim_api_key_id l = kid then overwrite rows l else l) ls)) =
     map (overwrite rows) (filter (\<lambda>l. limit_key l \<in> K) (filter (\<lambda>l. lim_api_key_id l = kid) ls))" for K ls
    by (induction ls) auto
  moreover have "filter (\<lambda>l. lim_api_key_id l = kid) (map (\<lambda>(i, l). l\<lparr>limit_id := i, lim_api_key_id := kid\<rparr>) xs) =
     map (\<lambda>(i, l). l\<lparr>limit_id := i, lim_api_key_id := kid\<rparr>) xs" for xs
    by (induction xs) auto
  ultimately show ?thesis unfolding get_limits_by_key_def limits_upsert [OF assms(1)] filter_append by simp
qed

lemma set_snd_ex: "r \<in> set (map snd xs) \<Longrightarrow> \<exists>i. (i, r) \<in> set xs"
  by auto

text \<open>After the upsert the key has one limit for each submitted row, with that row's values.\<close>

lemma upsert_limits_spec:
  assumes own: "distinct (map limit_key (get_limits_by_key kid d))" and rows: "distinct (map limit_key rows)"
    and ids: "length rows \<le> length ids"
  defines "after \<equiv> get_limits_by_key kid (upsert_limits ids kid rows d)"
  shows "r \<in> set rows \<Longrightarrow> \<exists>l \<in> set after. limit_key l = limit_key r \<and> max_value l = max_value r \<and>
      current_value l = current_value r \<and> lim_reset_at l = lim_reset_at r \<and>
      (\<forall>old \<in> set (get_limits_by_key kid d). limit_key old = limit_key r \<longrightarrow> limit_id l = limit_id old)"
    and "l \<in> set after \<Longrightarrow> limit_key l \<in> limit_key ` set rows"
proof -
  let ?new = "map (\<lambda>(i, l). l\<lparr>limit_id := i, lim_api_key_id := kid\<rparr>) (zip ids (new_rows kid rows d))"
  have len: "length (new_rows kid rows d) \<le> length ids" using ids by (meson length_filter_le order.trans)
  note after = after_def upsert_own_limits [OF own] set_append
  show "limit_key l \<in> limit_key ` set rows" if "l \<in> set after"
  proof -
    from that consider x where "l = overwrite rows x" "limit_key x \<in> limit_key ` set rows"
      | i x where "l = x\<lparr>limit_id := i, lim_api_key_id := kid\<rparr>" "(i, x) \<in> set (zip ids (new_rows kid rows d))"
      unfolding after by force
    then show ?thesis
    proof cases
      case 2
      then have "x \<in> set rows" by (auto dest: set_zip_rightD)
      with 2(1) show ?thesis by simp
    qed simp
  qed
  assume r: "r \<in> set rows"
  show "\<exists>l \<in> set after. limit_key l = limit_key r \<and> max_value l = max_value r \<and>
      current_value l = current_value r \<and> lim_reset_at l = lim_reset_at r \<and>
      (\<forall>old \<in> set (get_limits_by_key kid d). limit_key old = limit_key r \<longrightarrow> limit_id l = limit_id old)"
  proof (cases "limit_key r \<in> limit_key ` set (get_limits_by_key kid d)")
    case True
    then obtain old where old: "old \<in> set (get_limits_by_key kid d)" "limit_key old = limit_key r" by auto
    have unique: "\<forall>x \<in> set (get_limits_by_key kid d). limit_key x = limit_key r \<longrightarrow> x = old"
      using old distinct_key_eq [OF own] by metis
    have "limit_key old \<in> limit_key ` set rows" using r old(2) by simp
    with old(1) have "overwrite rows old \<in> set after" unfolding after by simp
    with overwrite_row [OF rows r old(2)] old(2) unique show ?thesis
      by (intro bexI [of _ "overwrite rows old"]) simp_all
  next
    case False
    with r have "r \<in> set (new_rows kid rows d)" by simp
    then have "r \<in> set (map snd (zip ids (new_rows kid rows d)))" using len by (simp only: map_snd_zip_take min_absorb2 take_all)
    then have "\<exists>i. (i, r) \<in> set (zip ids (new_rows kid rows d))" by (rule set_snd_ex)
    then obtain i where "(i, r) \<in> set (zip ids (new_rows kid rows d))" ..
    then have "r\<lparr>limit_id := i, lim_api_key_id := kid\<rparr> \<in> set after" unfolding after by force
    moreover have "\<forall>old \<in> set (get_limits_by_key kid d). limit_key old \<noteq> limit_key r" using False by (metis image_eqI)
    ultimately show ?thesis by (intro bexI [of _ "r\<lparr>limit_id := i, lim_api_key_id := kid\<rparr>"]) simp_all
  qed
qed

lemma list_all2_in: "list_all2 P xs ys \<Longrightarrow> x \<in> set xs \<Longrightarrow> \<exists>y \<in> set ys. P x y"
  by (induction rule: list_all2_induct) auto

lemma build_limit_rows_spec:
  assumes b: "build_limit_rows_for_update kid now ls existing reset = Inr rows"
    and own: "distinct (map limit_key existing)"
  shows "distinct (map limit_key rows)" "length rows = length ls"
    "limit_identity_from_row ` set rows = limit_identity_from_input ` set ls"
    "li \<in> set ls \<Longrightarrow> \<exists>r \<in> set rows. limit_identity_from_row r = limit_identity_from_input li \<and> max_value r = li_max_value li \<and>
      current_value r = (if reset then 0 else case find (\<lambda>x. limit_identity_from_row x = limit_identity_from_input li) existing of
        None \<Rightarrow> 0 | Some old \<Rightarrow> current_value old)"
proof -
  let ?old = "\<lambda>li. dict_by limit_identity_from_row existing (limit_identity_from_input li)"
  let ?row = "\<lambda>li. case ?old li of None \<Rightarrow> limit_input_to_row li kid now 0 None
    | Some m \<Rightarrow> if reset then limit_input_to_row li kid now 0 None
        else limit_input_to_row li kid now (current_value m) (Some (lim_reset_at m))"
  from b have d: "distinct (map limit_identity_from_input ls)" and c: "list_all2 (\<lambda>li r. ?row li = Inr r) ls rows"
    by (auto simp: build_limit_rows_for_update_def Let_def collect_sum_Inr split: if_splits)
  have row: "limit_identity_from_row r = limit_identity_from_input li \<and> max_value r = li_max_value li \<and>
      current_value r = (if reset then 0 else case ?old li of None \<Rightarrow> 0 | Some m \<Rightarrow> current_value m)"
    if "?row li = Inr r" for li r
    using that by (cases "?old li") (auto dest: limit_input_to_row_Inr split: if_splits)
  show len: "length rows = length ls" using c by (simp add: list_all2_lengthD)
  have ids: "map limit_identity_from_row rows = map limit_identity_from_input ls"
    using c row by (auto intro!: nth_equalityI simp: len list_all2_conv_all_nth)
  show "limit_identity_from_row ` set rows = limit_identity_from_input ` set ls"
    using ids by (metis list.set_map)
  have "distinct (map limit_identity_from_row rows)" using ids d by simp
  then show "distinct (map limit_key rows)" by (auto simp: distinct_map inj_on_def limit_identity_iff)
  have own': "distinct (map limit_identity_from_row existing)"
    using own by (auto simp: distinct_map inj_on_def limit_identity_iff)
  have find: "?old li = find (\<lambda>x. limit_identity_from_row x = limit_identity_from_input li) existing" for li
  proof (cases "find (\<lambda>x. limit_identity_from_row x = limit_identity_from_input li) existing")
    case None
    then have "limit_identity_from_input li \<notin> limit_identity_from_row ` set existing" by (force simp: find_None_iff)
    with None show ?thesis by (simp add: dict_by_None [THEN iffD2])
  next
    case (Some old)
    with find_SomeD [OF this] show ?thesis by (simp add: dict_by_distinct [OF own'])
  qed
  assume "li \<in> set ls"
  from list_all2_in [OF c this] obtain r where "r \<in> set rows" "?row li = Inr r" ..
  with row [OF this(2)] show "\<exists>r \<in> set rows. limit_identity_from_row r = limit_identity_from_input li \<and> max_value r = li_max_value li \<and>
      current_value r = (if reset then 0 else case find (\<lambda>x. limit_identity_from_row x = limit_identity_from_input li) existing of
        None \<Rightarrow> 0 | Some old \<Rightarrow> current_value old)"
    unfolding find by blast
qed

lemma map_sum_id_Inr [simp]: "map_sum id f r = Inr y \<longleftrightarrow> (\<exists>x. r = Inr x \<and> y = f x)"
  by (cases r) auto

text \<open>
  C8. Replacing the limit rules of a key: each submitted rule gives one limit with its ceiling; a limit
  the key already had goes on from its usage and keeps its row, so that open reservations still
  refer to it, unless the usage is reset; a new one starts at zero; no other limit of the key
  survives, and the limits of the other keys are untouched.
\<close>

theorem update_key_limits:
  assumes ok: "keys_ok d" and own: "distinct (map limit_key (get_limits_by_key kid d))"
    and p: "ud_limits p = Some (Some ls)" and ids: "length ls \<le> length ids"
    and u: "update_key render now accounts ids kid p d = (Inr data, d', dropped)"
  shows "(\<forall>li \<in> set ls. \<exists>l \<in> set (get_limits_by_key kid d'). limit_identity_from_row l = limit_identity_from_input li \<and>
      max_value l = li_max_value li \<and>
      (case find (\<lambda>x. limit_identity_from_row x = limit_identity_from_input li) (get_limits_by_key kid d) of
         None \<Rightarrow> current_value l = 0
       | Some old \<Rightarrow> limit_id l = limit_id old \<and> current_value l = (if ud_reset_usage p then 0 else current_value old))) \<and>
    limit_identity_from_row ` set (get_limits_by_key kid d') = limit_identity_from_input ` set ls \<and>
    (\<forall>k. k \<noteq> kid \<longrightarrow> get_limits_by_key k d' = get_limits_by_key k d)"
proof (cases rule: update_key_cases [OF ok, of kid render now accounts ids p, case_names missing rejected written])
  case (written existing u assigned rows data')
  let ?d2 = "case assigned of None \<Rightarrow> map_key kid (apply_update u) d
    | Some a \<Rightarrow> replace_account_assignments kid a (map_key kid (apply_update u) d)"
  have lims: "get_limits_by_key k ?d2 = get_limits_by_key k d" for k by (cases assigned) simp_all
  from prepare_update_fields(4) [OF written(2)] p obtain rs where rs: "rows = Some rs"
    "build_limit_rows_for_update kid now ls (get_limits_by_key kid d) (ud_reset_usage p) = Inr rs"
    by (auto simp: update_limit_rows_def)
  note b = build_limit_rows_spec [OF rs(2) own]
  have d': "d' = upsert_limits ids kid rs ?d2" using u written(3) rs(1) by (simp add: written_def Let_def)
  have own2: "distinct (map limit_key (get_limits_by_key kid ?d2))" using own by (simp only: lims)
  have len: "length rs \<le> length ids" using b(2) ids by simp
  note s = upsert_limits_spec [OF own2 b(1) len, folded d', unfolded lims]
  have "\<exists>l \<in> set (get_limits_by_key kid d'). limit_identity_from_row l = limit_identity_from_input li \<and>
      max_value l = li_max_value li \<and>
      (case find (\<lambda>x. limit_identity_from_row x = limit_identity_from_input li) (get_limits_by_key kid d) of
         None \<Rightarrow> current_value l = 0
       | Some old \<Rightarrow> limit_id l = limit_id old \<and> current_value l = (if ud_reset_usage p then 0 else current_value old))"
    if li: "li \<in> set ls" for li
  proof -
    let ?old = "find (\<lambda>x. limit_identity_from_row x = limit_identity_from_input li) (get_limits_by_key kid d)"
    from b(4) [OF li] obtain r where r: "r \<in> set rs" "limit_identity_from_row r = limit_identity_from_input li"
      "max_value r = li_max_value li"
      "current_value r = (if ud_reset_usage p then 0 else case ?old of None \<Rightarrow> 0 | Some old \<Rightarrow> current_value old)"
      by blast
    from s(1) [OF r(1)] obtain l where l: "l \<in> set (get_limits_by_key kid d')" "limit_key l = limit_key r"
      "max_value l = max_value r" "current_value l = current_value r"
      "\<forall>old \<in> set (get_limits_by_key kid d). limit_key old = limit_key r \<longrightarrow> limit_id l = limit_id old"
      by blast
    from l(2) r(2) have "limit_identity_from_row l = limit_identity_from_input li" by (metis limit_identity_iff)
    moreover have "limit_id l = limit_id old" if "?old = Some old" for old
      using find_SomeD [OF that] l(5) r(2) by (metis limit_identity_iff)
    ultimately show ?thesis using l(1,3,4) r(3,4) by (intro bexI [OF _ l(1)]) (cases ?old; simp)
  qed
  moreover have "limit_identity_from_row ` set (get_limits_by_key kid d') = limit_identity_from_row ` set rs"
  proof -
    have "\<forall>r \<in> set rs. \<exists>l \<in> set (get_limits_by_key kid d'). limit_key r = limit_key l" using s(1) by metis
    with s(2) show ?thesis by (auto simp: image_iff limit_identity_iff)
  qed
  moreover have "get_limits_by_key k d' = get_limits_by_key k d" if "k \<noteq> kid" for k
    using upsert_other_keys [OF own2 that] by (simp only: d' lims)
  ultimately show ?thesis unfolding b(3) by blast
qed (use u in simp_all)

theorem update_key_limits_witness:
  "let p = \<lparr>ud_name = None, ud_allowed_models = None, ud_enforced_service_tier = None, ud_enforced_model_tiers = None,
       ud_expires_at = None, ud_is_active = None, ud_assigned_account_ids = None,
       ud_limits = Some (Some [\<lparr>li_limit_type = ''total_tokens'', li_limit_window = ''daily'', li_max_value = 500, li_model_filter = None\<rparr>]),
       ud_reset_usage = False\<rparr>;
     d' = fst (snd (update_key (\<lambda>v. []) 5 [] [9] ''k1'' p demo_db))
   in \<exists>l \<in> set (get_limits_by_key ''k1'' d'). limit_id l = 1 \<and> max_value l = 500 \<and> current_value l = 40"
proof -
  let ?li = "\<lparr>li_limit_type = ''total_tokens'', li_limit_window = ''daily'', li_max_value = 500, li_model_filter = None\<rparr>"
  let ?p = "\<lparr>ud_name = None, ud_allowed_models = None, ud_enforced_service_tier = None, ud_enforced_model_tiers = None,
       ud_expires_at = None, ud_is_active = None, ud_assigned_account_ids = None,
       ud_limits = Some (Some [?li]), ud_reset_usage = False\<rparr>"
  let ?r = "update_key (\<lambda>v. []) 5 [] [9] ''k1'' ?p demo_db"
  have own: "distinct (map limit_key (get_limits_by_key ''k1'' demo_db))" by code_simp
  have "\<not> isl (fst ?r)" by code_simp
  then obtain data where "fst ?r = Inr data" by (metis isl_def old.sum.exhaust)
  then have r: "?r = (Inr data, fst (snd ?r), snd (snd ?r))" by (metis prod.collapse)
  have old: "find (\<lambda>x. limit_identity_from_row x = limit_identity_from_input ?li) (get_limits_by_key ''k1'' demo_db) =
      Some (demo_limit 1 TOTAL_TOKENS 40)" by code_simp
  have "\<exists>l \<in> set (get_limits_by_key ''k1'' (fst (snd ?r))). max_value l = 500 \<and> limit_id l = limit_id (demo_limit 1 TOTAL_TOKENS 40) \<and>
      current_value l = current_value (demo_limit 1 TOTAL_TOKENS 40)"
    using update_key_limits [OF demo_db_ok own _ _ r, of "[?li]"] old by auto
  then show ?thesis by (auto simp: Let_def demo_limit_def)
qed

text \<open>
  C9. An update is all or nothing: when it fails, for whatever reason, the tables are those before
  the call and nothing is dropped from the cache; when it succeeds, the tables are well formed
  again, exactly the hash of the key is dropped, and a key switched off is refused from then on.
\<close>

theorem update_key_atomic:
  assumes ok: "keys_ok d" and u: "update_key render now accounts ids kid p d = (res, d', dropped)"
  shows "case res of
      Inl e \<Rightarrow> d' = d \<and> dropped = []
    | Inr data \<Rightarrow> keys_ok d' \<and> (\<exists>k. get_by_id kid d = Some k \<and> dropped = [key_hash k] \<and>
        (ud_is_active p = Some (Some False) \<longrightarrow> sha plain = key_hash k \<longrightarrow>
           (\<exists>e. fst (validate_key sha render t plain d') = Inl e)))"
proof (cases rule: update_key_cases [OF ok, of kid render now accounts ids p, case_names missing rejected written])
  case (written k u' assigned rows data)
  note f = prepare_update_fields [OF written(2)]
  note w = written_keys [where ids = ids and kid = kid and assigned = assigned and rows = rows, OF ok f(1,2)]
  from u written(3) have d': "res = Inr data" "d' = written ids kid u' assigned rows d" "dropped = [key_hash k]" by simp_all
  have "\<exists>e. fst (validate_key sha render t plain d') = Inl e"
    if off: "ud_is_active p = Some (Some False)" and h: "sha plain = key_hash k"
  proof -
    from w(2) [OF written(1)] off f(3) obtain k' where k': "get_by_id kid d' = Some k'" "key_hash k' = key_hash k" "\<not> is_active k'"
      by (auto simp: d'(2))
    have "get_by_hash (sha plain) d' = Some k'"
      using get_by_hash_member [of d' k'] w(1) get_by_id_SomeD [OF k'(1)] k'(2) h by (simp add: d'(2))
    with k'(3) have "\<nexists>x. fst (validate_key sha render t plain d') = Inr x \<and> akd_id x = kid'" for kid'
      using validate_key_iff [of d' sha render t plain kid'] w(1) by (simp add: d'(2))
    then show ?thesis by (cases "fst (validate_key sha render t plain d')") blast+
  qed
  with w(1) written(1) d' show ?thesis by simp
qed (use u in simp_all)

theorem update_key_atomic_witness:
  "fst (snd (update_key (\<lambda>v. []) 5 [] [] ''k1'' \<lparr>ud_name = Some (Some ''  ''), ud_allowed_models = None,
     ud_enforced_service_tier = None, ud_enforced_model_tiers = None, ud_expires_at = None, ud_is_active = None,
     ud_assigned_account_ids = None, ud_limits = Some None, ud_reset_usage = True\<rparr> demo_db)) = demo_db"
proof -
  let ?r = "update_key (\<lambda>v. []) 5 [] [] ''k1'' \<lparr>ud_name = Some (Some ''  ''), ud_allowed_models = None,
     ud_enforced_service_tier = None, ud_enforced_model_tiers = None, ud_expires_at = None, ud_is_active = None,
     ud_assigned_account_ids = None, ud_limits = Some None, ud_reset_usage = True\<rparr> demo_db"
  have "fst ?r = Inl (ApiKeyValueError ''API key name is required'')" by code_simp
  then have "?r = (Inl (ApiKeyValueError ''API key name is required''), fst (snd ?r), snd (snd ?r))" by (metis prod.collapse)
  from update_key_atomic [OF demo_db_ok this] show ?thesis by simp
qed

section \<open>Creating a key\<close>

lemma collect_sum_isl: "isl (collect_sum f xs) \<longleftrightarrow> (\<exists>x \<in> set xs. isl (f x))"
proof (induction xs)
  case (Cons x xs)
  then show ?case by (cases "f x"; cases "collect_sum f xs") auto
qed simp

lemma limits_replaced:
  "get_limits_by_key kid (replace_limits ids kid rows d) = map (\<lambda>(i, l). l\<lparr>limit_id := i, lim_api_key_id := kid\<rparr>) (zip ids rows)"
proof -
  have "filter (\<lambda>l. lim_api_key_id l = kid) (map (\<lambda>(i, l). l\<lparr>limit_id := i, lim_api_key_id := kid\<rparr>) xs) =
     map (\<lambda>(i, l). l\<lparr>limit_id := i, lim_api_key_id := kid\<rparr>) xs" for xs
    by (induction xs) auto
  then show ?thesis by (simp add: get_limits_by_key_def replace_limits_def insert_limits_def delete_limits_def Let_def)
qed

lemma created_limits:
  assumes "collect_sum (\<lambda>li. limit_input_to_row li kid now 0 None) ls = Inr rows" "length ls \<le> length ids"
  shows "map (\<lambda>l. (limit_identity_from_row l, max_value l, current_value l)) (get_limits_by_key kid (replace_limits ids kid rows d)) =
    map (\<lambda>li. (limit_identity_from_input li, li_max_value li, 0)) ls"
proof -
  from assms(1) have c: "list_all2 (\<lambda>li r. limit_input_to_row li kid now 0 None = Inr r) ls rows" by (simp add: collect_sum_Inr)
  then have "map (\<lambda>l. (limit_identity_from_row l, max_value l, current_value l)) rows =
      map (\<lambda>li. (limit_identity_from_input li, li_max_value li, 0)) ls"
    by (induction rule: list_all2_induct) (auto dest: limit_input_to_row_Inr)
  moreover have "map (\<lambda>l. (limit_identity_from_row l, max_value l, current_value l))
      (map (\<lambda>(i, l). l\<lparr>limit_id := i, lim_api_key_id := kid\<rparr>) (zip ids rows)) =
     map (\<lambda>l. (limit_identity_from_row l, max_value l, current_value l)) (map snd (zip ids rows))"
    by (simp add: limit_identity_from_row_def split_beta)
  moreover have "map snd (zip ids rows) = rows"
    using assms(2) list_all2_lengthD [OF c] by (simp add: map_snd_zip_take)
  ultimately show ?thesis by (simp only: limits_replaced)
qed

text \<open>
  C11. Creating a key with an acceptable name and settings, under a fresh id: the key exists and is
  accepted until it expires whether or not the call succeeds. The call fails exactly when some limit
  rule is rejected, and then the committed key has none of the requested limits; when it succeeds,
  the key has one limit per rule, unused.
\<close>

theorem create_key_outcome:
  assumes ok: "keys_ok d" and row: "new_key_row sha uuid plain now p = Inr row"
    and free: "get_by_id uuid d = None" "get_by_hash (sha plain) d = None" "plain \<noteq> []"
    and ids: "length (cd_limits p) \<le> length ids" and none: "get_limits_by_key uuid d = []"
    and c: "create_key sha render uuid plain now ids p d = (res, d')"
  shows "keys_ok d' \<and>
    ((\<exists>data. fst (validate_key sha render t plain d') = Inr data \<and> akd_id data = uuid) \<longleftrightarrow> \<not> key_expired t row) \<and>
    (isl res \<longleftrightarrow> (\<exists>li \<in> set (cd_limits p). isl (limit_input_to_row li uuid now 0 None))) \<and>
    (if isl res then get_limits_by_key uuid d' = []
     else map (\<lambda>l. (limit_identity_from_row l, max_value l, current_value l)) (get_limits_by_key uuid d') =
       map (\<lambda>li. (limit_identity_from_input li, li_max_value li, 0)) (cd_limits p))"
proof -
  note f = new_key_row_fields [OF row]
  let ?d1 = "d\<lparr>api_keys := api_keys d @ [row]\<rparr>"
  have cr: "repo_create row d = Inr ?d1"
    using free(1,2) f(1,2) by (auto simp: repo_create_def list_ex_iff get_by_id_def get_by_hash_def find_None_iff)
  note r = repo_create_Inr [OF cr ok f(4)]
  have keys: "api_keys d' = api_keys ?d1 \<and> (isl res \<longleftrightarrow> (\<exists>li \<in> set (cd_limits p). isl (limit_input_to_row li uuid now 0 None))) \<and>
    (if isl res then get_limits_by_key uuid d' = []
     else map (\<lambda>l. (limit_identity_from_row l, max_value l, current_value l)) (get_limits_by_key uuid d') =
       map (\<lambda>li. (limit_identity_from_input li, li_max_value li, 0)) (cd_limits p))"
  proof (cases "collect_sum (\<lambda>li. limit_input_to_row li uuid now 0 None) (cd_limits p)")
    case (Inl e)
    then have "cd_limits p \<noteq> []" by auto
    with Inl c row cr have "res = Inl e" "d' = ?d1" by (simp_all add: create_key_def)
    with Inl collect_sum_isl [of "\<lambda>li. limit_input_to_row li uuid now 0 None" "cd_limits p"] none show ?thesis
      by (simp add: get_limits_by_key_def)
  next
    case (Inr rows)
    obtain data2 where data2: "to_api_key_data render ?d1 row = Inr data2" by (rule to_api_key_data_ok [OF f(4)])
    let ?d2 = "replace_limits ids uuid rows ?d1"
    obtain data3 where data3: "to_api_key_data render ?d2 row = Inr data3" by (rule to_api_key_data_ok [OF f(4)])
    have "get_by_id uuid ?d2 = Some row" using r(3) f(1) by (simp add: get_by_id_cong [of ?d2 ?d1])
    with c row cr Inr data2 data3 have "\<not> isl res" "d' = (if cd_limits p = [] then ?d1 else ?d2)"
      by (auto simp: create_key_def split: if_splits)
    with Inr collect_sum_isl [of "\<lambda>li. limit_input_to_row li uuid now 0 None" "cd_limits p"]
      created_limits [OF Inr ids, of ?d1] none show ?thesis
      by (auto simp: get_limits_by_key_def)
  qed
  then have ok': "keys_ok d'" using r(1) by (simp add: keys_ok_cong [of d' ?d1])
  have "get_by_hash (sha plain) d' = Some row"
    using get_by_hash_member [OF ok', of row] keys r(2) f(2) by simp
  with ok' f(1,3) free(3) keys show ?thesis by (simp add: validate_key_iff)
qed

theorem create_key_outcome_witness:
  "\<exists>data. fst (validate_key (\<lambda>s. s) (\<lambda>v. []) 5 ''sk-new''
       (snd (create_key (\<lambda>s. s) (\<lambda>v. []) ''k2'' ''sk-new'' 5 [3] \<lparr>cd_name = ''ci'', cd_allowed_models = None,
          cd_enforced_service_tier = None, cd_enforced_model_tiers = None, cd_expires_at = None,
          cd_limits = [\<lparr>li_limit_type = ''credits'', li_limit_window = ''daily'', li_max_value = 5, li_model_filter = Some ''m''\<rparr>]\<rparr> demo_db))) =
     Inr data \<and> akd_id data = ''k2''"
proof -
  let ?p = "\<lparr>cd_name = ''ci'', cd_allowed_models = None,
          cd_enforced_service_tier = None, cd_enforced_model_tiers = None, cd_expires_at = None,
          cd_limits = [\<lparr>li_limit_type = ''credits'', li_limit_window = ''daily'', li_max_value = 5, li_model_filter = Some ''m''\<rparr>]\<rparr>"
  let ?r = "create_key (\<lambda>s. s) (\<lambda>v. []) ''k2'' ''sk-new'' 5 [3] ?p demo_db"
  have row: "new_key_row (\<lambda>s. s) ''k2'' ''sk-new'' 5 ?p = Inr (demo_key\<lparr>key_id := ''k2'', key_name := ''ci'',
      key_hash := ''sk-new'', key_prefix := ''sk-new'', created_at := 5\<rparr>)" by code_simp
  have free: "get_by_id ''k2'' demo_db = None" "get_by_hash ''sk-new'' demo_db = None" "get_limits_by_key ''k2'' demo_db = []"
    by code_simp+
  have "?r = (fst ?r, snd ?r)" by simp
  note create_key_outcome [where sha = "\<lambda>s. s", OF demo_db_ok row free(1,2) _ _ free(3) this]
  then show ?thesis by (simp add: key_expired_def demo_key_def)
qed

section \<open>The usage chart\<close>

lemma sum_list_fibers:
  fixes w :: "'r \<Rightarrow> 'n :: comm_monoid_add"
  assumes "distinct es" "f ` set rs \<subseteq> set es"
  shows "sum_list (map (\<lambda>e. sum_list (map w (filter (\<lambda>r. f r = e) rs))) es) = sum_list (map w rs)"
  using assms(2)
proof (induction rs)
  case (Cons r rs)
  have split: "sum_list (map w (filter (\<lambda>r. f r = e) (r # rs))) =
      (if e = f r then w r else 0) + sum_list (map w (filter (\<lambda>r. f r = e) rs))" for e by auto
  have "sum_list (map (\<lambda>e. if e = f r then w r else 0) es) = (\<Sum>e \<in> set es. if e = f r then w r else 0)"
    by (rule sum_list_distinct_conv_sum_set) (rule assms(1))
  also have "\<dots> = w r" using Cons.prems by simp
  finally show ?case using Cons by (simp only: split sum_list_addf) simp
qed simp

definition row_tokens :: "usage_row \<Rightarrow> int" where
  "row_tokens r = opt_int (ur_input_tokens r) + row_output_tokens r"

lemma sum_row_tokens:
  "sum_list (map (\<lambda>r. opt_int (ur_input_tokens r)) rs) + sum_list (map row_output_tokens rs) = sum_list (map row_tokens rs)"
  by (induction rs) (simp_all add: row_tokens_def)

lemma total_tokens_rows: "total_tokens (summarize_rows rs) = sum_list (map row_tokens rs)"
  by (simp add: summarize_rows_def Let_def sum_row_tokens)

lemma dict_by_map: "dict_by f (map g es) e = (if e \<in> set es then Some (g e) else None)"
  if "\<And>e. f (g e) = e" for f g
proof (cases "e \<in> set es")
  case True
  then have "dict_by f (map g es) e \<noteq> None" by (auto simp: dict_by_None that image_image)
  then obtain b where b: "dict_by f (map g es) e = Some b" by auto
  then have "(e, b) \<in> set (rev (map (\<lambda>x. (f x, x)) (map g es)))" unfolding dict_by_def by (rule map_of_SomeD)
  then have "b = g e" by (auto simp: that)
  with b True show ?thesis by simp
next
  case False
  then have "e \<notin> f ` set (map g es)" by (auto simp: that image_image)
  with False show ?thesis by (simp add: dict_by_None [THEN iffD2])
qed

lemma trend_bucket_tokens:
  "(case dict_by bucket_epoch (trends_by_key kid since until bs rows) e of None \<Rightarrow> 0 | Some b \<Rightarrow> bucket_tokens b) =
   sum_list (map row_tokens (filter (\<lambda>r. bucket_of bs (ur_requested_at r) = e) (rows_between kid since until rows)))"
proof -
  let ?sel = "rows_between kid since until rows"
  have none: "filter (\<lambda>r. bucket_of bs (ur_requested_at r) = e) ?sel = []"
    if "e \<notin> set (map (\<lambda>r. bucket_of bs (ur_requested_at r)) ?sel)"
    using that by (auto simp: filter_empty_conv)
  show ?thesis
    unfolding trends_by_key_def Let_def
    by (subst dict_by_map, simp, cases "e \<in> set (map (\<lambda>r. bucket_of bs (ur_requested_at r)) ?sel)")
      (simp_all add: sum_row_tokens none)
qed

lemma py_int_micros: "0 \<le> t \<Longrightarrow> py_int (of_int t / 1000000) = t div 1000000"
  by (simp add: py_int_def floor_divide_of_int_eq [of t 1000000, simplified])

text \<open>Every bucket of a selected row is on the grid.\<close>

lemma bucket_on_grid:
  assumes "0 \<le> since" "since \<le> t" "t < until" "0 < bs"
  defines "start \<equiv> since div 1000000 div bs * bs" and "stop \<equiv> (until - 1) div 1000000 div bs * bs"
  shows "bucket_of bs t \<in> set (map (\<lambda>i. start + int i * bs) [0..<nat ((stop - start) div bs + 1)])"
proof -
  let ?q = "\<lambda>t. t div 1000000 div bs"
  have q: "?q since \<le> ?q t" "?q t \<le> ?q (until - 1)" using assms by (simp_all add: zdiv_mono1)
  have n: "(stop - start) div bs = ?q (until - 1) - ?q since"
    using assms(4) by (simp add: start_def stop_def left_diff_distrib [symmetric])
  let ?i = "nat (?q t - ?q since)"
  have "bucket_of bs t = start + int ?i * bs"
    using q(1) by (simp add: bucket_of_def epoch_seconds_def start_def left_diff_distrib)
  moreover have "?i < nat ((stop - start) div bs + 1)" using q unfolding n by simp
  ultimately have "bucket_of bs t \<in> (\<lambda>i. start + int i * bs) ` {0..<nat ((stop - start) div bs + 1)}"
    by (intro image_eqI [of _ _ ?i]) (simp only:, simp only: atLeastLessThan_iff zero_le conj_absorb simp_thms)
  then show ?thesis by simp
qed

text \<open>
  The usage chart of a key loses no token: for a period that does not start before the epoch, the
  points of the chart add up to the tokens of all requests of the key in the period.
\<close>

theorem trend_chart_complete:
  assumes "0 \<le> since" "0 < bs"
  shows "sum_list (map snd (td_tokens (build_api_key_trends kid (trends_by_key kid since until bs rows) since until bs))) =
    total_tokens (usage_between kid since until rows)"
proof (cases "until \<le> since")
  case True
  then have "rows_between kid since until rows = []" by (auto simp: rows_between_def filter_empty_conv)
  with True show ?thesis by (simp add: build_api_key_trends_def usage_between_def total_tokens_rows)
next
  case False
  define start where "start = since div 1000000 div bs * bs"
  define stop where "stop = (until - 1) div 1000000 div bs * bs"
  define grid where "grid = map (\<lambda>i. start + int i * bs) [0..<nat ((stop - start) div bs + 1)]"
  have micros: "py_int (of_int since / 1000000) = since div 1000000"
    "py_int (of_int (until - 1) / 1000000) = (until - 1) div 1000000"
    using assms(1) False by (intro py_int_micros; simp)+
  have "distinct grid" using assms(2) by (simp add: grid_def distinct_map inj_on_def)
  moreover have "(\<lambda>r. bucket_of bs (ur_requested_at r)) ` set (rows_between kid since until rows) \<subseteq> set grid"
  proof (rule image_subsetI)
    fix r
    assume "r \<in> set (rows_between kid since until rows)"
    then have "since \<le> ur_requested_at r" "ur_requested_at r < until" by (auto simp: rows_between_def)
    then show "bucket_of bs (ur_requested_at r) \<in> set grid"
      unfolding grid_def start_def stop_def using assms by (intro bucket_on_grid)
  qed
  ultimately have "sum_list (map (\<lambda>e. sum_list (map row_tokens (filter (\<lambda>r. bucket_of bs (ur_requested_at r) = e)
      (rows_between kid since until rows)))) grid) = total_tokens (usage_between kid since until rows)"
    by (simp add: sum_list_fibers usage_between_def total_tokens_rows)
  moreover have "td_tokens (build_api_key_trends kid (trends_by_key kid since until bs rows) since until bs) =
      map (\<lambda>e. (e, sum_list (map row_tokens (filter (\<lambda>r. bucket_of bs (ur_requested_at r) = e)
        (rows_between kid since until rows))))) grid"
    using False unfolding grid_def start_def stop_def
    by (simp add: build_api_key_trends_def Let_def micros [simplified] trend_bucket_tokens)
  ultimately show ?thesis by (simp add: comp_def)
qed

theorem trend_chart_complete_witness:
  "sum_list (map snd (td_tokens (build_api_key_trends ''k1'' (trends_by_key ''k1'' 7200000000 9000000000 3600
     [\<lparr>ur_api_key_id = Some ''k1'', ur_requested_at = 8000000000, ur_input_tokens = Some 10, ur_output_tokens = None,
       ur_reasoning_tokens = Some 5, ur_cached_input_tokens = None, ur_cost_usd = None\<rparr>]) 7200000000 9000000000 3600))) = 15"
  by (subst trend_chart_complete)
    (simp_all add: usage_between_def rows_between_def summarize_rows_def opt_int_def row_output_tokens_def)

end
