(* ===== verification/Key_Cache.thy ===== *)
theory Key_Cache
  imports Api_Keys "HOL-Library.Multiset"
begin

text \<open>
  The caches in front of the database and how they are invalidated:
  \<open>app/core/auth/api_key_cache.py\<close> with its reader \<open>_validate_api_key_token\<close> of
  \<open>app/core/auth/dependencies.py\<close>, \<open>app/core/middleware/firewall_cache.py\<close>, and the poller of
  \<open>app/core/cache/invalidation.py\<close> that spreads invalidations between instances.

  Both caches are filled by readers that note the cache's version, read the database, and store what
  they read only if the version is still the same; writers change the database and invalidate
  afterwards. The locale \<open>versioned_cache\<close> states what such a cache must satisfy and proves once that
  the protocol is sound: an entry with no invalidation outstanding agrees with the database.
\<close>

section \<open>The cache of validated keys\<close>

record 'v cached =
  ck_data :: 'v
  ck_expires_at :: pyfloat

record 'v key_cache =
  kc_entries :: "(string \<times> 'v cached) list"
  kc_ttl :: int
  kc_max_entries :: int
  kc_version :: int

definition ApiKeyCache :: "int \<Rightarrow> int \<Rightarrow> 'v key_cache" where
  "ApiKeyCache ttl_seconds max_entries = \<lparr>kc_entries = [], kc_ttl = ttl_seconds, kc_max_entries = max_entries, kc_version = 0\<rparr>"

definition api_key_cache :: "'v key_cache" where
  "api_key_cache = ApiKeyCache 2 10000"

definition cache_get :: "pyfloat \<Rightarrow> 'v key_cache \<Rightarrow> string \<Rightarrow> 'v option" where
  "cache_get now c h = (case map_of (kc_entries c) h of
     None \<Rightarrow> None
   | Some e \<Rightarrow> if now < ck_expires_at e then Some (ck_data e) else None)"

text \<open>A full cache drops the entry that expires first; \<open>min\<close> raises when there is no entry to drop.\<close>

definition evict :: "'v key_cache \<Rightarrow> py_error + 'v key_cache" where
  "evict c = (if int (length (kc_entries c)) \<ge> kc_max_entries c
     then bind_sum (py_min (\<lambda>p. ck_expires_at (snd p)) (kc_entries c)) (\<lambda>oldest.
       Inr (c\<lparr>kc_entries := dict_del (fst oldest) (kc_entries c)\<rparr>))
     else Inr c)"

definition cache_set :: "pyfloat \<Rightarrow> string \<Rightarrow> 'v \<Rightarrow> int option \<Rightarrow> 'v key_cache \<Rightarrow> py_error + 'v key_cache" where
  "cache_set now h data if_version c =
     (if if_version \<noteq> None \<and> if_version \<noteq> Some (kc_version c) then Inr c
      else bind_sum (evict c) (\<lambda>c. Inr (c\<lparr>kc_entries :=
        dict_set h \<lparr>ck_data = data, ck_expires_at = now + of_int (kc_ttl c)\<rparr> (kc_entries c)\<rparr>)))"

definition cache_invalidate :: "string \<Rightarrow> 'v key_cache \<Rightarrow> 'v key_cache" where
  "cache_invalidate h c = c\<lparr>kc_entries := dict_del h (kc_entries c), kc_version := kc_version c + 1\<rparr>"

definition cache_clear :: "'v key_cache \<Rightarrow> 'v key_cache" where
  "cache_clear c = c\<lparr>kc_entries := [], kc_version := kc_version c + 1\<rparr>"

section \<open>Validating a token through the cache\<close>

text \<open>
  The three parts of \<open>_validate_api_key_token\<close> between its awaits: the lookup, which also notes the
  version; the read of the database; the store.
\<close>

definition token_lookup :: "(string \<Rightarrow> string) \<Rightarrow> pyfloat \<Rightarrow> datetime \<Rightarrow> string \<Rightarrow> api_key_data key_cache
    \<Rightarrow> api_key_data option \<times> api_key_data key_cache" where
  "token_lookup sha now utcnow token c = (case cache_get now c (sha token) of
     None \<Rightarrow> (None, c)
   | Some cached \<Rightarrow>
       if (case akd_expires_at cached of None \<Rightarrow> False | Some e \<Rightarrow> e \<le> utcnow)
       then (None, cache_invalidate (sha token) c) else (Some cached, c))"

definition token_read :: "(string \<Rightarrow> string) \<Rightarrow> (json \<Rightarrow> string) \<Rightarrow> datetime \<Rightarrow> string \<Rightarrow> api_db
    \<Rightarrow> (api_key_error + api_key_data) \<times> api_db" where
  "token_read sha render utcnow token d = validate_key sha render utcnow token d"

definition token_store :: "(string \<Rightarrow> string) \<Rightarrow> pyfloat \<Rightarrow> string \<Rightarrow> int \<Rightarrow> api_key_data \<Rightarrow> api_key_data key_cache
    \<Rightarrow> py_error + api_key_data key_cache" where
  "token_store sha now token version_before_read validated c = cache_set now (sha token) validated (Some version_before_read) c"

text \<open>An uninterrupted call.\<close>

definition validate_api_key_token :: "(string \<Rightarrow> string) \<Rightarrow> (json \<Rightarrow> string) \<Rightarrow> pyfloat \<Rightarrow> datetime \<Rightarrow> string
    \<Rightarrow> api_key_data key_cache \<Rightarrow> api_db \<Rightarrow> (api_key_error + api_key_data) \<times> api_key_data key_cache \<times> api_db" where
  "validate_api_key_token sha render now utcnow token c d = (case token_lookup sha now utcnow token c of
     (Some cached, c) \<Rightarrow> (Inr cached, c, d)
   | (None, c) \<Rightarrow> (case token_read sha render utcnow token d of
       (Inl e, d) \<Rightarrow> (Inl e, c, d)
     | (Inr validated, d) \<Rightarrow> (case token_store sha now token (kc_version c) validated c of
         Inl e \<Rightarrow> (Inl (ApiKeyValueError ''ValueError''), c, d)
       | Inr c \<Rightarrow> (Inr validated, c, d))))"

section \<open>The cache of firewall decisions\<close>

record firewall_cache =
  fc_entries :: "(string \<times> bool cached) list"
  fc_ttl_seconds :: int
  fc_version :: int

definition FirewallIPCache :: "int \<Rightarrow> py_error + firewall_cache" where
  "FirewallIPCache ttl_seconds = (if ttl_seconds \<le> 0 then Inl ValueError
     else Inr \<lparr>fc_entries = [], fc_ttl_seconds = ttl_seconds, fc_version = 0\<rparr>)"

definition firewall_is_allowed :: "pyfloat \<Rightarrow> firewall_cache \<Rightarrow> string \<Rightarrow> bool option" where
  "firewall_is_allowed now c ip = (case map_of (fc_entries c) ip of
     None \<Rightarrow> None
   | Some e \<Rightarrow> if now \<ge> ck_expires_at e then None else Some (ck_data e))"

definition firewall_set :: "pyfloat \<Rightarrow> string \<Rightarrow> bool \<Rightarrow> int option \<Rightarrow> firewall_cache \<Rightarrow> firewall_cache" where
  "firewall_set now ip allowed if_version c =
     (if if_version \<noteq> None \<and> if_version \<noteq> Some (fc_version c) then c
      else c\<lparr>fc_entries := dict_set ip \<lparr>ck_data = allowed, ck_expires_at = now + of_int (fc_ttl_seconds c)\<rparr> (fc_entries c)\<rparr>)"

definition invalidate_all :: "firewall_cache \<Rightarrow> firewall_cache" where
  "invalidate_all c = c\<lparr>fc_entries := [], fc_version := fc_version c + 1\<rparr>"

section \<open>The invalidation poller\<close>

definition NAMESPACE_API_KEY :: string where
  "NAMESPACE_API_KEY = ''api_key''"

definition NAMESPACE_FIREWALL :: string where
  "NAMESPACE_FIREWALL = ''firewall''"

text \<open>Callbacks are named; the table \<open>cache_invalidation\<close> is a dict from namespaces to versions.\<close>

record 'cb poller =
  known_versions :: "(string \<times> int) list"
  callbacks :: "(string \<times> 'cb list) list"
  poll_initialized :: bool

definition CacheInvalidationPoller :: "'cb poller" where
  "CacheInvalidationPoller = \<lparr>known_versions = [], callbacks = [], poll_initialized = False\<rparr>"

definition dict_get_list :: "'k \<Rightarrow> ('k \<times> 'v list) list \<Rightarrow> 'v list" where
  "dict_get_list k d = (case map_of d k of None \<Rightarrow> [] | Some v \<Rightarrow> v)"

definition on_invalidation :: "string \<Rightarrow> 'cb \<Rightarrow> 'cb poller \<Rightarrow> 'cb poller" where
  "on_invalidation ns cb p = p\<lparr>callbacks := dict_set ns (dict_get_list ns (callbacks p) @ [cb]) (callbacks p)\<rparr>"

text \<open>\<open>bump\<close> swallows the errors of its session.\<close>

definition bump :: "bool \<Rightarrow> string \<Rightarrow> (string \<times> int) list \<Rightarrow> (string \<times> int) list" where
  "bump session_fails ns table =
     (if session_fails then table
      else dict_set ns (case map_of table ns of None \<Rightarrow> 1 | Some v \<Rightarrow> v + 1) table)"

fun poll_rows :: "(string \<times> int) list \<Rightarrow> 'cb poller \<Rightarrow> 'cb list \<times> 'cb poller" where
  "poll_rows [] p = ([], p)"
| "poll_rows ((ns, v) # rows) p =
     (let fire = (case map_of (known_versions p) ns of
            Some prev \<Rightarrow> v \<noteq> prev
          | None \<Rightarrow> poll_initialized p \<and> v > 0);
          called = (if fire then dict_get_list ns (callbacks p) else [])
      in case poll_rows rows (p\<lparr>known_versions := dict_set ns v (known_versions p)\<rparr>) of (later, p) \<Rightarrow> (called @ later, p))"

definition poll_once :: "bool \<Rightarrow> (string \<times> int) list \<Rightarrow> 'cb poller \<Rightarrow> 'cb list \<times> 'cb poller" where
  "poll_once session_fails table p =
     (if session_fails then ([], p)
      else case poll_rows table p of (called, p) \<Rightarrow> (called, p\<lparr>poll_initialized := True\<rparr>))"

section \<open>Caches filled under a version check\<close>

locale versioned_cache =
  fixes lookup :: "'c \<Rightarrow> 'k \<Rightarrow> 'v option"
    and version :: "'c \<Rightarrow> int"
    and fill :: "'t \<Rightarrow> 'k \<Rightarrow> 'v \<Rightarrow> int \<Rightarrow> 'c \<Rightarrow> 'c"
    and purge :: "'p \<Rightarrow> 'c \<Rightarrow> 'c"
    and scope :: "'p \<Rightarrow> 'k set"
  assumes fill_lookup: "lookup (fill t k v n c) k' = Some v' \<Longrightarrow> n = version c \<and> k' = k \<and> v' = v \<or> lookup c k' = Some v'"
    and fill_version: "version (fill t k v n c) = version c"
    and purge_lookup: "lookup (purge p c) k = Some v \<Longrightarrow> k \<notin> scope p \<and> lookup c k = Some v"
    and purge_version: "version c < version (purge p c)"
begin

text \<open>
  \<open>A\<close> holds the readers that noted a version, \<open>B\<close> those that also read the source, \<open>P\<close> the outstanding
  invalidations; \<open>fresh k v\<close> says that the source now gives \<open>v\<close> for \<open>k\<close>.
\<close>

definition coherent :: "('k \<Rightarrow> 'v \<Rightarrow> bool) \<Rightarrow> 'c \<Rightarrow> ('k \<times> int) set \<Rightarrow> ('k \<times> int \<times> 'v) set \<Rightarrow> 'p set \<Rightarrow> bool" where
  "coherent fresh c A B P \<longleftrightarrow>
     (\<forall>k v. lookup c k = Some v \<longrightarrow> k \<in> \<Union> (scope ` P) \<or> fresh k v) \<and>
     (\<forall>k n. (k, n) \<in> A \<longrightarrow> n \<le> version c) \<and>
     (\<forall>k n v. (k, n, v) \<in> B \<longrightarrow> n \<le> version c \<and> (n = version c \<longrightarrow> k \<in> \<Union> (scope ` P) \<or> fresh k v))"

lemma coherentD:
  assumes "coherent fresh c A B P"
  shows "lookup c k = Some v \<Longrightarrow> k \<in> \<Union> (scope ` P) \<or> fresh k v" "(k, n) \<in> A \<Longrightarrow> n \<le> version c"
    "(k, n, v) \<in> B \<Longrightarrow> n \<le> version c" "(k, version c, v) \<in> B \<Longrightarrow> k \<in> \<Union> (scope ` P) \<or> fresh k v"
  using assms unfolding coherent_def by blast+

lemma coherent_mono:
  assumes "coherent fresh c A B P" "A' \<subseteq> A" "B' \<subseteq> B" "P \<subseteq> P'"
  shows "coherent fresh c A' B' P'"
proof -
  have "k \<in> \<Union> (scope ` P')" if "k \<in> \<Union> (scope ` P)" for k using assms(4) that by blast
  with assms(1-3) show ?thesis unfolding coherent_def by (metis subsetD)
qed

lemma coherent_begin: "coherent fresh c A B P \<Longrightarrow> coherent fresh c (insert (k, version c) A) B P"
  unfolding coherent_def by simp

lemma coherent_read:
  assumes "coherent fresh c A B P" "(k, n) \<in> A" "fresh k v"
  shows "coherent fresh c A (insert (k, n, v) B) P"
  using coherentD [OF assms(1)] assms(2,3) unfolding coherent_def by simp

lemma coherent_fill:
  assumes co: "coherent fresh c A B P" and b: "(k, n, v) \<in> B"
  shows "coherent fresh (fill t k v n c) A B P"
proof -
  have "k' \<in> \<Union> (scope ` P) \<or> fresh k' v'" if "lookup (fill t k v n c) k' = Some v'" for k' v'
    using fill_lookup [OF that]
  proof
    assume "n = version c \<and> k' = k \<and> v' = v"
    then show ?thesis using b coherentD(4) [OF co, of k v] by simp
  next
    assume "lookup c k' = Some v'"
    then show ?thesis by (rule coherentD(1) [OF co])
  qed
  with co show ?thesis unfolding coherent_def fill_version by simp
qed

lemma coherent_write:
  assumes co: "coherent fresh c A B P" and w: "\<And>k v. fresh k v \<Longrightarrow> fresh' k v \<or> k \<in> \<Union> (scope ` Q)"
  shows "coherent fresh' c A B (P \<union> Q)"
proof -
  have "k \<in> \<Union> (scope ` (P \<union> Q)) \<or> fresh' k v" if "k \<in> \<Union> (scope ` P) \<or> fresh k v" for k v
    using that w [of k v] by (simp only: image_Un Union_Un_distrib Un_iff) blast
  with co show ?thesis unfolding coherent_def by blast
qed

lemma coherent_purge:
  assumes co: "coherent fresh c A B P"
  shows "coherent fresh (purge p c) A B (P - {p})"
proof -
  have "k \<in> \<Union> (scope ` (P - {p})) \<or> fresh k v" if l: "lookup (purge p c) k = Some v" for k v
  proof -
    from purge_lookup [OF l] have "k \<notin> scope p" "lookup c k = Some v" by simp_all
    with coherentD(1) [OF co, of k v] show ?thesis by (auto simp del: SUP_image)
  qed
  moreover have "n < version (purge p c)" if "(k, n, v) \<in> B" for k n v
    using coherentD(3) [OF co that] purge_version [of c p] by simp
  moreover have "n \<le> version (purge p c)" if "(k, n) \<in> A" for k n
    using coherentD(2) [OF co that] purge_version [of c p] by simp
  ultimately show ?thesis unfolding coherent_def by (simp add: less_le)
qed

lemma coherent_served: "coherent fresh c A B P \<Longrightarrow> lookup c k = Some v \<Longrightarrow> k \<notin> \<Union> (scope ` P) \<Longrightarrow> fresh k v"
  unfolding coherent_def by blast

end

datatype drop = Drop_Key string | Drop_All

fun drop_scope :: "drop \<Rightarrow> string set" where
  "drop_scope (Drop_Key h) = {h}"
| "drop_scope Drop_All = UNIV"

fun drop_purge :: "drop \<Rightarrow> 'v key_cache \<Rightarrow> 'v key_cache" where
  "drop_purge (Drop_Key h) c = cache_invalidate h c"
| "drop_purge Drop_All c = cache_clear c"

definition key_fill :: "pyfloat \<Rightarrow> string \<Rightarrow> 'v \<Rightarrow> int \<Rightarrow> 'v key_cache \<Rightarrow> 'v key_cache" where
  "key_fill now h v n c = (case cache_set now h v (Some n) c of Inl e \<Rightarrow> c | Inr c' \<Rightarrow> c')"

definition stored :: "(string \<times> 'v cached) list \<Rightarrow> string \<Rightarrow> 'v option" where
  "stored entries h = map_option ck_data (map_of entries h)"

lemma stored_dict_set: "stored (dict_set h e d) h' = (if h' = h then Some (ck_data e) else stored d h')"
  by (simp add: stored_def)

lemma stored_dict_del: "stored (dict_del h d) h' = (if h' = h then None else stored d h')"
  by (simp add: stored_def)

lemma evict_stored: "evict c = Inr c' \<Longrightarrow> stored (kc_entries c') h = Some v \<Longrightarrow> stored (kc_entries c) h = Some v"
  by (auto simp: evict_def stored_dict_del split: if_splits)

lemma evict_version: "evict c = Inr c' \<Longrightarrow> kc_version c' = kc_version c"
  by (auto simp: evict_def split: if_splits)

interpretation akc: versioned_cache "\<lambda>c. stored (kc_entries c)" kc_version key_fill drop_purge drop_scope
proof
  show "n = kc_version c \<and> k' = k \<and> v' = v \<or> stored (kc_entries c) k' = Some v'"
    if "stored (kc_entries (key_fill t k v n c)) k' = Some v'" for t k v n and c :: "'a key_cache" and k' v'
    using that
    by (auto simp: key_fill_def cache_set_def stored_dict_set split: sum.splits if_splits dest: evict_stored)
  show "kc_version (key_fill t k v n c) = kc_version c" for t k v n and c :: "'a key_cache"
    by (auto simp: key_fill_def cache_set_def evict_version split: sum.splits if_splits)
  show "k \<notin> drop_scope p \<and> stored (kc_entries c) k = Some v"
    if "stored (kc_entries (drop_purge p c)) k = Some v" for p and c :: "'a key_cache" and k v
    using that
    by (cases p) (auto simp: cache_invalidate_def cache_clear_def stored_dict_del split: if_splits, simp_all add: stored_def)
  show "kc_version c < kc_version (drop_purge p c)" for p and c :: "'a key_cache"
    by (cases p) (simp_all add: cache_invalidate_def cache_clear_def)
qed

interpretation fwc: versioned_cache "\<lambda>c. stored (fc_entries c)" fc_version "\<lambda>now ip v n. firewall_set now ip v (Some n)"
  "\<lambda>u :: unit. invalidate_all" "\<lambda>u :: unit. UNIV"
  by unfold_locales (auto simp: firewall_set_def invalidate_all_def stored_dict_set stored_def [of "[]"] split: if_splits)

lemma cache_get_stored: "cache_get now c h = Some v \<Longrightarrow> stored (kc_entries c) h = Some v"
  by (auto simp: cache_get_def stored_def split: option.splits if_splits)

section \<open>Requests, administration and invalidations overlapping\<close>

text \<open>
  The database and the cache of one instance with what is in progress: requests between lookup and
  read, requests between read and store, and invalidations that writers still owe. A write made by
  another instance is dropped here when the poller notices it, by clearing the cache.
\<close>

record auth_state =
  as_db :: api_db
  as_cache :: "api_key_data key_cache"
  reading :: "(string \<times> int) multiset"
  storing :: "(string \<times> int \<times> api_key_data) multiset"
  owed :: "drop multiset"

definition owed_for :: "bool \<Rightarrow> string list \<Rightarrow> drop multiset" where
  "owed_for remote hashes = (if hashes = [] then {#} else if remote then {#Drop_All#} else mset (map Drop_Key hashes))"

definition unassign_account :: "string \<Rightarrow> api_db \<Rightarrow> api_db" where
  "unassign_account acc d =
     d\<lparr>api_keys := map (\<lambda>k. k\<lparr>assigned_account_ids := filter (\<lambda>a. a \<noteq> acc) (assigned_account_ids k)\<rparr>) (api_keys d)\<rparr>"

inductive auth_step :: "(string \<Rightarrow> string) \<Rightarrow> (json \<Rightarrow> string) \<Rightarrow> auth_state \<Rightarrow> auth_state \<Rightarrow> bool" for sha render where
  hit: "token_lookup sha now utcnow token (as_cache s) = (Some data, c) \<Longrightarrow> auth_step sha render s (s\<lparr>as_cache := c\<rparr>)"
| miss: "token_lookup sha now utcnow token (as_cache s) = (None, c) \<Longrightarrow>
    auth_step sha render s (s\<lparr>as_cache := c, reading := add_mset (token, kc_version c) (reading s)\<rparr>)"
| read: "(token, n) \<in># reading s \<Longrightarrow> token_read sha render utcnow token (as_db s) = (Inr data, d) \<Longrightarrow>
    auth_step sha render s (s\<lparr>as_db := d, reading := reading s - {#(token, n)#},
      storing := add_mset (token, n, data) (storing s)\<rparr>)"
| refused: "(token, n) \<in># reading s \<Longrightarrow> token_read sha render utcnow token (as_db s) = (Inl e, d) \<Longrightarrow>
    auth_step sha render s (s\<lparr>as_db := d, reading := reading s - {#(token, n)#}\<rparr>)"
| store: "(token, n, data) \<in># storing s \<Longrightarrow> token_store sha now token n data (as_cache s) = Inr c \<Longrightarrow>
    auth_step sha render s (s\<lparr>as_cache := c, storing := storing s - {#(token, n, data)#}\<rparr>)"
| update: "update_key render now accounts ids kid p (as_db s) = (res, d, dropped) \<Longrightarrow>
    auth_step sha render s (s\<lparr>as_db := d, owed := owed s + owed_for remote dropped\<rparr>)"
| regenerate: "regenerate_key sha render plain kid (as_db s) = (res, d, dropped) \<Longrightarrow>
    auth_step sha render s (s\<lparr>as_db := d, owed := owed s + owed_for remote dropped\<rparr>)"
| delete: "delete_key kid (as_db s) = (res, d, dropped) \<Longrightarrow>
    auth_step sha render s (s\<lparr>as_db := d, owed := owed s + owed_for remote dropped\<rparr>)"
| create: "create_key sha render uuid plain now ids p (as_db s) = (res, d) \<Longrightarrow>
    auth_step sha render s (s\<lparr>as_db := d\<rparr>)"
| account_deleted: "auth_step sha render s (s\<lparr>as_db := unassign_account acc (as_db s), owed := add_mset Drop_All (owed s)\<rparr>)"
| quota: "ledger_step l l' \<Longrightarrow> db l = as_db s \<Longrightarrow> auth_step sha render s (s\<lparr>as_db := db l'\<rparr>)"
| invalidate: "p \<in># owed s \<Longrightarrow>
    auth_step sha render s (s\<lparr>as_cache := drop_purge p (as_cache s), owed := owed s - {#p#}\<rparr>)"
| polled: "auth_step sha render s (s\<lparr>as_cache := cache_clear (as_cache s)\<rparr>)"

definition auth_init :: "api_db \<Rightarrow> auth_state" where
  "auth_init d = \<lparr>as_db = d, as_cache = api_key_cache, reading = {#}, storing = {#}, owed = {#}\<rparr>"

section \<open>What a cached key has to agree with\<close>

text \<open>A key without what requests change all the time: its usage and the time of its last use.\<close>

definition key_view :: "api_key_data \<Rightarrow> api_key_data" where
  "key_view data = data\<lparr>akd_limits := [], akd_last_used_at := None\<rparr>"

definition shown :: "(json \<Rightarrow> string) \<Rightarrow> api_key \<Rightarrow> api_key_error + api_key_data" where
  "shown render k = to_api_key_data render \<lparr>api_keys = [], api_key_limits = [], reservations = []\<rparr> (k\<lparr>last_used_at := None\<rparr>)"

definition key_fresh :: "(json \<Rightarrow> string) \<Rightarrow> api_db \<Rightarrow> string \<Rightarrow> api_key_data \<Rightarrow> bool" where
  "key_fresh render d h data \<longleftrightarrow> (\<exists>k. get_by_hash h d = Some k \<and> is_active k \<and> shown render k = Inr (key_view data))"

lemma shown_view: "to_api_key_data render d k = Inr full \<Longrightarrow> shown render k = Inr (key_view full)"
  by (auto simp: shown_def to_api_key_data_def key_view_def get_limits_by_key_def)

abbreviation key_rows :: "api_db \<Rightarrow> api_key list" where
  "key_rows d \<equiv> map (\<lambda>k. k\<lparr>last_used_at := None\<rparr>) (api_keys d)"

lemma get_by_hash_rows:
  "map_option (\<lambda>k. k\<lparr>last_used_at := None\<rparr>) (get_by_hash h d) = find (\<lambda>k. key_hash k = h) (key_rows d)"
  unfolding get_by_hash_def by (rule find_map_key [symmetric]) simp

lemma key_fresh_rows: "key_fresh render d h data \<longleftrightarrow>
  (\<exists>k. find (\<lambda>k. key_hash k = h) (key_rows d) = Some k \<and> is_active k \<and> shown render k = Inr (key_view data))"
  unfolding get_by_hash_rows [symmetric] key_fresh_def
  by (cases "get_by_hash h d") (simp_all add: shown_def)

lemma key_fresh_cong: "key_rows d' = key_rows d \<Longrightarrow> key_fresh render d' h data = key_fresh render d h data"
  by (simp add: key_fresh_rows)

lemma keys_ok_rows: "keys_ok d \<longleftrightarrow> distinct (map key_id (key_rows d)) \<and> distinct (map key_hash (key_rows d)) \<and>
   (\<forall>k \<in> set (key_rows d). allowed_models k \<noteq> Some Malformed)"
  by (simp add: keys_ok_def comp_def)

lemma keys_ok_rows_cong: "key_rows d' = key_rows d \<Longrightarrow> keys_ok d' = keys_ok d"
  by (simp only: keys_ok_rows)

subsection \<open>Quota handlers\<close>

lemma rows_update_last_used [simp]: "key_rows (update_last_used now kid d) = key_rows d"
  by (simp add: update_last_used_def)

lemma keys_update_limits [simp]: "api_keys (update_limits P f d) = api_keys d"
  by (simp add: update_limits_def)

lemma keys_update_reservations [simp]: "api_keys (update_reservations P f d) = api_keys d"
  by (simp add: update_reservations_def)

lemma keys_adjust [simp]: "api_keys (snd (adjust_reserved_usage lid delta e d)) = api_keys d"
  by (simp add: adjust_reserved_usage_def Let_def)

lemma keys_try_reserve [simp]: "try_reserve_usage lid delta e d = (b, d') \<Longrightarrow> api_keys d' = api_keys d"
  by (auto simp: try_reserve_usage_def Let_def split: if_splits)

lemma keys_reserve_limits: "reserve_limits model tier ls items d = (res, d') \<Longrightarrow> api_keys d' = api_keys d"
proof (induction model tier ls items d arbitrary: res d' rule: reserve_limits.induct)
  case (2 model tier l ls items d)
  then show ?case by (auto simp: Let_def split: if_splits prod.splits bool.splits)
qed simp

lemma keys_enforce_commit: "enforce_commit rid kid model tier ls d = (res, d') \<Longrightarrow> api_keys d' = api_keys d"
  by (auto simp: enforce_commit_def Let_def create_usage_reservation_def split: prod.splits sum.splits option.splits if_splits
      dest: keys_reserve_limits)

lemma keys_lazy_reset: "lazy_reset_expired_limits ls now d = (b, d') \<Longrightarrow> api_keys d' = api_keys d"
  by (metis lazy_reset_api_keys snd_conv)

lemma keys_enforce_read: "enforce_read now kid d = (res, d') \<Longrightarrow> api_keys d' = api_keys d"
  by (auto simp: enforce_read_def dest: keys_lazy_reset split: sum.splits if_splits prod.splits)

lemma keys_settle_items [simp]: "api_keys (settle_items rid actual items d) = api_keys d"
  by (induction rid actual items d rule: settle_items.induct) (simp_all add: Let_def upsert_reservation_item_actual_def)

lemma keys_release_items [simp]: "api_keys (release_items rid items d) = api_keys d"
  by (induction rid items d rule: release_items.induct) (simp_all add: upsert_reservation_item_actual_def)

lemma keys_transition: "transition_usage_reservation_status rid e n d = (b, d') \<Longrightarrow> api_keys d' = api_keys d"
  by (auto simp: transition_usage_reservation_status_def Let_def)

lemma rows_settle_commit: "key_rows (settle_commit now r model inp out cached tier st d) = key_rows d"
  by (auto simp: settle_commit_def Let_def settle_usage_reservation_row_def dest: keys_transition split: prod.splits)

lemma rows_release_commit: "key_rows (release_commit r d) = key_rows d"
  by (auto simp: release_commit_def Let_def settle_usage_reservation_row_def dest: keys_transition split: prod.splits)

lemma rows_ledger_step: "ledger_step l l' \<Longrightarrow> key_rows (db l') = key_rows (db l)"
  by (induction rule: ledger_step.induct)
    (simp_all add: keys_enforce_read keys_enforce_commit rows_settle_commit rows_release_commit)

subsection \<open>Administration\<close>

lemma find_map_other:
  "\<forall>x \<in> set xs. c x \<longrightarrow> \<not> P x \<and> \<not> P (f x) \<Longrightarrow> find P (map (\<lambda>x. if c x then f x else x) xs) = find P xs"
  by (induction xs) auto

lemma find_append_Some: "find P xs = Some x \<Longrightarrow> find P (xs @ ys) = Some x"
  by (induction xs) auto

lemma get_by_hash_map_key_other:
  assumes ok: "keys_ok d" and k: "get_by_id kid d = Some k" and f: "\<And>x. key_hash (f x) = key_hash x" and h: "h \<noteq> key_hash k"
  shows "get_by_hash h (map_key kid f d) = get_by_hash h d"
proof -
  have "\<forall>x \<in> set (api_keys d). key_id x = kid \<longrightarrow> key_hash x \<noteq> h"
    using ok get_by_id_SomeD [OF k] h by (auto simp: keys_ok_def dest: distinct_key_eq)
  then have "find (\<lambda>k. key_hash k = h) (map (\<lambda>k. if key_id k = kid then f k else k) (api_keys d)) = find (\<lambda>k. key_hash k = h) (api_keys d)"
    by (intro find_map_other) (simp add: f)
  then show ?thesis by (simp add: get_by_hash_def map_key_def)
qed

lemma key_fresh_same_hash: "get_by_hash h d' = get_by_hash h d \<Longrightarrow> key_fresh render d' h data = key_fresh render d h data"
  by (simp add: key_fresh_def)

lemma get_by_hash_written:
  assumes ok: "keys_ok d" and u: "ku_key_hash u = None" and k: "get_by_id kid d = Some k" and h: "h \<noteq> key_hash k"
    and m: "ku_allowed_models u \<noteq> Some (Some Malformed)"
  shows "get_by_hash h (written ids kid u assigned rows d) = get_by_hash h d"
proof -
  let ?d1 = "map_key kid (apply_update u) d"
  have 1: "get_by_hash h ?d1 = get_by_hash h d" by (rule get_by_hash_map_key_other [OF ok k _ h]) (simp add: u)
  have ok1: "keys_ok ?d1" using ok u m by (rule keys_ok_apply_update)
  have k1: "get_by_id kid ?d1 = Some (apply_update u k)" using k by (simp add: get_by_id_map_key)
  have h1: "h \<noteq> key_hash (apply_update u k)" using h u by simp
  have 2: "get_by_hash h (replace_account_assignments kid a ?d1) = get_by_hash h ?d1" for a
    unfolding replace_account_assignments_def by (rule get_by_hash_map_key_other [OF ok1 k1 _ h1]) simp
  show ?thesis using 1 2 by (cases assigned; cases rows) (simp_all add: written_def Let_def get_by_hash_def)
qed

lemma update_key_fresh:
  assumes ok: "keys_ok d" and u: "update_key render' now accounts ids kid p d = (res, d', dropped)"
  shows "keys_ok d'" "key_fresh render d h data \<Longrightarrow> key_fresh render d' h data \<or> h \<in> set dropped"
proof -
  have "keys_ok d' \<and> (key_fresh render d h data \<longrightarrow> key_fresh render d' h data \<or> h \<in> set dropped)"
  proof (cases rule: update_key_cases [OF ok, of kid render' now accounts ids p, case_names missing rejected written])
    case (written k u' assigned rows data')
    note f = prepare_update_fields [OF written(2)]
    from u written(3) have d': "d' = written ids kid u' assigned rows d" "dropped = [key_hash k]" by simp_all
    have "get_by_hash h d' = get_by_hash h d" if "h \<noteq> key_hash k"
      unfolding d' using ok f(1) written(1) that f(2) by (rule get_by_hash_written)
    then show ?thesis using written_keys(1) [OF ok f(1,2)] by (auto simp: d' key_fresh_def)
  qed (use ok u in simp_all)
  then show "keys_ok d'" "key_fresh render d h data \<Longrightarrow> key_fresh render d' h data \<or> h \<in> set dropped" by blast+
qed

lemma regenerate_key_fresh:
  assumes ok: "keys_ok d" and r: "regenerate_key sha render' plain kid d = (res, d', dropped)"
  shows "keys_ok d'" "key_fresh render d h data \<Longrightarrow> key_fresh render d' h data \<or> h \<in> set dropped"
proof -
  have "keys_ok d' \<and> (key_fresh render d h data \<longrightarrow> key_fresh render d' h data \<or> h \<in> set dropped)"
  proof (cases rule: regenerate_key_cases [OF ok, of sha render' plain kid, case_names failed replaced])
    case (replaced k data' f)
    from r replaced(4) have d': "d' = map_key kid f d" "dropped = [key_hash k]" by simp_all
    note hs = get_by_hash_rehash [OF ok replaced(5,1,2)]
    have "get_by_hash (sha plain) d = None" if "sha plain \<noteq> key_hash k"
    proof (cases "get_by_hash (sha plain) d")
      case (Some x)
      then have x: "x \<in> set (api_keys d)" "key_hash x = sha plain" by (auto dest: get_by_hash_SomeD)
      with replaced(3) have "key_id x = kid" by blast
      with x get_by_id_SomeD [OF replaced(1)] ok have "x = k" by (auto simp: keys_ok_def dest: distinct_key_eq)
      with x that show ?thesis by simp
    qed simp
    then have "h = key_hash k \<or> get_by_hash h d = None \<or> get_by_hash h d' = get_by_hash h d"
      unfolding d'(1) using hs(3) [of h] by (cases "h = sha plain"; cases "h = key_hash k") simp_all
    then show ?thesis using replaced(5) by (auto simp: d' key_fresh_def)
  qed (use ok r in simp_all)
  then show "keys_ok d'" "key_fresh render d h data \<Longrightarrow> key_fresh render d' h data \<or> h \<in> set dropped" by blast+
qed

lemma delete_key_fresh:
  assumes ok: "keys_ok d" and r: "delete_key kid d = (res, d', dropped)"
  shows "keys_ok d'" "key_fresh render d h data \<Longrightarrow> key_fresh render d' h data \<or> h \<in> set dropped"
proof -
  have "keys_ok d' \<and> (key_fresh render d h data \<longrightarrow> key_fresh render d' h data \<or> h \<in> set dropped)"
  proof (cases "get_by_id kid d")
    case None
    with ok r show ?thesis by (simp add: delete_key_def)
  next
    case (Some k)
    with r have d': "api_keys d' = filter (\<lambda>k. key_id k \<noteq> kid) (api_keys d)" "dropped = [key_hash k]"
      by (auto simp: delete_key_def repo_delete_def Let_def)
    have ok': "keys_ok d'" using ok by (auto simp: keys_ok_def d' distinct_map_filter)
    have "get_by_hash h d' = get_by_hash h d" if "h \<noteq> key_hash k" and some: "get_by_hash h d = Some x" for x
    proof -
      from get_by_hash_SomeD [OF some] get_by_id_SomeD [OF Some] that ok have "x \<in> set (api_keys d')" "key_hash x = h"
        by (auto simp: d' keys_ok_def dest: distinct_key_eq)
      with get_by_hash_member [OF ok'] some show ?thesis by fastforce
    qed
    then show ?thesis using ok' by (auto simp: d' key_fresh_def)
  qed
  then show "keys_ok d'" "key_fresh render d h data \<Longrightarrow> key_fresh render d' h data \<or> h \<in> set dropped" by blast+
qed

lemma create_key_fresh:
  assumes ok: "keys_ok d" and c: "create_key sha render' uuid plain now ids p d = (res, d')"
  shows "keys_ok d'" "key_fresh render d h data \<Longrightarrow> key_fresh render d' h data"
proof -
  consider "d' = d" | row where "new_key_row sha uuid plain now p = Inr row"
      "repo_create row d = Inr (d\<lparr>api_keys := api_keys d @ [row]\<rparr>)" "api_keys d' = api_keys d @ [row]"
  proof (cases "new_key_row sha uuid plain now p")
    case (Inl e)
    with c that(1) show thesis by (simp add: create_key_def)
  next
    case (Inr row)
    show thesis
    proof (cases "repo_create row d")
      case (Inl e)
      with c Inr that(1) show thesis by (simp add: create_key_def)
    next
      case r: (Inr d1)
      then have d1: "d1 = d\<lparr>api_keys := api_keys d @ [row]\<rparr>" by (simp add: repo_create_def split: if_splits)
      have "api_keys d' = api_keys d1"
        using c Inr r by (auto simp: create_key_def Let_def split: if_splits sum.splits option.splits)
      with Inr r d1 show thesis by (intro that(2)) simp_all
    qed
  qed
  then have "keys_ok d' \<and> (key_fresh render d h data \<longrightarrow> key_fresh render d' h data)"
  proof cases
    case 2
    have "keys_ok (d\<lparr>api_keys := api_keys d @ [row]\<rparr>)" using repo_create_Inr(1) [OF 2(2) ok new_key_row_fields(4) [OF 2(1)]] .
    then have "keys_ok d'" by (simp add: keys_ok_def 2(3))
    moreover have "get_by_hash h d' = Some k" if "get_by_hash h d = Some k" for k
      using that unfolding get_by_hash_def 2(3) by (rule find_append_Some)
    ultimately show ?thesis by (auto simp: key_fresh_def)
  qed (use ok in simp)
  then show "keys_ok d'" "key_fresh render d h data \<Longrightarrow> key_fresh render d' h data" by blast+
qed

lemma keys_ok_unassign: "keys_ok d \<Longrightarrow> keys_ok (unassign_account acc d)"
  by (auto simp: keys_ok_def unassign_account_def comp_def)

subsection \<open>The invariant\<close>

definition auth_inv :: "(string \<Rightarrow> string) \<Rightarrow> (json \<Rightarrow> string) \<Rightarrow> auth_state \<Rightarrow> bool" where
  "auth_inv sha render s \<longleftrightarrow> keys_ok (as_db s) \<and>
     akc.coherent (key_fresh render (as_db s)) (as_cache s) (map_prod sha id ` set_mset (reading s))
       (map_prod sha id ` set_mset (storing s)) (set_mset (owed s))"

lemma token_read_fresh:
  assumes ok: "keys_ok d" and r: "token_read sha render now token d = (Inr data, d')"
  shows "key_rows d' = key_rows d" "key_fresh render d (sha token) data"
proof -
  from r have "token \<noteq> []" by (auto simp: token_read_def validate_key_def)
  with r obtain row where row: "ensure_valid_api_key_row (get_by_hash (sha token) d) = Inr row" "\<not> key_expired now row"
    by (auto simp: token_read_def validate_key_def split: sum.splits if_splits)
  obtain b d2 where l: "lazy_reset_expired_limits (get_limits_by_key (key_id row) d) now d = (b, d2)" by fastforce
  have same: "api_keys d2 = api_keys d" using l by (rule keys_lazy_reset)
  from row(1) have g: "get_by_hash (sha token) d = Some row" "is_active row"
    by (auto simp: ensure_valid_api_key_row_def split: option.splits if_splits)
  have g2: "get_by_hash (sha token) d2 = Some row" unfolding get_by_hash_cong [OF same] by (rule g(1))
  from r \<open>token \<noteq> []\<close> row l g g2 have "d' = d2" "to_api_key_data render d2 row = Inr data"
    by (auto simp: token_read_def validate_key_def ensure_valid_api_key_row_def split: if_splits)
  with same g show "key_rows d' = key_rows d" "key_fresh render d (sha token) data"
    by (auto simp: key_fresh_def dest: shown_view)
qed

lemma token_read_rows: "token_read sha render now token d = (Inl e, d') \<Longrightarrow> key_rows d' = key_rows d"
  by (auto simp: token_read_def validate_key_def dest!: keys_lazy_reset split: sum.splits if_splits prod.splits)

lemma owed_for_scope: "h \<in> set dropped \<Longrightarrow> h \<in> \<Union> (drop_scope ` set_mset (owed_for remote dropped))"
  by (auto simp: owed_for_def)

lemma auth_inv_write:
  assumes inv: "auth_inv sha render s" and ok: "keys_ok d"
    and w: "\<And>h data. key_fresh render (as_db s) h data \<Longrightarrow> key_fresh render d h data \<or> h \<in> \<Union> (drop_scope ` set_mset Q)"
  shows "auth_inv sha render (s\<lparr>as_db := d, owed := owed s + Q\<rparr>)"
  using ok akc.coherent_write [OF inv [unfolded auth_inv_def, THEN conjunct2] w] by (simp add: auth_inv_def)

lemma auth_inv_admin:
  assumes inv: "auth_inv sha render s" and ok: "keys_ok d"
    and w: "\<And>h data. key_fresh render (as_db s) h data \<Longrightarrow> key_fresh render d h data \<or> h \<in> set dropped"
  shows "auth_inv sha render (s\<lparr>as_db := d, owed := owed s + owed_for remote dropped\<rparr>)"
proof (rule auth_inv_write [OF inv ok])
  fix h data
  assume "key_fresh render (as_db s) h data"
  from w [OF this] owed_for_scope [of h dropped remote]
  show "key_fresh render d h data \<or> h \<in> \<Union> (drop_scope ` set_mset (owed_for remote dropped))" by (elim disjE) simp_all
qed

lemma auth_inv_rows:
  assumes "auth_inv sha render s" "key_rows d = key_rows (as_db s)"
  shows "auth_inv sha render (s\<lparr>as_db := d\<rparr>)"
  using assms unfolding auth_inv_def
  by (simp add: keys_ok_rows_cong [OF assms(2)] key_fresh_cong [OF assms(2), abs_def])

lemma auth_inv_weaken:
  assumes "auth_inv sha render s" "set_mset A \<subseteq> set_mset (reading s)" "set_mset B \<subseteq> set_mset (storing s)"
  shows "auth_inv sha render (s\<lparr>reading := A, storing := B\<rparr>)"
  using assms unfolding auth_inv_def by (auto intro: akc.coherent_mono image_mono)

lemma auth_inv_cache:
  assumes "auth_inv sha render s"
    "akc.coherent (key_fresh render (as_db s)) c (map_prod sha id ` set_mset (reading s)) (map_prod sha id ` set_mset (storing s)) (set_mset P)"
  shows "auth_inv sha render (s\<lparr>as_cache := c, owed := P\<rparr>)"
  using assms by (simp add: auth_inv_def)

lemma auth_inv_coherent: "auth_inv sha render s \<Longrightarrow>
  akc.coherent (key_fresh render (as_db s)) (as_cache s) (map_prod sha id ` set_mset (reading s)) (map_prod sha id ` set_mset (storing s)) (set_mset (owed s))"
  by (simp add: auth_inv_def)

lemma token_lookup_cache:
  "token_lookup sha now utcnow token c = (r, c') \<Longrightarrow> c' = c \<or> c' = drop_purge (Drop_Key (sha token)) c"
  by (auto simp: token_lookup_def split: option.splits if_splits)

lemma auth_inv_lookup:
  assumes inv: "auth_inv sha render s" and l: "token_lookup sha now utcnow token (as_cache s) = (r, c)"
  shows "auth_inv sha render (s\<lparr>as_cache := c\<rparr>)"
proof -
  note co = auth_inv_coherent [OF inv]
  have "akc.coherent (key_fresh render (as_db s)) c (map_prod sha id ` set_mset (reading s)) (map_prod sha id ` set_mset (storing s)) (set_mset (owed s))"
    using token_lookup_cache [OF l]
  proof
    assume "c = drop_purge (Drop_Key (sha token)) (as_cache s)"
    then show ?thesis using akc.coherent_mono [OF akc.coherent_purge [OF co]] by blast
  qed (use co in simp)
  then show ?thesis using inv by (simp add: auth_inv_def)
qed

lemma remove_one_mset: "set_mset M - {p} \<subseteq> set_mset (M - {#p#})"
proof (cases "p \<in># M - {#p#}")
  case True
  show ?thesis unfolding more_than_one_mset_mset_diff [OF True] by (rule Diff_subset)
next
  case False
  show ?thesis unfolding at_most_one_mset_mset_diff [OF False] by (rule order_refl)
qed

lemma auth_step_inv:
  assumes "auth_step sha render s s'" "auth_inv sha render s"
  shows "auth_inv sha render s'"
  using assms(1)
proof cases
  case (hit now utcnow token data c)
  then show ?thesis using auth_inv_lookup [OF assms(2)] by simp
next
  case (miss now utcnow token c)
  have "auth_inv sha render (s\<lparr>as_cache := c\<rparr>)" using assms(2) miss(2) by (rule auth_inv_lookup)
  then show ?thesis unfolding miss(1) auth_inv_def by (auto dest: akc.coherent_begin)
next
  case (read token n utcnow data d)
  have ok: "keys_ok (as_db s)" using assms(2) by (simp add: auth_inv_def)
  note r = token_read_fresh [OF ok read(3)]
  have "akc.coherent (key_fresh render (as_db s)) (as_cache s) (map_prod sha id ` set_mset (reading s))
      (insert (sha token, n, data) (map_prod sha id ` set_mset (storing s))) (set_mset (owed s))"
    using auth_inv_coherent [OF assms(2)] read(2) r(2) by (intro akc.coherent_read) (force simp: image_iff)+
  then have "auth_inv sha render (s\<lparr>storing := add_mset (token, n, data) (storing s)\<rparr>)"
    using assms(2) by (simp add: auth_inv_def)
  from auth_inv_rows [OF this, of d] r(1)
  have "auth_inv sha render (s\<lparr>storing := add_mset (token, n, data) (storing s), as_db := d\<rparr>)" by simp
  from auth_inv_weaken [OF this, of "reading s - {#(token, n)#}" "add_mset (token, n, data) (storing s)"]
  show ?thesis unfolding read(1) by (simp add: set_mset_mono)
next
  case (refused token n utcnow e d)
  from auth_inv_rows [OF assms(2), of d] token_read_rows [OF refused(3)]
  have "auth_inv sha render (s\<lparr>as_db := d\<rparr>)" by simp
  from auth_inv_weaken [OF this, of "reading s - {#(token, n)#}" "storing s"]
  show ?thesis unfolding refused(1) by (simp add: set_mset_mono)
next
  case (store token n data now c)
  have "c = key_fill now (sha token) data n (as_cache s)" using store(3) by (simp add: key_fill_def token_store_def)
  moreover have "(sha token, n, data) \<in> map_prod sha id ` set_mset (storing s)" using store(2) by (force simp: image_iff)
  ultimately have "auth_inv sha render (s\<lparr>as_cache := c, owed := owed s\<rparr>)"
    using akc.coherent_fill [OF auth_inv_coherent [OF assms(2)]] by (intro auth_inv_cache [OF assms(2)]) simp
  from auth_inv_weaken [OF this, of "reading s" "storing s - {#(token, n, data)#}"]
  show ?thesis unfolding store(1) by (simp add: set_mset_mono)
next
  case (update now accounts ids kid p res d dropped remote)
  have ok: "keys_ok (as_db s)" using assms(2) by (simp add: auth_inv_def)
  note u = update_key_fresh [OF ok update(2)]
  show ?thesis unfolding update(1) by (rule auth_inv_admin [OF assms(2) u])
next
  case (regenerate plain kid res d dropped remote)
  have ok: "keys_ok (as_db s)" using assms(2) by (simp add: auth_inv_def)
  note u = regenerate_key_fresh [OF ok regenerate(2)]
  show ?thesis unfolding regenerate(1) by (rule auth_inv_admin [OF assms(2) u])
next
  case (delete kid res d dropped remote)
  have ok: "keys_ok (as_db s)" using assms(2) by (simp add: auth_inv_def)
  note u = delete_key_fresh [OF ok delete(2)]
  show ?thesis unfolding delete(1) by (rule auth_inv_admin [OF assms(2) u])
next
  case (create uuid plain now ids p res d)
  have ok: "keys_ok (as_db s)" using assms(2) by (simp add: auth_inv_def)
  note u = create_key_fresh [OF ok create(2)]
  from auth_inv_write [OF assms(2) u(1), where Q = "{#}"] u(2) show ?thesis unfolding create(1) by simp
next
  case (account_deleted acc)
  have ok: "keys_ok (as_db s)" using assms(2) by (simp add: auth_inv_def)
  from auth_inv_write [OF assms(2) keys_ok_unassign [OF ok], where Q = "{#Drop_All#}"] show ?thesis
    unfolding account_deleted by simp
next
  case (quota l l')
  show ?thesis unfolding quota(1) using rows_ledger_step [OF quota(2)] quota(3) by (intro auth_inv_rows [OF assms(2)]) simp
next
  case (invalidate p)
  have "set_mset (owed s) - {p} \<subseteq> set_mset (owed s - {#p#})" by (rule remove_one_mset)
  then show ?thesis unfolding invalidate(1)
    using akc.coherent_mono [OF akc.coherent_purge [OF auth_inv_coherent [OF assms(2)], of p] order_refl order_refl]
    by (intro auth_inv_cache [OF assms(2)])
next
  case polled
  have "auth_inv sha render (s\<lparr>as_cache := drop_purge Drop_All (as_cache s), owed := owed s\<rparr>)"
    using akc.coherent_mono [OF akc.coherent_purge [OF auth_inv_coherent [OF assms(2)], of Drop_All] order_refl order_refl Diff_subset]
    by (intro auth_inv_cache [OF assms(2)])
  then show ?thesis unfolding polled by simp
qed

lemma auth_run_inv: "(auth_step sha render)\<^sup>*\<^sup>* s s' \<Longrightarrow> auth_inv sha render s \<Longrightarrow> auth_inv sha render s'"
  by (induction rule: rtranclp_induct) (auto intro: auth_step_inv)

lemma auth_init_inv: "keys_ok d \<Longrightarrow> auth_inv sha render (auth_init d)"
  by (simp add: auth_inv_def auth_init_def akc.coherent_def api_key_cache_def ApiKeyCache_def stored_def)

text \<open>
  C12. However requests, administration, quota handlers and invalidations overlap, on this and on other
  instances: a key the cache serves while no invalidation for it is outstanding is in the database,
  active, and has there the settings that are served. So a revoked or changed key is not served
  once its invalidation has been carried out, even if a request that read the old row stores it late.
\<close>

theorem revoked_key_not_served:
  assumes "keys_ok d" "(auth_step sha render)\<^sup>*\<^sup>* (auth_init d) s" "cache_get now (as_cache s) h = Some data"
    "Drop_Key h \<notin># owed s" "Drop_All \<notin># owed s"
  shows "\<exists>k. get_by_hash h (as_db s) = Some k \<and> is_active k \<and> shown render k = Inr (key_view data)"
proof -
  have inv: "auth_inv sha render s" by (rule auth_run_inv [OF assms(2) auth_init_inv [OF assms(1)]])
  have "h \<notin> drop_scope p" if "p \<in># owed s" for p using that assms(4,5) by (cases p) auto
  then have "h \<notin> \<Union> (drop_scope ` set_mset (owed s))" by blast
  from akc.coherent_served [OF auth_inv_coherent [OF inv] cache_get_stored [OF assms(3)] this]
  show ?thesis unfolding key_fresh_def .
qed

theorem revoked_key_not_served_witness:
  "\<exists>s data. (auth_step (\<lambda>s. s) (\<lambda>v. []))\<^sup>*\<^sup>* (auth_init demo_db) s \<and> cache_get 6 (as_cache s) ''sk-old'' = Some data \<and>
     (\<exists>k. get_by_hash ''sk-old'' (as_db s) = Some k \<and> is_active k \<and> shown (\<lambda>v. []) k = Inr (key_view data))"
proof -
  let ?R = "auth_step (\<lambda>s. s) (\<lambda>v. [])"
  let ?r = "token_read (\<lambda>s. s) (\<lambda>v. []) 5 ''sk-old'' demo_db"
  have "\<not> isl (fst ?r)" and same: "snd ?r = demo_db" by code_simp+
  then obtain data where "fst ?r = Inr data" by (metis isl_def old.sum.exhaust)
  with same have r: "?r = (Inr data, demo_db)" by (metis prod.collapse)
  define c :: "api_key_data key_cache" where
    "c = api_key_cache\<lparr>kc_entries := [(''sk-old'', \<lparr>ck_data = data, ck_expires_at = 7\<rparr>)]\<rparr>"
  define s1 where "s1 = (auth_init demo_db)\<lparr>reading := {#(''sk-old'', 0)#}\<rparr>"
  define s2 where "s2 = s1\<lparr>reading := {#}, storing := {#(''sk-old'', 0, data)#}\<rparr>"
  define s3 where "s3 = s2\<lparr>as_cache := c, storing := {#}\<rparr>"
  have "token_lookup (\<lambda>s. s) 5 5 ''sk-old'' (api_key_cache :: api_key_data key_cache) = (None, api_key_cache)"
    by (simp add: token_lookup_def cache_get_def api_key_cache_def ApiKeyCache_def)
  from auth_step.miss [where s = "auth_init demo_db" and render = "\<lambda>v. []", of "\<lambda>s. s" 5 5 "''sk-old''"] this
  have 1: "?R (auth_init demo_db) s1" by (simp add: s1_def auth_init_def api_key_cache_def ApiKeyCache_def)
  have 2: "?R s1 s2"
    using auth_step.read [where s = s1 and sha = "\<lambda>s. s" and render = "\<lambda>v. []" and token = "''sk-old''" and n = 0 and utcnow = 5
        and data = data and d = demo_db] r
    by (simp add: s1_def s2_def auth_init_def)
  have 3: "?R s2 s3"
    using auth_step.store [where s = s2 and sha = "\<lambda>s. s" and token = "''sk-old''" and n = 0 and data = data and now = 5 and c = c and render = "\<lambda>v. []"]
    by (simp add: s1_def s2_def s3_def c_def auth_init_def token_store_def cache_set_def evict_def api_key_cache_def ApiKeyCache_def)
  from 1 2 3 have run: "?R\<^sup>*\<^sup>* (auth_init demo_db) s3" by (meson converse_rtranclp_into_rtranclp rtranclp.rtrancl_refl)
  have get: "cache_get 6 (as_cache s3) ''sk-old'' = Some data" by (simp add: s3_def c_def cache_get_def)
  have "owed s3 = {#}" by (simp add: s3_def s2_def s1_def auth_init_def)
  with revoked_key_not_served [OF demo_db_ok run get] run get show ?thesis by auto
qed

section \<open>The poller\<close>

definition fires :: "'cb poller \<Rightarrow> string \<Rightarrow> int \<Rightarrow> bool" where
  "fires p ns v = (case map_of (known_versions p) ns of
     Some prev \<Rightarrow> v \<noteq> prev | None \<Rightarrow> poll_initialized p \<and> v > 0)"

lemma poll_rows_spec:
  assumes "distinct (map fst rows)" "poll_rows rows p = (called, p')"
  shows "set called = (\<Union>(ns, v) \<in> {r \<in> set rows. fires p (fst r) (snd r)}. set (dict_get_list ns (callbacks p)))"
    and "map_of (known_versions p') = map_of (known_versions p) ++ map_of rows"
    and "callbacks p' = callbacks p" "poll_initialized p' = poll_initialized p"
proof -
  have "set called = (\<Union>(ns, v) \<in> {r \<in> set rows. fires p (fst r) (snd r)}. set (dict_get_list ns (callbacks p))) \<and>
     map_of (known_versions p') = map_of (known_versions p) ++ map_of rows \<and>
     callbacks p' = callbacks p \<and> poll_initialized p' = poll_initialized p"
    using assms
  proof (induction rows arbitrary: p called p')
    case (Cons r rows)
    obtain ns v where r: "r = (ns, v)" by (cases r)
    let ?p = "p\<lparr>known_versions := dict_set ns v (known_versions p)\<rparr>"
    obtain rest p2 where rest: "poll_rows rows ?p = (rest, p2)" by fastforce
    have dr: "distinct (map fst rows)" using Cons.prems(1) by simp
    have IH: "set rest = (\<Union>(ns, v) \<in> {r \<in> set rows. fires ?p (fst r) (snd r)}. set (dict_get_list ns (callbacks ?p)))"
      "map_of (known_versions p2) = map_of (known_versions ?p) ++ map_of rows" "callbacks p2 = callbacks ?p"
      "poll_initialized p2 = poll_initialized ?p"
      using Cons.IH [OF dr rest] by blast+
    have new: "ns \<notin> fst ` set rows" using Cons.prems(1) r by simp
    have same: "fires ?p (fst x) (snd x) = fires p (fst x) (snd x)" if "x \<in> set rows" for x
      using new that by (cases "map_of (known_versions p) (fst x)") (auto simp: fires_def)
    have c: "called = (if fires p ns v then dict_get_list ns (callbacks p) else []) @ rest" "p' = p2"
      using Cons.prems(2) rest by (auto simp: r fires_def Let_def)
    have "set rest = (\<Union>(ns, v) \<in> {r \<in> set rows. fires p (fst r) (snd r)}. set (dict_get_list ns (callbacks p)))"
      unfolding IH(1) using same by (intro SUP_cong) auto
    then have "set called = (\<Union>(ns, v) \<in> {x \<in> set (r # rows). fires p (fst x) (snd x)}. set (dict_get_list ns (callbacks p)))"
      by (auto simp: c r)
    moreover have "map_of (known_versions p') = map_of (known_versions p) ++ map_of (r # rows)"
      using IH(2) new by (auto simp: c r fun_eq_iff map_add_def map_of_eq_None_iff split: option.splits)
    moreover have "callbacks p' = callbacks p" "poll_initialized p' = poll_initialized p" using IH(3,4) by (simp_all add: c)
    ultimately show ?case by (intro conjI)
  qed simp
  then show "set called = (\<Union>(ns, v) \<in> {r \<in> set rows. fires p (fst r) (snd r)}. set (dict_get_list ns (callbacks p)))"
    "map_of (known_versions p') = map_of (known_versions p) ++ map_of rows"
    "callbacks p' = callbacks p" "poll_initialized p' = poll_initialized p" by simp_all
qed

lemma distinct_bumps: "distinct (map fst table) \<Longrightarrow> distinct (map fst (fold (bump False) nss table))"
  by (induction nss arbitrary: table) (auto simp: bump_def distinct_dict_set)

lemma bumps_versions:
  assumes "\<forall>v \<in> snd ` set table. 0 \<le> v" "distinct (map fst table)"
  shows "map_of (fold (bump False) nss table) ns =
    (if ns \<in> set nss then Some ((case map_of table ns of None \<Rightarrow> 0 | Some v \<Rightarrow> v) + int (count_list nss ns)) else map_of table ns)"
  using assms
proof (induction nss arbitrary: table)
  case (Cons n nss)
  have "\<forall>v \<in> snd ` set (bump False n table). 0 \<le> v"
  proof
    fix v
    assume "v \<in> snd ` set (bump False n table)"
    then obtain m where "map_of (bump False n table) m = Some v"
      using distinct_bumps [OF Cons.prems(2), of "[n]"] by (auto simp: image_iff)
    then show "0 \<le> v" using Cons.prems by (force simp: bump_def split: if_splits option.splits dest: map_of_SomeD)
  qed
  moreover have "distinct (map fst (bump False n table))" using distinct_bumps [OF Cons.prems(2), of "[n]"] by simp
  ultimately show ?case using Cons.IH [of "bump False n table"] by (auto simp: bump_def split: option.splits)
qed simp

text \<open>
  After a poll that saw the versions \<open>table\<close>, the next poll calls the callbacks of exactly those
  namespaces that were bumped in between, by whichever instance and however often, and the poll
  after that calls none.
\<close>

theorem poll_notices_bumps:
  assumes t: "distinct (map fst table)" "\<forall>v \<in> snd ` set table. 0 \<le> v"
    and p1: "poll_once False table p = (called0, p1)"
    and p2: "poll_once False (fold (bump False) nss table) p1 = (called, p2)"
    and known: "fst ` set (known_versions p) \<subseteq> fst ` set table"
  shows "set called = (\<Union>ns \<in> set nss. set (dict_get_list ns (callbacks p))) \<and>
    set (fst (poll_once False (fold (bump False) nss table) p2)) = {}"
proof -
  let ?t = "fold (bump False) nss table"
  have dt: "distinct (map fst ?t)" using t(1) by (rule distinct_bumps)
  obtain q1 where q1: "poll_rows table p = (called0, q1)" "p1 = q1\<lparr>poll_initialized := True\<rparr>"
    using p1 by (auto simp: poll_once_def split: prod.splits)
  note s1 = poll_rows_spec [OF t(1) q1(1)]
  have k1: "map_of (known_versions p1) = map_of table" "callbacks p1 = callbacks p" "poll_initialized p1"
    using s1(2,3) known by (auto simp: q1(2) fun_eq_iff map_add_def map_of_eq_None_iff split: option.splits)
      (metis domIff dom_map_of_conv_image_fst subsetD)
  obtain q2 where q2: "poll_rows ?t p1 = (called, q2)" "p2 = q2\<lparr>poll_initialized := True\<rparr>"
    using p2 by (auto simp: poll_once_def split: prod.splits)
  note s2 = poll_rows_spec [OF dt q2(1)]
  have fires: "ns \<in> set nss \<longleftrightarrow> fires p1 ns v" if "map_of ?t ns = Some v" for ns v
  proof (cases "ns \<in> set nss")
    case True
    then have "0 < count_list nss ns" by (metis count_list_0_iff gr0I)
    moreover have "0 \<le> w" if "map_of table ns = Some w" for w using t(2) map_of_SomeD [OF that] by force
    ultimately show ?thesis using that True bumps_versions [OF t(2,1), of nss ns]
      by (auto simp: fires_def k1 split: option.splits)
  next
    case False
    then show ?thesis using that bumps_versions [OF t(2,1), of nss ns] by (simp add: fires_def k1)
  qed
  have "{r \<in> set ?t. fires p1 (fst r) (snd r)} = {r \<in> set ?t. fst r \<in> set nss}"
    using fires dt by (auto simp: map_of_eq_Some_iff)
  moreover have "fst ` {r \<in> set ?t. fst r \<in> set nss} = set nss"
  proof
    show "set nss \<subseteq> fst ` {r \<in> set ?t. fst r \<in> set nss}"
    proof
      fix ns
      assume ns: "ns \<in> set nss"
      then obtain v where "map_of ?t ns = Some v" using bumps_versions [OF t(2,1), of nss ns] by simp
      from map_of_SomeD [OF this] ns show "ns \<in> fst ` {r \<in> set ?t. fst r \<in> set nss}" by force
    qed
  qed auto
  ultimately have "set called = (\<Union>ns \<in> set nss. set (dict_get_list ns (callbacks p)))"
    unfolding s2(1) k1(2) by (metis (no_types, lifting) SUP_cong SUP_image case_prod_beta comp_apply)
  moreover have "map_of (known_versions p2) = map_of ?t"
  proof -
    have "dom (map_of table) \<subseteq> dom (map_of ?t)" using bumps_versions [OF t(2,1), of nss] by (auto simp: dom_def)
    then show ?thesis using s2(2) k1(1) by (simp add: q2(2) map_add_def fun_eq_iff split: option.splits) blast
  qed
  then have "\<not> fires p2 (fst r) (snd r)" if "r \<in> set ?t" for r
    using that dt by (cases r) (simp add: fires_def map_of_is_SomeI)
  then have none: "{r \<in> set ?t. fires p2 (fst r) (snd r)} = {}" by blast
  obtain called3 q3 where q3: "poll_rows ?t p2 = (called3, q3)" by fastforce
  from poll_rows_spec(1) [OF dt q3] none have "set called3 = {}" by simp
  then have "set (fst (poll_once False ?t p2)) = {}" by (simp add: poll_once_def q3)
  ultimately show ?thesis by blast
qed

theorem poll_notices_bumps_witness:
  "let p = on_invalidation ''api_key'' ''clear keys'' (on_invalidation ''firewall'' ''clear decisions'' CacheInvalidationPoller)
   in set (fst (poll_once False (fold (bump False) [''firewall'', ''firewall''] [(''api_key'', 3)])
        (snd (poll_once False [(''api_key'', 3)] p)))) = {''clear decisions''}"
proof -
  let ?p = "on_invalidation ''api_key'' ''clear keys'' (on_invalidation ''firewall'' ''clear decisions'' CacheInvalidationPoller)"
  let ?t = "[(''api_key'', 3 :: int)]"
  have "poll_once False ?t ?p = (fst (poll_once False ?t ?p), snd (poll_once False ?t ?p))"
    "poll_once False (fold (bump False) [''firewall'', ''firewall''] ?t) (snd (poll_once False ?t ?p)) =
      (fst (poll_once False (fold (bump False) [''firewall'', ''firewall''] ?t) (snd (poll_once False ?t ?p))),
       snd (poll_once False (fold (bump False) [''firewall'', ''firewall''] ?t) (snd (poll_once False ?t ?p))))"
    by simp_all
  note poll_notices_bumps [OF _ _ this]
  moreover have "dict_get_list ''firewall'' (callbacks ?p) = [''clear decisions'']" by code_simp
  moreover have "known_versions ?p = []" by code_simp
  ultimately show ?thesis unfolding Let_def by simp
qed

end
