(* ===== verification/Leases.thy ===== *)
theory Leases
  imports Prelude
begin

text \<open>
  Leadership by lease: \<open>app/core/scheduling/leader_election.py\<close> over its one-row table
  \<open>scheduler_leader\<close>, and the interface \<open>lease_store\<close> that this table and the claims of bridge
  sessions (theory \<open>Bridge_Sessions\<close>) have in common.

  The lemmas show that at most one instance holds a live lease, that a lapsed lease can always be
  taken, and what \<open>renew\<close> reports after the leadership has passed on.
\<close>

section \<open>Leader election\<close>

record scheduler_leader =
  sl_leader_id :: string
  sl_acquired_at :: datetime
  sl_expires_at :: datetime

record leader_settings =
  leader_election_enabled :: bool
  database_url :: string
  leader_election_ttl_seconds :: int

record leader_election =
  le_leader_id :: string
  le_is_leader :: bool

text \<open>How the database session of a call ends.\<close>

datatype session_outcome = Session_Ok | Fails_Before_Commit | Fails_After_Commit

definition LeaderElection :: "string option \<Rightarrow> string \<Rightarrow> leader_election" where
  "LeaderElection lid uuid =
     \<lparr>le_leader_id = (if truthy_str lid then the lid else uuid), le_is_leader = False\<rparr>"

definition without_election :: "leader_settings \<Rightarrow> bool" where
  "without_election st = (\<not> leader_election_enabled st \<or> sublist ''sqlite'' (py_lower (database_url st)))"

text \<open>The \<open>INSERT ... ON CONFLICT DO UPDATE ... WHERE\<close> on the row with id 1.\<close>

definition upsert_leader :: "string \<Rightarrow> datetime \<Rightarrow> datetime \<Rightarrow> scheduler_leader option \<Rightarrow> scheduler_leader option" where
  "upsert_leader lid now expires_at row =
     (let new = \<lparr>sl_leader_id = lid, sl_acquired_at = now, sl_expires_at = expires_at\<rparr>
      in case row of
           None \<Rightarrow> Some new
         | Some r \<Rightarrow> if sl_expires_at r < now \<or> sl_leader_id r = lid then Some new else Some r)"

definition try_acquire_leader :: "leader_settings \<Rightarrow> session_outcome \<Rightarrow> datetime \<Rightarrow> leader_election
    \<Rightarrow> scheduler_leader option \<Rightarrow> bool \<times> leader_election \<times> scheduler_leader option" where
  "try_acquire_leader st oc now le row =
     (if without_election st then (True, le\<lparr>le_is_leader := True\<rparr>, row)
      else let expires_at = now + timedelta_seconds (leader_election_ttl_seconds st);
               row' = upsert_leader (le_leader_id le) now expires_at row
           in case oc of
                Fails_Before_Commit \<Rightarrow> (False, le\<lparr>le_is_leader := False\<rparr>, row)
              | Fails_After_Commit \<Rightarrow> (False, le\<lparr>le_is_leader := False\<rparr>, row')
              | Session_Ok \<Rightarrow>
                  (let mine = (map_option sl_leader_id row' = Some (le_leader_id le))
                   in (mine, le\<lparr>le_is_leader := mine\<rparr>, row')))"

definition renew_leader :: "leader_settings \<Rightarrow> session_outcome \<Rightarrow> datetime \<Rightarrow> leader_election
    \<Rightarrow> scheduler_leader option \<Rightarrow> bool \<times> scheduler_leader option" where
  "renew_leader st oc now le row =
     (if \<not> le_is_leader le then (False, row)
      else if without_election st then (True, row)
      else let expires_at = now + timedelta_seconds (leader_election_ttl_seconds st);
               row' = (case row of None \<Rightarrow> None
                 | Some r \<Rightarrow> if sl_leader_id r = le_leader_id le then Some (r\<lparr>sl_expires_at := expires_at\<rparr>) else Some r)
           in case oc of
                Fails_Before_Commit \<Rightarrow> (False, row)
              | Fails_After_Commit \<Rightarrow> (False, row')
              | Session_Ok \<Rightarrow> (True, row'))"

definition get_leader_election :: "string \<Rightarrow> leader_election option \<Rightarrow> leader_election \<times> leader_election option" where
  "get_leader_election uuid glob = (case glob of
     Some le \<Rightarrow> (le, glob) | None \<Rightarrow> (let le = LeaderElection None uuid in (le, Some le)))"

section \<open>Runs of several instances\<close>

text \<open>
  Attempts of several instances on one table, in the order their transactions commit. The second
  result is what the instances know: for each the end of the last lease it was granted.
\<close>

fun lease_run :: "('t \<Rightarrow> 'i \<Rightarrow> 's \<Rightarrow> bool \<times> 's) \<Rightarrow> ('s \<Rightarrow> ('i \<times> 't) option) \<Rightarrow> ('t \<times> 'i) list
    \<Rightarrow> 's \<times> ('i \<rightharpoonup> 't) \<Rightarrow> 's \<times> ('i \<rightharpoonup> 't)" where
  "lease_run acquire lease [] (s, known) = (s, known)"
| "lease_run acquire lease ((now, i) # ops) (s, known) = (case acquire now i s of
     (False, s') \<Rightarrow> lease_run acquire lease ops (s', known(i := None))
   | (True, s') \<Rightarrow> lease_run acquire lease ops (s', known(i := map_option snd (lease s'))))"

text \<open>An attempt of the instance with the given id, with elections enabled and the session ending well.\<close>

definition leader_acquire :: "leader_settings \<Rightarrow> datetime \<Rightarrow> string \<Rightarrow> scheduler_leader option
    \<Rightarrow> bool \<times> scheduler_leader option" where
  "leader_acquire st now lid row =
     (case try_acquire_leader st Session_Ok now \<lparr>le_leader_id = lid, le_is_leader = False\<rparr> row of (b, le, row') \<Rightarrow> (b, row'))"

definition leader_lease :: "scheduler_leader option \<Rightarrow> (string \<times> datetime) option" where
  "leader_lease row = map_option (\<lambda>r. (sl_leader_id r, sl_expires_at r)) row"

definition elections :: leader_settings where
  "elections = \<lparr>leader_election_enabled = True, database_url = ''postgresql://db'', leader_election_ttl_seconds = 600\<rparr>"

section \<open>Stores of leases\<close>

locale lease_store =
  fixes acquire :: "'t :: linorder \<Rightarrow> 'i \<Rightarrow> 's \<Rightarrow> bool \<times> 's"
    and lease :: "'s \<Rightarrow> ('i \<times> 't) option"
    and live :: "'t \<Rightarrow> 't \<Rightarrow> bool"
  assumes refused: "acquire now i s = (False, s') \<Longrightarrow> lease s' = lease s"
    and granted: "acquire now i s = (True, s') \<Longrightarrow> \<exists>e. lease s' = Some (i, e)"
    and exclusive: "acquire now i s = (True, s') \<Longrightarrow> lease s = Some (j, e) \<Longrightarrow> live now e \<Longrightarrow> j = i"
    and lapses: "live now' e \<Longrightarrow> now \<le> now' \<Longrightarrow> live now e"
begin

lemma step_sound:
  assumes "\<forall>i e. known i = Some e \<longrightarrow> live T e \<longrightarrow> lease s = Some (i, e)" and "now \<le> T"
    and "acquire now j s = (b, s1)" and "(known(j := if b then map_option snd (lease s1) else None)) i = Some e" "live T e"
  shows "lease s1 = Some (i, e)"
proof (cases b)
  case True
  with granted assms(3) obtain e1 where e1: "lease s1 = Some (j, e1)" by metis
  show ?thesis
  proof (cases "i = j")
    case True
    with assms(4) \<open>b\<close> e1 show ?thesis by simp
  next
    case False
    with assms(1,4,5) have "lease s = Some (i, e)" by auto
    with exclusive [of now j s s1 i e] assms(3) \<open>b\<close> lapses [OF assms(5,2)] False show ?thesis by simp
  qed
next
  case False
  with assms(4) have "i \<noteq> j" by auto
  with assms(1,4,5) have "lease s = Some (i, e)" by auto
  with refused [of now j s s1] assms(3) False show ?thesis by simp
qed

lemma run_sound:
  "\<forall>op \<in> set ops. fst op \<le> T \<Longrightarrow> \<forall>i e. known i = Some e \<longrightarrow> live T e \<longrightarrow> lease s = Some (i, e) \<Longrightarrow>
   lease_run acquire lease ops (s, known) = (s', known') \<Longrightarrow> known' i = Some e \<Longrightarrow> live T e \<Longrightarrow> lease s' = Some (i, e)"
proof (induction ops arbitrary: s known)
  case (Cons op ops)
  obtain now j where op: "op = (now, j)" by fastforce
  obtain b s1 where a: "acquire now j s = (b, s1)" by fastforce
  let ?k = "known(j := if b then map_option snd (lease s1) else None)"
  show ?case
  proof (rule Cons.IH [where s = s1 and known = ?k])
    show "\<forall>i e. ?k i = Some e \<longrightarrow> live T e \<longrightarrow> lease s1 = Some (i, e)"
      using step_sound [OF Cons.prems(2) _ a] Cons.prems(1) by (simp add: op)
    show "lease_run acquire lease ops (s1, ?k) = (s', known')"
      using Cons.prems(3) a by (cases b) (simp_all add: op)
  qed (use Cons.prems in auto)
qed simp

lemma at_most_one_holder:
  assumes "\<forall>op \<in> set ops. fst op \<le> T" and "lease_run acquire lease ops (s, \<lambda>i. None) = (s', known)"
    and "known i = Some e" "live T e" "known j = Some e'" "live T e'"
  shows "i = j"
  using run_sound [OF assms(1) _ assms(2,3,4)] run_sound [OF assms(1) _ assms(2,5,6)] by simp

lemma refused_while_live:
  assumes "lease s = Some (j, e)" "live now e" "i \<noteq> j"
  shows "\<not> fst (acquire now i s)"
  using exclusive [of now i s _ j e] assms by (cases "acquire now i s") auto

end

section \<open>The leader\<close>

lemma leader_acquire_eq:
  "\<not> without_election st \<Longrightarrow> leader_acquire st now lid row =
    (let row' = upsert_leader lid now (now + timedelta_seconds (leader_election_ttl_seconds st)) row
     in (map_option sl_leader_id row' = Some lid, row'))"
  by (simp add: leader_acquire_def try_acquire_leader_def Let_def)

lemma elections_on: "\<not> without_election (elections\<lparr>leader_election_ttl_seconds := ttl\<rparr>)"
  by (simp add: elections_def without_election_def) code_simp

lemma leader_acquire_cases:
  "leader_acquire (elections\<lparr>leader_election_ttl_seconds := ttl\<rparr>) now lid row =
     (case row of
        None \<Rightarrow> (True, Some \<lparr>sl_leader_id = lid, sl_acquired_at = now, sl_expires_at = now + timedelta_seconds ttl\<rparr>)
      | Some r \<Rightarrow> if sl_expires_at r < now \<or> sl_leader_id r = lid
          then (True, Some \<lparr>sl_leader_id = lid, sl_acquired_at = now, sl_expires_at = now + timedelta_seconds ttl\<rparr>)
          else (False, Some r))"
  by (simp add: leader_acquire_eq [OF elections_on] upsert_leader_def Let_def split: option.splits)

interpretation leader: lease_store "leader_acquire (elections\<lparr>leader_election_ttl_seconds := ttl\<rparr>)" leader_lease "(\<le>)" for ttl
  by unfold_locales (auto simp: leader_acquire_cases leader_lease_def split: option.splits if_splits)

lemma leader_acquire_elections: "\<not> without_election st \<Longrightarrow> leader_acquire st =
    leader_acquire (elections\<lparr>leader_election_ttl_seconds := leader_election_ttl_seconds st\<rparr>)"
  by (rule ext)+ (simp add: leader_acquire_eq elections_on)

text \<open>
  C23. At most one leader: whatever instances try to become leader, in any order in which their
  transactions commit, at no time that none of their clocks has passed do two of them hold a lease
  they were granted and that has not yet ended; and an instance that finds the lease lapsed, or its own, is granted it.
\<close>

theorem at_most_one_leader:
  assumes "\<not> without_election st" and "\<forall>op \<in> set ops. fst op \<le> now"
    and "lease_run (leader_acquire st) leader_lease ops (row, \<lambda>i. None) = (row', known)"
  shows "(known i = Some e \<and> now \<le> e \<and> known j = Some e' \<and> now \<le> e' \<longrightarrow> i = j) \<and>
    (fst (leader_acquire st now i row') \<longleftrightarrow>
      (case row' of None \<Rightarrow> True | Some r \<Rightarrow> sl_leader_id r = i \<or> sl_expires_at r < now))"
proof -
  have "known i = Some e \<Longrightarrow> now \<le> e \<Longrightarrow> known j = Some e' \<Longrightarrow> now \<le> e' \<Longrightarrow> i = j"
    by (rule leader.at_most_one_holder [OF assms(2) assms(3) [unfolded leader_acquire_elections [OF assms(1)]]])
  moreover have "fst (leader_acquire st now i row') \<longleftrightarrow>
      (case row' of None \<Rightarrow> True | Some r \<Rightarrow> sl_leader_id r = i \<or> sl_expires_at r < now)"
    by (auto simp: leader_acquire_eq [OF assms(1)] upsert_leader_def Let_def split: option.splits)
  ultimately show ?thesis by blast
qed

lemma sample_election: "lease_run (leader_acquire (elections\<lparr>leader_election_ttl_seconds := 600\<rparr>)) leader_lease
    [(0, ''a''), (1, ''b'')] (None, \<lambda>i. None) =
    (Some \<lparr>sl_leader_id = ''a'', sl_acquired_at = 0, sl_expires_at = 600000000\<rparr>, [''a'' \<mapsto> 600000000])"
  by (simp add: leader_acquire_cases leader_lease_def timedelta_seconds_def fun_upd_idem)

theorem at_most_one_leader_witness:
  "\<not> fst (leader_acquire (elections\<lparr>leader_election_ttl_seconds := 600\<rparr>) 2 ''b''
      (Some \<lparr>sl_leader_id = ''a'', sl_acquired_at = 0, sl_expires_at = 600000000\<rparr>))"
  using at_most_one_leader [OF elections_on _ sample_election, of 2 "''b''"] by simp

text \<open>
  \<open>renew\<close> does not look at what its \<open>UPDATE\<close> matched: an instance whose lease another one has taken over
  is told that it still leads.
\<close>

lemma renew_leader_after_loss:
  assumes "\<not> without_election st" and "le_is_leader le" and "sl_leader_id r \<noteq> le_leader_id le"
  shows "renew_leader st Session_Ok now le (Some r) = (True, Some r)"
  using assms by (simp add: renew_leader_def)

end
