(* ===== verification/Ring.thy ===== *)
theory Ring
  imports Json
begin

text \<open>
  The ring of bridge instances: \<open>app/modules/proxy/ring_membership.py\<close> over its table
  \<open>bridge_ring_members\<close>. The dialect of the database and the clock readings are arguments; \<open>sha256\<close>
  is the argument \<open>sha\<close>.

  The lemmas show that an instance is active exactly while its last heartbeat is recent, that a
  terminating instance leaves after the grace period unless a sibling refreshes it, that all
  instances that see the same members compute the same fingerprint, and that a registered endpoint
  is the one resolved.
\<close>

datatype dialect = postgresql | sqlite | other_dialect string

record ring_member =
  rm_id :: string
  instance_id :: string
  registered_at :: datetime
  last_heartbeat_at :: datetime
  metadata_json :: "json_text option"

datatype ring_error = RuntimeError string

definition RING_HEARTBEAT_INTERVAL_SECONDS :: int where
  [py_eval]: "RING_HEARTBEAT_INTERVAL_SECONDS = 10"

definition RING_STALE_THRESHOLD_SECONDS :: int where
  [py_eval]: "RING_STALE_THRESHOLD_SECONDS = 30"

definition RING_STALE_GRACE_SECONDS :: int where
  [py_eval]: "RING_STALE_GRACE_SECONDS = RING_HEARTBEAT_INTERVAL_SECONDS + 5"

definition bridge_ring_metadata_json :: "string option \<Rightarrow> json_text option" where
  "bridge_ring_metadata_json url = (case url of
     None \<Rightarrow> None | Some u \<Rightarrow> Some (Text (JObj [(''endpoint_base_url'', JStr u)])))"

definition rstrip_slash :: "string \<Rightarrow> string" where
  "rstrip_slash s = rev (dropWhile (\<lambda>c. c = CHR ''/'') (rev s))"

definition bridge_ring_endpoint_from_metadata :: "json_text option \<Rightarrow> string option" where
  "bridge_ring_endpoint_from_metadata m = (case m of
     None \<Rightarrow> None
   | Some Malformed \<Rightarrow> None
   | Some (Text payload) \<Rightarrow> (case payload of
       JObj d \<Rightarrow> (case jget d ''endpoint_base_url'' of
           JStr endpoint \<Rightarrow> (let stripped = rstrip_slash (strip endpoint)
             in if stripped = [] then None else Some stripped)
         | _ \<Rightarrow> None)
     | _ \<Rightarrow> None))"

definition update_members :: "string \<Rightarrow> (ring_member \<Rightarrow> ring_member) \<Rightarrow> ring_member list \<Rightarrow> ring_member list" where
  "update_members iid f ms = map (\<lambda>m. if instance_id m = iid then f m else m) ms"

text \<open>\<open>INSERT ... ON CONFLICT (instance_id) DO UPDATE\<close>.\<close>

definition upsert_member :: "ring_member \<Rightarrow> (ring_member \<Rightarrow> ring_member) \<Rightarrow> ring_member list \<Rightarrow> ring_member list" where
  "upsert_member new f ms = (if list_ex (\<lambda>m. instance_id m = instance_id new) ms
     then update_members (instance_id new) f ms else ms @ [new])"

text \<open>\<open>register\<close> reads the clock four times.\<close>

definition register :: "dialect \<Rightarrow> string \<Rightarrow> datetime \<Rightarrow> datetime \<Rightarrow> datetime \<Rightarrow> datetime \<Rightarrow> string \<Rightarrow> string option
    \<Rightarrow> ring_member list \<Rightarrow> ring_error + ring_member list" where
  "register di uuid t1 t2 t3 t4 iid url ms =
     (let metadata = bridge_ring_metadata_json url;
          upserted = upsert_member \<lparr>rm_id = uuid, instance_id = iid, registered_at = t1, last_heartbeat_at = t2,
              metadata_json = metadata\<rparr>
            (\<lambda>m. m\<lparr>last_heartbeat_at := t3, registered_at := t4, metadata_json := metadata\<rparr>) ms
      in case di of
           postgresql \<Rightarrow> Inr upserted
         | sqlite \<Rightarrow> Inr upserted
         | other_dialect name \<Rightarrow> Inl (RuntimeError (''RingMembershipService unsupported for dialect='' @ name)))"

definition heartbeat :: "dialect \<Rightarrow> string \<Rightarrow> datetime \<Rightarrow> string \<Rightarrow> string option \<Rightarrow> ring_member list \<Rightarrow> ring_member list" where
  "heartbeat di uuid now iid url ms =
     (let metadata = bridge_ring_metadata_json url;
          refresh = (\<lambda>m. m\<lparr>last_heartbeat_at := now, metadata_json := metadata\<rparr>);
          upserted = upsert_member \<lparr>rm_id = uuid, instance_id = iid, registered_at = now, last_heartbeat_at = now,
              metadata_json = metadata\<rparr> refresh ms
      in case di of
           postgresql \<Rightarrow> upserted
         | sqlite \<Rightarrow> upserted
         | other_dialect name \<Rightarrow> update_members iid refresh ms)"

definition unregister :: "string \<Rightarrow> ring_member list \<Rightarrow> ring_member list" where
  "unregister iid ms = filter (\<lambda>m. instance_id m \<noteq> iid) ms"

definition mark_stale :: "datetime \<Rightarrow> string \<Rightarrow> int \<Rightarrow> int \<Rightarrow> ring_member list \<Rightarrow> ring_member list" where
  "mark_stale now iid stale_threshold_seconds grace_seconds ms =
     (let active_for_seconds = max grace_seconds 0;
          age_seconds = max (stale_threshold_seconds - active_for_seconds) 0;
          stale_time = now - timedelta_seconds age_seconds
      in update_members iid (\<lambda>m. m\<lparr>last_heartbeat_at := stale_time\<rparr>) ms)"

definition list_active :: "datetime \<Rightarrow> int \<Rightarrow> bool \<Rightarrow> ring_member list \<Rightarrow> string list" where
  "list_active now stale_threshold_seconds require_endpoint ms =
     (let cutoff = now - timedelta_seconds stale_threshold_seconds
      in sort (map instance_id (filter (\<lambda>m. last_heartbeat_at m \<ge> cutoff \<and>
           (require_endpoint \<longrightarrow> metadata_json m \<noteq> None)) ms)))"

definition resolve_endpoint :: "datetime \<Rightarrow> string \<Rightarrow> int \<Rightarrow> ring_member list \<Rightarrow> string option" where
  "resolve_endpoint now iid stale_threshold_seconds ms =
     (let cutoff = now - timedelta_seconds stale_threshold_seconds
      in bridge_ring_endpoint_from_metadata
           (case find (\<lambda>m. instance_id m = iid \<and> last_heartbeat_at m \<ge> cutoff) ms of
              None \<Rightarrow> None | Some m \<Rightarrow> metadata_json m))"

fun join_comma :: "string list \<Rightarrow> string" where
  "join_comma [] = []"
| "join_comma [s] = s"
| "join_comma (s # ss) = s @ '','' @ join_comma ss"

definition ring_fingerprint :: "(string \<Rightarrow> string) \<Rightarrow> datetime \<Rightarrow> int \<Rightarrow> ring_member list \<Rightarrow> string" where
  "ring_fingerprint sha now stale_threshold_seconds ms =
     sha (join_comma (sort (list_active now stale_threshold_seconds False ms)))"

section \<open>The table\<close>

text \<open>The unique constraint on \<open>instance_id\<close>.\<close>

definition ring_ok :: "ring_member list \<Rightarrow> bool" where
  "ring_ok ms \<longleftrightarrow> distinct (map instance_id ms)"

definition sample_ring :: "ring_member list" where
  "sample_ring = [\<lparr>rm_id = ''1'', instance_id = ''pod-b'', registered_at = 0, last_heartbeat_at = 0,
     metadata_json = bridge_ring_metadata_json (Some ''http://b:80/'')\<rparr>]"

lemma update_members_ids:
  "(\<And>m. instance_id (f m) = instance_id m) \<Longrightarrow> map instance_id (update_members iid f ms) = map instance_id ms"
  by (simp add: update_members_def)

lemma bex_update_members: "(\<exists>m \<in> set (update_members iid f ms). P m) \<longleftrightarrow>
    (\<exists>m \<in> set ms. P (if instance_id m = iid then f m else m))"
  by (auto simp: update_members_def)

lemma upsert_member_ok:
  "ring_ok ms \<Longrightarrow> (\<And>m. instance_id (f m) = instance_id m) \<Longrightarrow> ring_ok (upsert_member new f ms)"
  by (auto simp: ring_ok_def upsert_member_def update_members_ids list_ex_iff)

lemma find_unique:
  "distinct (map f xs) \<Longrightarrow> x \<in> set xs \<Longrightarrow> f x = k \<Longrightarrow> P x \<Longrightarrow> find (\<lambda>y. f y = k \<and> P y) xs = Some x"
  by (induction xs) auto

lemma find_other:
  "other \<noteq> iid \<Longrightarrow> (\<And>m. instance_id (f m) = instance_id m) \<Longrightarrow>
   find (\<lambda>m. instance_id m = other \<and> P m) (map (\<lambda>m. if instance_id m = iid then f m else m) ms) =
   find (\<lambda>m. instance_id m = other \<and> P m) ms"
  by (induction ms) auto

lemma find_append_other:
  "\<not> P x \<Longrightarrow> find P (xs @ [x]) = find P xs"
  by (induction xs) auto

lemma mem_list_active_endpoint: "iid \<in> set (list_active now th e ms) \<longleftrightarrow>
    (\<exists>m \<in> set ms. instance_id m = iid \<and> last_heartbeat_at m \<ge> now - timedelta_seconds th \<and> (e \<longrightarrow> metadata_json m \<noteq> None))"
  by (auto simp: list_active_def Let_def image_iff)

lemma mem_list_active: "iid \<in> set (list_active now th False ms) \<longleftrightarrow>
    (\<exists>m \<in> set ms. instance_id m = iid \<and> last_heartbeat_at m \<ge> now - timedelta_seconds th)"
  by (simp add: mem_list_active_endpoint)

lemma sorted_distinct_eq: "sorted xs \<Longrightarrow> sorted ys \<Longrightarrow> distinct xs \<Longrightarrow> distinct ys \<Longrightarrow> set xs = set ys \<Longrightarrow> xs = ys"
  by (metis sorted_distinct_set_unique)

lemma list_active_sorted: "sorted (list_active now th e ms)"
  by (simp add: list_active_def Let_def)

lemma list_active_distinct: "ring_ok ms \<Longrightarrow> distinct (list_active now th e ms)"
  by (simp add: list_active_def Let_def ring_ok_def distinct_map_filter)

section \<open>Membership\<close>

text \<open>
  A terminating instance leaves the ring on time: after \<open>mark_stale\<close> with the default bounds it is
  still listed for the grace period, one heartbeat interval and five seconds, and no longer; a
  heartbeat of a sibling worker restores the full threshold; other instances are not affected; and
  the table keeps one row per instance.
\<close>

theorem mark_stale_grace:
  assumes "ring_ok ms" and "iid \<in> instance_id ` set ms"
    and "ms' = mark_stale now iid RING_STALE_THRESHOLD_SECONDS RING_STALE_GRACE_SECONDS ms"
  shows "ring_ok ms' \<and>
    (iid \<in> set (list_active now' RING_STALE_THRESHOLD_SECONDS False ms') \<longleftrightarrow> now' \<le> now + timedelta_seconds 15) \<and>
    (iid \<in> set (list_active now' RING_STALE_THRESHOLD_SECONDS False (heartbeat di uuid beat iid url ms')) \<longleftrightarrow>
      now' \<le> beat + timedelta_seconds 30) \<and>
    (other \<noteq> iid \<longrightarrow> (other \<in> set (list_active now' RING_STALE_THRESHOLD_SECONDS False ms') \<longleftrightarrow>
      other \<in> set (list_active now' RING_STALE_THRESHOLD_SECONDS False ms)))"
proof -
  have ms': "ms' = update_members iid (\<lambda>m. m\<lparr>last_heartbeat_at := now - timedelta_seconds 15\<rparr>) ms"
    by (simp add: assms(3) mark_stale_def py_eval)
  from assms(2) obtain m where m: "m \<in> set ms" "instance_id m = iid" by auto
  have in_ms': "\<exists>m \<in> set ms'. instance_id m = iid"
    using m unfolding ms' bex_update_members by (intro bexI [of _ m]) simp_all
  have beat: "heartbeat di uuid beat iid url ms' =
      update_members iid (\<lambda>m. m\<lparr>last_heartbeat_at := beat, metadata_json := bridge_ring_metadata_json url\<rparr>) ms'"
    using in_ms' by (auto simp: heartbeat_def upsert_member_def list_ex_iff Let_def split: dialect.splits)
  have hb: "iid \<in> set (list_active now' RING_STALE_THRESHOLD_SECONDS False (heartbeat di uuid beat iid url ms')) \<longleftrightarrow>
      now' \<le> beat + timedelta_seconds 30"
    using in_ms' unfolding beat mem_list_active bex_update_members by (auto simp: py_eval)
  have "ring_ok ms'" using assms(1) by (simp add: ring_ok_def ms' update_members_ids)
  moreover have "iid \<in> set (list_active now' RING_STALE_THRESHOLD_SECONDS False ms') \<longleftrightarrow> now' \<le> now + timedelta_seconds 15"
    using m unfolding mem_list_active ms' bex_update_members by (auto simp: py_eval)
  moreover have "other \<noteq> iid \<longrightarrow> (other \<in> set (list_active now' RING_STALE_THRESHOLD_SECONDS False ms') \<longleftrightarrow>
      other \<in> set (list_active now' RING_STALE_THRESHOLD_SECONDS False ms))"
    unfolding mem_list_active ms' bex_update_members by auto
  ultimately show ?thesis using hb by blast
qed

theorem mark_stale_grace_witness:
  "''pod-b'' \<in> set (list_active 15000000 RING_STALE_THRESHOLD_SECONDS False
     (mark_stale 0 ''pod-b'' RING_STALE_THRESHOLD_SECONDS RING_STALE_GRACE_SECONDS sample_ring))"
  using mark_stale_grace [OF _ _ refl, of sample_ring "''pod-b''" 0 15000000]
  by (simp add: sample_ring_def ring_ok_def timedelta_seconds_def)

text \<open>Instances that see the same members compute the same fingerprint, in whatever order they joined.\<close>

lemma fingerprint_agrees:
  assumes "ring_ok ms" "ring_ok ms'" "set (list_active now th False ms) = set (list_active now' th False ms')"
  shows "ring_fingerprint sha now th ms = ring_fingerprint sha now' th ms'"
  using sorted_distinct_eq [OF list_active_sorted list_active_sorted list_active_distinct [OF assms(1)]
      list_active_distinct [OF assms(2)] assms(3)]
  by (simp add: ring_fingerprint_def)

lemma upsert_member_row:
  assumes "\<And>m. instance_id (f m) = instance_id m \<and> last_heartbeat_at (f m) = t' \<and> metadata_json (f m) = md"
    and "last_heartbeat_at new = t" "metadata_json new = md"
  obtains m h where "m \<in> set (upsert_member new f ms)" "instance_id m = instance_id new" "last_heartbeat_at m = h"
    "metadata_json m = md" "h \<in> {t, t'}"
proof (cases "list_ex (\<lambda>m. instance_id m = instance_id new) ms")
  case True
  then obtain m where m: "m \<in> set ms" "instance_id m = instance_id new" by (auto simp: list_ex_iff)
  then have "f m \<in> set (upsert_member new f ms)" using True by (force simp: upsert_member_def update_members_def)
  with that [of "f m" t'] assms m(2) show ?thesis by simp
next
  case False
  with that [of new t] assms show ?thesis by (simp add: upsert_member_def)
qed

lemma resolve_only:
  assumes "ring_ok ms" "m \<in> set ms" "instance_id m = iid"
  shows "resolve_endpoint now iid th ms =
      (if now \<le> last_heartbeat_at m + timedelta_seconds th then bridge_ring_endpoint_from_metadata (metadata_json m) else None)"
    and "iid \<in> set (list_active now th True ms) \<longleftrightarrow>
      now \<le> last_heartbeat_at m + timedelta_seconds th \<and> metadata_json m \<noteq> None"
proof -
  have only: "m' = m" if "m' \<in> set ms" "instance_id m' = iid" for m'
    using assms that by (metis ring_ok_def distinct_map inj_onD)
  have ex: "(\<exists>m' \<in> set ms. instance_id m' = iid \<and> Q m') \<longleftrightarrow> Q m" for Q using assms(2,3) only by blast
  have "find (\<lambda>m. instance_id m = iid \<and> now - timedelta_seconds th \<le> last_heartbeat_at m) ms =
      (if now \<le> last_heartbeat_at m + timedelta_seconds th then Some m else None)"
  proof (cases "now \<le> last_heartbeat_at m + timedelta_seconds th")
    case True
    then show ?thesis using find_unique [OF assms(1) [unfolded ring_ok_def] assms(2,3)] by simp
  next
    case False
    with ex [of "\<lambda>m. now - timedelta_seconds th \<le> last_heartbeat_at m"] show ?thesis by (simp add: find_None_iff)
  qed
  then show "resolve_endpoint now iid th ms =
      (if now \<le> last_heartbeat_at m + timedelta_seconds th then bridge_ring_endpoint_from_metadata (metadata_json m) else None)"
    by (simp add: resolve_endpoint_def bridge_ring_endpoint_from_metadata_def)
  show "iid \<in> set (list_active now th True ms) \<longleftrightarrow>
      now \<le> last_heartbeat_at m + timedelta_seconds th \<and> metadata_json m \<noteq> None"
    unfolding mem_list_active_endpoint ex by auto
qed

text \<open>
  Registering and resolving fit together: on a supported database a registered instance is listed
  exactly while its registration is at most the threshold old, and its endpoint resolves to the registered
  address without surrounding blanks and trailing slashes; other instances are unaffected, and the
  table keeps one row per instance.
\<close>

theorem register_resolve_roundtrip:
  assumes "ring_ok ms" and "register di uuid t1 t2 t3 t4 iid (Some url) ms = Inr ms'"
  shows "ring_ok ms' \<and> (\<exists>t \<in> {t2, t3}. (iid \<in> set (list_active now th True ms') \<longleftrightarrow> now \<le> t + timedelta_seconds th) \<and>
      resolve_endpoint now iid th ms' = (if now \<le> t + timedelta_seconds th \<and> rstrip_slash (strip url) \<noteq> []
        then Some (rstrip_slash (strip url)) else None)) \<and>
    (other \<noteq> iid \<longrightarrow> resolve_endpoint now other th ms' = resolve_endpoint now other th ms)"
proof -
  let ?md = "bridge_ring_metadata_json (Some url)"
  define f where "f = (\<lambda>m :: ring_member. m\<lparr>last_heartbeat_at := t3, registered_at := t4, metadata_json := ?md\<rparr>)"
  define new where "new = \<lparr>rm_id = uuid, instance_id = iid, registered_at = t1, last_heartbeat_at = t2, metadata_json = ?md\<rparr>"
  have ms': "ms' = upsert_member new f ms"
    using assms(2) by (auto simp: register_def Let_def f_def new_def split: dialect.splits)
  have ok: "ring_ok ms'" unfolding ms' by (rule upsert_member_ok [OF assms(1)]) (simp add: f_def)
  obtain m t where m: "m \<in> set ms'" "instance_id m = iid" "last_heartbeat_at m = t" "metadata_json m = ?md" "t \<in> {t2, t3}"
    by (rule upsert_member_row [of f t3 ?md new t2 ms]) (simp_all add: ms' f_def new_def)
  note resolve_only [OF ok m(1,2), of now th, unfolded m(3,4)]
  moreover have "resolve_endpoint now other th ms' = resolve_endpoint now other th ms" if "other \<noteq> iid"
    using that by (simp add: resolve_endpoint_def ms' upsert_member_def update_members_def new_def f_def find_other find_append_other)
  ultimately show ?thesis using ok m(5)
    by (auto simp: bridge_ring_metadata_json_def bridge_ring_endpoint_from_metadata_def jget_def Let_def)
qed

theorem register_resolve_roundtrip_witness:
  "resolve_endpoint 1 ''pod-a'' 30 (sample_ring @ [\<lparr>rm_id = ''2'', instance_id = ''pod-a'', registered_at = 0,
     last_heartbeat_at = 0, metadata_json = bridge_ring_metadata_json (Some ''http://a:80/'')\<rparr>]) = Some ''http://a:80''"
proof -
  have "register sqlite ''2'' 0 0 0 0 ''pod-a'' (Some ''http://a:80/'') sample_ring = Inr (sample_ring @
    [\<lparr>rm_id = ''2'', instance_id = ''pod-a'', registered_at = 0, last_heartbeat_at = 0,
      metadata_json = bridge_ring_metadata_json (Some ''http://a:80/'')\<rparr>])"
    by (simp add: register_def upsert_member_def sample_ring_def)
  moreover have "rstrip_slash (strip ''http://a:80/'') = ''http://a:80''" by code_simp
  ultimately show ?thesis
    using register_resolve_roundtrip [of sample_ring sqlite "''2''" 0 0 0 0 "''pod-a''" "''http://a:80/''" _ 1 30]
    by (auto simp: ring_ok_def sample_ring_def timedelta_seconds_def)
qed

end
