(* ===== verification/Ip_Address.thy ===== *)
theory Ip_Address
  imports Prelude
begin

text \<open>
  What the code uses of Python's \<open>ipaddress\<close> module: \<open>ip_address\<close> and \<open>ip_network(strict=False)\<close> on strings,
  \<open>str\<close> of an address, membership of an address in a network, and \<open>is_loopback\<close>, together with the
  string splitting they and the header parsers rely on. Addresses are the integers the module keeps.

  The lemmas show that printing an IPv4 address and parsing it again is the identity, and what
  membership in a network means for the leading bits.
\<close>

section \<open>Splitting strings\<close>

text \<open>\<open>s.split(c)\<close> for a single character, and \<open>s.partition(c)\<close>, \<open>None\<close> when the character is missing.\<close>

fun split_on :: "char \<Rightarrow> string \<Rightarrow> string list" where
  "split_on c [] = [[]]"
| "split_on c (x # xs) = (if x = c then [] # split_on c xs
     else case split_on c xs of [] \<Rightarrow> [[x]] | w # ws \<Rightarrow> (x # w) # ws)"

fun join_on :: "char \<Rightarrow> string list \<Rightarrow> string" where
  "join_on c [] = []"
| "join_on c [w] = w"
| "join_on c (w # ws) = w @ c # join_on c ws"

definition partition_on :: "char \<Rightarrow> string \<Rightarrow> string \<times> string option" where
  "partition_on c s = (case dropWhile (\<lambda>x. x \<noteq> c) s of [] \<Rightarrow> (s, None) | _ # rest \<Rightarrow> (takeWhile (\<lambda>x. x \<noteq> c) s, Some rest))"

lemma split_on_nonempty [simp]: "split_on c s \<noteq> []"
  by (induction c s rule: split_on.induct) (auto split: list.splits)

lemma split_on_no_sep: "c \<notin> set s \<Longrightarrow> split_on c s = [s]"
  by (induction c s rule: split_on.induct) auto

lemma split_on_append: "c \<notin> set w \<Longrightarrow> split_on c (w @ c # s) = w # split_on c s"
  by (induction w) auto

lemma split_join: "ws \<noteq> [] \<Longrightarrow> \<forall>w \<in> set ws. c \<notin> set w \<Longrightarrow> split_on c (join_on c ws) = ws"
proof (induction c ws rule: join_on.induct)
  case (3 c w v vs)
  then show ?case by (simp add: split_on_append)
qed (simp_all add: split_on_no_sep)

section \<open>Numbers in text\<close>

definition is_digit :: "char \<Rightarrow> bool" where
  [py_eval]: "is_digit c = (let n = (of_char c :: nat) in 48 \<le> n \<and> n \<le> 57)"

definition digit_value :: "char \<Rightarrow> int" where
  [py_eval]: "digit_value c = of_char c - 48"

definition parse_decimal :: "string \<Rightarrow> int" where
  [py_eval]: "parse_decimal s = foldl (\<lambda>n c. 10 * n + digit_value c) 0 s"

definition is_hex_digit :: "char \<Rightarrow> bool" where
  [py_eval]: "is_hex_digit c = (let n = (of_char c :: nat)
     in 48 \<le> n \<and> n \<le> 57 \<or> 65 \<le> n \<and> n \<le> 70 \<or> 97 \<le> n \<and> n \<le> 102)"

definition hex_value :: "char \<Rightarrow> int" where
  [py_eval]: "hex_value c = (let n = (of_char c :: int) in if n \<le> 57 then n - 48 else if n \<le> 70 then n - 55 else n - 87)"

definition parse_hex :: "string \<Rightarrow> int" where
  [py_eval]: "parse_hex s = foldl (\<lambda>n c. 16 * n + hex_value c) 0 s"

text \<open>\<open>'%x'\<close> of a number below \<open>65536\<close>.\<close>

definition hex_digits :: "int \<Rightarrow> int list" where
  [py_eval]: "hex_digits n = [n div 4096 mod 16, n div 256 mod 16, n div 16 mod 16, n mod 16]"

definition hex_char :: "int \<Rightarrow> char" where
  [py_eval]: "hex_char k = (if k < 10 then char_of (48 + k) else char_of (87 + k))"

definition show_hex :: "int \<Rightarrow> string" where
  [py_eval]: "show_hex n = (case dropWhile (\<lambda>k. k = 0) (hex_digits n) of [] \<Rightarrow> ''0'' | ds \<Rightarrow> map hex_char ds)"

section \<open>Addresses\<close>

datatype ip = IPv4 int | IPv6 int "string option"

definition parse_octet :: "string \<Rightarrow> int option" where
  [py_eval]: "parse_octet s =
     (if s = [] \<or> \<not> list_all is_digit s \<or> length s > 3 \<or> (s \<noteq> ''0'' \<and> hd s = CHR ''0'') \<or> parse_decimal s > 255
      then None else Some (parse_decimal s))"

definition ipv4_int :: "string \<Rightarrow> int option" where
  [py_eval]: "ipv4_int s = (case map parse_octet (split_on CHR ''.'' s) of
     [Some a, Some b, Some c, Some d] \<Rightarrow> Some (((a * 256 + b) * 256 + c) * 256 + d)
   | _ \<Rightarrow> None)"

definition parse_hextet :: "string \<Rightarrow> int option" where
  [py_eval]: "parse_hextet s = (if s = [] \<or> \<not> list_all is_hex_digit s \<or> length s > 4 then None else Some (parse_hex s))"

text \<open>An IPv4 suffix stands for the last two groups.\<close>

definition expand_v4_suffix :: "string list \<Rightarrow> string list option" where
  [py_eval]: "expand_v4_suffix parts =
     (if CHR ''.'' \<in> set (last parts) then (case ipv4_int (last parts) of
          None \<Rightarrow> None
        | Some n \<Rightarrow> Some (butlast parts @ [show_hex (n div 65536), show_hex (n mod 65536)]))
      else Some parts)"

fun collect_opt :: "'a option list \<Rightarrow> 'a list option" where
  "collect_opt [] = Some []"
| "collect_opt (None # xs) = None"
| "collect_opt (Some x # xs) = (case collect_opt xs of None \<Rightarrow> None | Some ys \<Rightarrow> Some (x # ys))"

definition join_hextets :: "int list \<Rightarrow> int" where
  [py_eval]: "join_hextets hs = foldl (\<lambda>n h. n * 65536 + h) 0 hs"

text \<open>
  The groups before and after a double colon: its index is that of the only empty inner part; an
  empty first or last part is allowed only next to it.
\<close>

definition ipv6_groups :: "string list \<Rightarrow> (string list \<times> nat \<times> string list) option" where
  [py_eval]: "ipv6_groups parts =
     (let n = length parts;
          empties = filter (\<lambda>i. parts ! i = []) [1..<n - 1]
      in if n > 9 \<or> length empties > 1 then None
         else case empties of
           [] \<Rightarrow> if n \<noteq> 8 \<or> hd parts = [] \<or> last parts = [] then None else Some (parts, 0, [])
         | i # _ \<Rightarrow>
             (let hi = take i parts; lo = drop (i + 1) parts;
                  hi' = (if hd parts = [] then tl hi else hi); lo' = (if last parts = [] then butlast lo else lo)
              in if hd parts = [] \<and> hi' \<noteq> [] \<or> last parts = [] \<and> lo' \<noteq> [] \<or> length hi' + length lo' > 7 then None
                 else Some (hi', 8 - (length hi' + length lo'), lo')))"

definition ipv6_int :: "string \<Rightarrow> int option" where
  [py_eval]: "ipv6_int s =
     (let parts = split_on CHR '':'' s
      in if s = [] \<or> length s > 45 \<or> length parts < 3 then None
         else case expand_v4_suffix parts of
           None \<Rightarrow> None
         | Some parts \<Rightarrow> (case ipv6_groups parts of
             None \<Rightarrow> None
           | Some (hi, skipped, lo) \<Rightarrow> (case (collect_opt (map parse_hextet hi), collect_opt (map parse_hextet lo)) of
               (Some hs, Some ls) \<Rightarrow> Some (join_hextets (hs @ replicate skipped 0 @ ls))
             | _ \<Rightarrow> None)))"

definition ipv6_address :: "string \<Rightarrow> ip option" where
  [py_eval]: "ipv6_address s = (case partition_on CHR ''%'' s of
     (addr, None) \<Rightarrow> map_option (\<lambda>n. IPv6 n None) (ipv6_int addr)
   | (addr, Some sid) \<Rightarrow> if sid = [] \<or> CHR ''%'' \<in> set sid then None
       else map_option (\<lambda>n. IPv6 n (Some sid)) (ipv6_int addr))"

text \<open>\<open>ip_address\<close> raises \<open>ValueError\<close>, here \<open>None\<close>.\<close>

definition ip_address :: "string \<Rightarrow> ip option" where
  [py_eval]: "ip_address s = (if CHR ''/'' \<in> set s then None else case ipv4_int s of
     Some n \<Rightarrow> Some (IPv4 n) | None \<Rightarrow> ipv6_address s)"

section \<open>Printing\<close>

definition octets :: "int \<Rightarrow> int list" where
  [py_eval]: "octets n = [n div 16777216 mod 256, n div 65536 mod 256, n div 256 mod 256, n mod 256]"

definition show_ipv4 :: "int \<Rightarrow> string" where
  [py_eval]: "show_ipv4 n = join_on CHR ''.'' (map show_int (octets n))"

definition hextets :: "int \<Rightarrow> int list" where
  [py_eval]: "hextets n = map (\<lambda>i. n div 65536 ^ (7 - i) mod 65536) [0..<8]"

text \<open>The first longest run of zero groups: \<open>best\<close> and \<open>run\<close> are a start and a length.\<close>

fun longest_zero_run :: "nat \<Rightarrow> nat \<times> nat \<Rightarrow> nat \<times> nat \<Rightarrow> int list \<Rightarrow> nat \<times> nat" where
  "longest_zero_run i best run [] = best"
| "longest_zero_run i best run (h # hs) =
     (if h = 0 then
        let run' = (if snd run = 0 then (i, 1) else (fst run, snd run + 1))
        in longest_zero_run (i + 1) (if snd run' > snd best then run' else best) run' hs
      else longest_zero_run (i + 1) best (0, 0) hs)"

definition compress_hextets :: "int list \<Rightarrow> string list" where
  [py_eval]: "compress_hextets hs = (case longest_zero_run 0 (0, 0) (0, 0) hs of (start, len) \<Rightarrow>
     if len > 1 then
       (if start = 0 then [[]] else []) @ map show_hex (take start hs) @ [[]] @ map show_hex (drop (start + len) hs) @
       (if start + len = length hs then [[]] else [])
     else map show_hex hs)"

definition ipv4_mapped :: "int \<Rightarrow> int option" where
  [py_eval]: "ipv4_mapped n = (if n div 4294967296 = 65535 then Some (n mod 4294967296) else None)"

text \<open>An IPv4-mapped address is printed with its last 32 bits in dotted form.\<close>

definition show_ip :: "ip \<Rightarrow> string" where
  [py_eval]: "show_ip a = (case a of
     IPv4 n \<Rightarrow> show_ipv4 n
   | IPv6 n sid \<Rightarrow>
       (case ipv4_mapped n of
          None \<Rightarrow> join_on CHR '':'' (compress_hextets (hextets n))
        | Some v4 \<Rightarrow> ''::ffff:'' @ show_ipv4 v4) @
       (case sid of None \<Rightarrow> [] | Some z \<Rightarrow> CHR ''%'' # z))"

definition is_loopback :: "ip \<Rightarrow> bool" where
  [py_eval]: "is_loopback a = (case a of
     IPv4 n \<Rightarrow> n div 16777216 = 127
   | IPv6 n _ \<Rightarrow> (case ipv4_mapped n of Some v4 \<Rightarrow> v4 div 16777216 = 127 | None \<Rightarrow> n = 1))"

section \<open>Networks\<close>

text \<open>A network: its version, the address bits below the prefix cleared, and the length of the prefix.\<close>

record ip_network =
  net_v6 :: bool
  net_address :: int
  net_prefix :: nat

definition parse_prefix :: "nat \<Rightarrow> string \<Rightarrow> nat option" where
  [py_eval]: "parse_prefix width s = (if s = [] \<or> \<not> list_all is_digit s \<or> parse_decimal s > int width then None else Some (nat (parse_decimal s)))"

text \<open>A dotted mask is a netmask, or else a host mask.\<close>

definition prefix_of_mask :: "string \<Rightarrow> nat option" where
  [py_eval]: "prefix_of_mask s = (case ipv4_int s of
     None \<Rightarrow> None
   | Some m \<Rightarrow> (case find (\<lambda>p. m = 2 ^ 32 - 2 ^ (32 - p)) [0..<33] of
       Some p \<Rightarrow> Some p
     | None \<Rightarrow> find (\<lambda>p. m = 2 ^ (32 - p) - 1) [0..<33]))"

definition make_network :: "ip \<Rightarrow> nat \<Rightarrow> ip_network" where
  [py_eval]: "make_network a p = (case a of
     IPv4 n \<Rightarrow> \<lparr>net_v6 = False, net_address = n div 2 ^ (32 - p) * 2 ^ (32 - p), net_prefix = p\<rparr>
   | IPv6 n _ \<Rightarrow> \<lparr>net_v6 = True, net_address = n div 2 ^ (128 - p) * 2 ^ (128 - p), net_prefix = p\<rparr>)"

definition parse_network :: "string \<Rightarrow> ip_network option" where
  [py_eval]: "parse_network s = (case split_on CHR ''/'' s of
     [addr] \<Rightarrow> (case ip_address addr of
        None \<Rightarrow> None
      | Some a \<Rightarrow> Some (make_network a (case a of IPv4 _ \<Rightarrow> 32 | IPv6 _ _ \<Rightarrow> 128)))
   | [addr, m] \<Rightarrow> (case ip_address addr of
        None \<Rightarrow> None
      | Some a \<Rightarrow> map_option (make_network a) (case a of
          IPv4 _ \<Rightarrow> (case parse_prefix 32 m of Some p \<Rightarrow> Some p | None \<Rightarrow> prefix_of_mask m)
        | IPv6 _ _ \<Rightarrow> parse_prefix 128 m))
   | _ \<Rightarrow> None)"

definition in_network :: "ip \<Rightarrow> ip_network \<Rightarrow> bool" where
  [py_eval]: "in_network a net = (case a of
     IPv4 n \<Rightarrow> \<not> net_v6 net \<and> n div 2 ^ (32 - net_prefix net) * 2 ^ (32 - net_prefix net) = net_address net
   | IPv6 n _ \<Rightarrow> net_v6 net \<and> n div 2 ^ (128 - net_prefix net) * 2 ^ (128 - net_prefix net) = net_address net)"

section \<open>Printing and parsing IPv4\<close>

definition digit :: "nat \<Rightarrow> char" where
  "digit d = char_of (48 + d)"

lemma digit_facts:
  assumes "d < 10"
  shows "is_digit (digit d)" "digit_value (digit d) = int d" "digit d \<noteq> CHR ''.''" "digit d \<noteq> CHR ''/''"
    "digit d = CHR ''0'' \<longleftrightarrow> d = 0"
proof -
  have n: "of_char (digit d) = (48 + d :: nat)" using assms by (simp add: digit_def)
  have i: "of_char (digit d) = 48 + int d" unfolding of_nat_of_char [where 'a = int, symmetric] n by simp
  show "is_digit (digit d)" unfolding is_digit_def Let_def n using assms by simp
  show "digit_value (digit d) = int d" unfolding digit_value_def i by simp
  have eq: "digit d = c \<longleftrightarrow> 48 + d = of_char c" for c using of_char_eq_iff [of "digit d" c, where 'a = nat] unfolding n by blast
  show "digit d \<noteq> CHR ''.''" "digit d \<noteq> CHR ''/''" "digit d = CHR ''0'' \<longleftrightarrow> d = 0" unfolding eq by simp_all
qed

lemma show_nat_digits:
  "n < 10 \<Longrightarrow> show_nat n = [digit n]"
  "10 \<le> n \<Longrightarrow> n < 100 \<Longrightarrow> show_nat n = [digit (n div 10), digit (n mod 10)]"
  "100 \<le> n \<Longrightarrow> n < 1000 \<Longrightarrow> show_nat n = [digit (n div 100), digit (n div 10 mod 10), digit (n mod 10)]"
proof -
  show 1: "n < 10 \<Longrightarrow> show_nat n = [digit n]" for n by (simp add: show_nat.simps digit_def)
  show 2: "10 \<le> n \<Longrightarrow> n < 100 \<Longrightarrow> show_nat n = [digit (n div 10), digit (n mod 10)]" for n
    using 1 [of "n div 10"] by (subst show_nat.simps) (simp add: digit_def)
  show "100 \<le> n \<Longrightarrow> n < 1000 \<Longrightarrow> show_nat n = [digit (n div 100), digit (n div 10 mod 10), digit (n mod 10)]"
    using 2 [of "n div 10"] by (subst show_nat.simps) (simp add: digit_def div_mult2_eq [symmetric])
qed

lemma parse_octet_digits:
  "is_digit a \<Longrightarrow> digit_value a < 256 \<Longrightarrow> parse_octet [a] = Some (digit_value a)"
  "is_digit a \<Longrightarrow> is_digit b \<Longrightarrow> a \<noteq> CHR ''0'' \<Longrightarrow> 10 * digit_value a + digit_value b < 256 \<Longrightarrow>
     parse_octet [a, b] = Some (10 * digit_value a + digit_value b)"
  "is_digit a \<Longrightarrow> is_digit b \<Longrightarrow> is_digit c \<Longrightarrow> a \<noteq> CHR ''0'' \<Longrightarrow>
     10 * (10 * digit_value a + digit_value b) + digit_value c < 256 \<Longrightarrow>
     parse_octet [a, b, c] = Some (10 * (10 * digit_value a + digit_value b) + digit_value c)"
  by (simp_all add: parse_octet_def parse_decimal_def)

lemma octet_nat:
  assumes "n < 256"
  shows "parse_octet (show_nat n) = Some (int n) \<and> CHR ''.'' \<notin> set (show_nat n) \<and> CHR ''/'' \<notin> set (show_nat n)"
proof -
  consider "n < 10" | "10 \<le> n" "n < 100" | "100 \<le> n" "n < 1000" using assms by linarith
  then show ?thesis
  proof cases
    case 1
    note f = digit_facts [OF 1]
    have "parse_octet [digit n] = Some (int n)" using parse_octet_digits(1) [OF f(1)] assms unfolding f(2) by simp
    then show ?thesis unfolding show_nat_digits(1) [OF 1] using f(3,4) by simp
  next
    case 2
    have d: "n div 10 < 10" "n mod 10 < 10" "n div 10 \<noteq> 0" using 2 by simp_all
    note f = digit_facts [OF d(1)] and g = digit_facts [OF d(2)]
    have "10 * int (n div 10) + int (n mod 10) = int n" by (metis mult_div_mod_eq of_nat_add of_nat_mult of_nat_numeral)
    then have "parse_octet [digit (n div 10), digit (n mod 10)] = Some (int n)"
      using parse_octet_digits(2) [OF f(1) g(1)] assms unfolding f(2,5) g(2) using d(3) by simp
    then show ?thesis unfolding show_nat_digits(2) [OF 2] using f(3,4) g(3,4) by simp
  next
    case 3
    have d: "n div 100 < 10" "n div 10 mod 10 < 10" "n mod 10 < 10" "n div 100 \<noteq> 0" using 3 by simp_all
    note f = digit_facts [OF d(1)] and g = digit_facts [OF d(2)] and h = digit_facts [OF d(3)]
    have "10 * (10 * (n div 100) + n div 10 mod 10) + n mod 10 = n"
      using mult_div_mod_eq [of 10 "n div 10"] mult_div_mod_eq [of 10 n] by (simp add: div_mult2_eq [symmetric])
    from arg_cong [OF this, of int]
    have "10 * (10 * int (n div 100) + int (n div 10 mod 10)) + int (n mod 10) = int n"
      by (simp only: of_nat_add of_nat_mult of_nat_numeral)
    then have "parse_octet [digit (n div 100), digit (n div 10 mod 10), digit (n mod 10)] = Some (int n)"
      using parse_octet_digits(3) [OF f(1) g(1) h(1)] assms unfolding f(2,5) g(2) h(2) using d(4) by simp
    then show ?thesis unfolding show_nat_digits(3) [OF 3] using f(3,4) g(3,4) h(3,4) by simp
  qed
qed

lemma octet_roundtrip:
  assumes "0 \<le> k" "k < 256"
  shows "parse_octet (show_int k) = Some k" "CHR ''.'' \<notin> set (show_int k)" "CHR ''/'' \<notin> set (show_int k)"
  using octet_nat [of "nat k"] assms by (simp_all add: show_int_def)

lemma horner_256:
  fixes n :: int
  assumes "0 \<le> n" "n < 4294967296"
  shows "((n div 256 div 256 div 256 mod 256 * 256 + n div 256 div 256 mod 256) * 256 + n div 256 mod 256) * 256 + n mod 256 = n"
proof -
  let ?a = "n div 256" and ?b = "n div 256 div 256" and ?c = "n div 256 div 256 div 256"
  have "?a < 16777216" "0 \<le> ?a" using assms by linarith+
  then have "?b < 65536" "0 \<le> ?b" by linarith+
  then have "?c < 256" "0 \<le> ?c" by linarith+
  then have "?c mod 256 = ?c" by (rule mod_pos_pos_trivial [rotated])
  then show ?thesis by (simp only: div_mult_mod_eq)
qed

lemma octets_value:
  fixes n :: int
  assumes "0 \<le> n" "n < 4294967296"
  shows "((n div 16777216 mod 256 * 256 + n div 65536 mod 256) * 256 + n div 256 mod 256) * 256 + n mod 256 = n"
proof -
  have "n div 65536 = n div 256 div 256" "n div 16777216 = n div 256 div 256 div 256"
    using zdiv_zmult2_eq [of 256 n 256] zdiv_zmult2_eq [of 256 n 65536] zdiv_zmult2_eq [of 256 "n div 256" 256] by simp_all
  then show ?thesis using horner_256 [OF assms] by (simp only:)
qed

lemma octets_range: "k \<in> set (octets n) \<Longrightarrow> 0 \<le> k \<and> k < 256"
  by (auto simp: octets_def)

lemma show_octets:
  "w \<in> set (map show_int (octets n)) \<Longrightarrow> CHR ''.'' \<notin> set w \<and> CHR ''/'' \<notin> set w"
  "map parse_octet (map show_int (octets n)) = map Some (octets n)"
  using octets_range octet_roundtrip by (fastforce, simp)

lemma join_on_chars: "set (join_on c ws) \<subseteq> insert c (\<Union> (set ` set ws))"
  by (induction c ws rule: join_on.induct) auto

lemma ipv4_int_show:
  assumes "0 \<le> n" "n < 4294967296"
  shows "ipv4_int (show_ipv4 n) = Some n"
proof -
  have "split_on CHR ''.'' (show_ipv4 n) = map show_int (octets n)"
    unfolding show_ipv4_def
    by (rule split_join, simp add: octets_def) (intro ballI, rule show_octets(1) [THEN conjunct1])
  then have "ipv4_int (show_ipv4 n) = (case map Some (octets n) of
     [Some a, Some b, Some c, Some d] \<Rightarrow> Some (((a * 256 + b) * 256 + c) * 256 + d) | _ \<Rightarrow> None)"
    unfolding ipv4_int_def by (simp only: show_octets(2))
  then show ?thesis unfolding octets_def list.map list.case option.case octets_value [OF assms] .
qed

lemma ipv4_roundtrip:
  assumes "0 \<le> n" "n < 4294967296"
  shows "ip_address (show_ip (IPv4 n)) = Some (IPv4 n)"
proof -
  have "CHR ''/'' \<notin> set (show_ipv4 n)"
  proof
    assume "CHR ''/'' \<in> set (show_ipv4 n)"
    then have "CHR ''/'' \<in> \<Union> (set ` set (map show_int (octets n)))"
      using join_on_chars [of "CHR ''.''"] unfolding show_ipv4_def by fastforce
    then show False using show_octets(1) by (auto simp del: set_map)
  qed
  then show ?thesis using ipv4_int_show [OF assms] by (simp add: ip_address_def show_ip_def)
qed

section \<open>Membership\<close>

lemma in_network_iff:
  "in_network (IPv4 n) (make_network (IPv4 m) p) \<longleftrightarrow> n div 2 ^ (32 - p) = m div 2 ^ (32 - p)"
  "in_network (IPv6 n' z) (make_network (IPv6 m' z') p) \<longleftrightarrow> n' div 2 ^ (128 - p) = m' div 2 ^ (128 - p)"
  "\<not> in_network (IPv4 n) (make_network (IPv6 m' z') p)" "\<not> in_network (IPv6 n' z) (make_network (IPv4 m) p)"
  by (simp_all add: in_network_def make_network_def)

end
