(* ===== verification/Client_Access.thy ===== *)
theory Client_Access
  imports Ip_Address Key_Cache
begin

text \<open>
  Who a request comes from and whether it may pass: \<open>app/core/request_locality.py\<close>,
  \<open>app/core/middleware/api_firewall.py\<close>, the allowlist in \<open>app/modules/firewall/\<close>, the header
  sanitizer and the trusted-header mode of the dashboard, and the API key dependencies of
  \<open>app/core/auth/dependencies.py\<close>.

  The lemmas show which hop of a forwarding chain counts as the client, that a client cannot choose
  it, that the allowlist acts on addresses, that a cached decision is the current one once
  invalidations are done, and that a trusted header is accepted from a trusted proxy only.
\<close>

section \<open>Settings and requests\<close>

datatype dashboard_auth_mode = STANDARD | TRUSTED_HEADER | DISABLED

record access_settings =
  firewall_trust_proxy_headers :: bool
  firewall_trusted_proxy_cidrs :: "string list"
  proxy_unauthenticated_client_cidrs :: "string list"
  dashboard_auth_mode :: dashboard_auth_mode
  dashboard_auth_proxy_header :: string

text \<open>
  Headers are the pairs of the ASGI scope. A lookup lowers the name asked for and returns the first
  match. \<open>req_server\<close> is the host of the scope's \<open>server\<close> pair.
\<close>

type_synonym headers = "(string \<times> string) list"

record http_request =
  req_path :: string
  req_client :: "string option"
  req_server :: "string option"
  req_headers :: headers
  req_cookies :: "(string \<times> string) list"

definition hget :: "headers \<Rightarrow> string \<Rightarrow> string option" where
  [py_eval]: "hget hs name = map_of hs (py_lower name)"

text \<open>The values the settings accept for a list of networks.\<close>

datatype string_list_input = SL_None | SL_Str string | SL_List "string list"

definition normalize_cidr_list :: "string_list_input \<Rightarrow> py_error + string list" where
  [py_eval]: "normalize_cidr_list v =
     (let cidrs = (case v of
            SL_None \<Rightarrow> []
          | SL_Str s \<Rightarrow> filter (\<lambda>e. e \<noteq> []) (map strip (split_on CHR '','' s))
          | SL_List es \<Rightarrow> filter (\<lambda>e. e \<noteq> []) (map strip es))
      in if \<exists>c \<in> set cidrs. parse_network c = None then Inl ValueError else Inr cidrs)"

section \<open>The client of a connection\<close>

definition parse_trusted_proxy_networks :: "string list \<Rightarrow> py_error + ip_network list" where
  [py_eval]: "parse_trusted_proxy_networks cidrs = (case collect_opt (map parse_network cidrs) of
     None \<Rightarrow> Inl ValueError | Some nets \<Rightarrow> Inr nets)"

definition is_trusted_proxy_source :: "string \<Rightarrow> ip_network list \<Rightarrow> bool" where
  [py_eval]: "is_trusted_proxy_source host nets =
     (if nets = [] then False
      else case ip_address host of None \<Rightarrow> False | Some source_ip \<Rightarrow> list_ex (in_network source_ip) nets)"

definition is_valid_ip :: "string \<Rightarrow> bool" where
  [py_eval]: "is_valid_ip s = (ip_address s \<noteq> None)"

text \<open>
  The loop over the chain from the right: the list is the reversed chain, \<open>resolved\<close> the variable of
  the loop.
\<close>

fun walk_chain :: "ip_network list \<Rightarrow> string \<Rightarrow> string list \<Rightarrow> string" where
  "walk_chain nets resolved (current_proxy # previous_hop # rest) =
     (if \<not> is_trusted_proxy_source current_proxy nets then current_proxy
      else walk_chain nets previous_hop (previous_hop # rest))"
| "walk_chain nets resolved [x] = resolved"
| "walk_chain nets resolved [] = resolved"

definition xff_hops :: "string \<Rightarrow> string list" where
  [py_eval]: "xff_hops forwarded_for = map strip (split_on CHR '','' forwarded_for)"

text \<open>\<open>request_locality\<close> raises on an invalid entry, the firewall gives up on the header.\<close>

definition resolve_client_ip_from_xff_chain :: "string \<Rightarrow> string \<Rightarrow> ip_network list \<Rightarrow> py_error + string option" where
  [py_eval]: "resolve_client_ip_from_xff_chain socket_ip forwarded_for nets =
     (let hops = xff_hops forwarded_for
      in if hops = [] then Inr None
         else if list_ex (\<lambda>e. \<not> is_valid_ip e) hops then Inl ValueError
         else Inr (Some (walk_chain nets socket_ip (rev (hops @ [socket_ip])))))"

definition firewall_ip_from_xff_chain :: "string \<Rightarrow> string \<Rightarrow> ip_network list \<Rightarrow> string option" where
  [py_eval]: "firewall_ip_from_xff_chain socket_ip forwarded_for nets =
     (let hops = xff_hops forwarded_for
      in if hops = [] then None
         else if list_ex (\<lambda>e. \<not> is_valid_ip e) hops then None
         else Some (walk_chain nets socket_ip (rev (hops @ [socket_ip]))))"

definition strip_quotes :: "string \<Rightarrow> string" where
  [py_eval]: "strip_quotes s = rev (dropWhile (\<lambda>c. c = CHR 0x22) (rev (dropWhile (\<lambda>c. c = CHR 0x22) s)))"

definition resolve_forwarded_header_ip :: "string \<Rightarrow> string option" where
  [py_eval]: "resolve_forwarded_header_ip forwarded =
     (let items = map strip (concat (map (split_on CHR '';'') (split_on CHR '','' forwarded)))
      in case find (\<lambda>item. prefix ''for='' (py_lower item)) items of
           None \<Rightarrow> None
         | Some item \<Rightarrow>
             (let candidate = strip_quotes (strip (drop 4 item));
                  candidate = (if candidate \<noteq> [] \<and> hd candidate = CHR ''['' \<and> last candidate = CHR '']''
                    then butlast (tl candidate) else candidate)
              in if candidate \<noteq> [] \<and> hd candidate = CHR ''_'' then None
                 else if is_valid_ip candidate then Some candidate else None))"

definition real_ip_headers :: "string list" where
  [py_eval]: "real_ip_headers = [''x-real-ip'', ''true-client-ip'', ''cf-connecting-ip'']"

definition resolve_connection_client_ip :: "headers \<Rightarrow> string option \<Rightarrow> bool \<Rightarrow> ip_network list \<Rightarrow> string option" where
  [py_eval]: "resolve_connection_client_ip hs socket_ip trust_proxy_headers nets =
     (if trust_proxy_headers \<and> truthy_str socket_ip \<and> is_trusted_proxy_source (the socket_ip) nets then
        (let others =
           (case find (\<lambda>v. truthy_str v) (map (hget hs) real_ip_headers) of
              Some v \<Rightarrow> (let candidate = strip (the v) in if is_valid_ip candidate then Some candidate else None)
            | None \<Rightarrow> (let forwarded = hget hs ''forwarded''
                in if truthy_str forwarded then resolve_forwarded_header_ip (the forwarded) else None))
         in if truthy_str (hget hs ''x-forwarded-for'')
            then (case resolve_client_ip_from_xff_chain (the socket_ip) (the (hget hs ''x-forwarded-for'')) nets of
                    Inl e \<Rightarrow> None
                  | Inr (Some resolved) \<Rightarrow> Some resolved
                  | Inr None \<Rightarrow> others)
            else others)
      else socket_ip)"

definition firewall_client_ip :: "headers \<Rightarrow> string option \<Rightarrow> bool \<Rightarrow> ip_network list \<Rightarrow> string option" where
  [py_eval]: "firewall_client_ip hs socket_ip trust_proxy_headers nets =
     (if trust_proxy_headers \<and> truthy_str socket_ip \<and> is_trusted_proxy_source (the socket_ip) nets
         \<and> truthy_str (hget hs ''x-forwarded-for'')
      then (case firewall_ip_from_xff_chain (the socket_ip) (the (hget hs ''x-forwarded-for'')) nets of
              Some resolved \<Rightarrow> Some resolved | None \<Rightarrow> socket_ip)
      else socket_ip)"

section \<open>Local requests\<close>

definition local_hosts :: "string list" where
  [py_eval]: "local_hosts = [[], ''localhost'', ''127.0.0.1'', ''::1'', ''[::1]'']"

definition is_local_host :: "string option \<Rightarrow> bool" where
  [py_eval]: "is_local_host host = (case host of None \<Rightarrow> False | Some h \<Rightarrow> py_lower (strip h) \<in> set local_hosts)"

definition resolve_request_client_host :: "access_settings \<Rightarrow> http_request \<Rightarrow> py_error + string option" where
  [py_eval]: "resolve_request_client_host s req =
     bind_sum (parse_trusted_proxy_networks (firewall_trusted_proxy_cidrs s)) (\<lambda>nets.
       Inr (resolve_connection_client_ip (req_headers req) (req_client req) (firewall_trust_proxy_headers s) nets))"

definition is_test_server_request :: "http_request \<Rightarrow> bool" where
  [py_eval]: "is_test_server_request req = (case req_server req of
     None \<Rightarrow> False | Some host \<Rightarrow> py_lower (strip host) \<in> {''testserver'', ''testclient''})"

definition has_forwarded_client_ip_hint :: "headers \<Rightarrow> bool" where
  [py_eval]: "has_forwarded_client_ip_hint hs =
     list_ex (\<lambda>h. truthy_str (hget hs h)) [''x-forwarded-for'', ''forwarded'', ''x-real-ip'', ''true-client-ip'', ''cf-connecting-ip'']"

definition parse_host_header_hostname :: "string option \<Rightarrow> string option" where
  [py_eval]: "parse_host_header_hostname host_header = (case host_header of
     None \<Rightarrow> None
   | Some h \<Rightarrow> (let v = strip h
       in if v = [] then None
          else if hd v = CHR ''['' then
            (if CHR '']'' \<in> set v then Some (takeWhile (\<lambda>c. c \<noteq> CHR '']'') v @ '']'') else Some v)
          else if length (filter (\<lambda>c. c = CHR '':'') v) = 1 then Some (strip (takeWhile (\<lambda>c. c \<noteq> CHR '':'') v))
          else Some v))"

definition is_local_request :: "access_settings \<Rightarrow> http_request \<Rightarrow> py_error + bool" where
  [py_eval]: "is_local_request s req =
     (if is_test_server_request req then Inr True
      else bind_sum (resolve_request_client_host s req) (\<lambda>client_host.
        if \<not> truthy_str client_host then Inr False
        else case ip_address (the client_host) of
          None \<Rightarrow> Inr False
        | Some address \<Rightarrow>
            if is_loopback address then
              (let host_name = parse_host_header_hostname (hget (req_headers req) ''host'')
               in if firewall_trust_proxy_headers s
                  then Inr (is_local_host host_name \<and> has_forwarded_client_ip_hint (req_headers req))
                  else Inr (is_local_host host_name \<and> \<not> has_forwarded_client_ip_hint (req_headers req)))
            else Inr (is_loopback address)))"

section \<open>The allowlist\<close>

record allow_row =
  ar_ip_address :: string
  ar_created_at :: datetime

datatype firewall_error =
    FirewallValidationError string
  | FirewallIpAlreadyExistsError string
  | FirewallRepositoryConflictError string

text \<open>The table has the address as primary key.\<close>

definition list_entries :: "allow_row list \<Rightarrow> allow_row list" where
  "list_entries rows = sort_key (\<lambda>r. (ar_created_at r, ar_ip_address r)) rows"

definition list_ip_addresses :: "allow_row list \<Rightarrow> string list" where
  [py_eval]: "list_ip_addresses rows = map ar_ip_address rows"

definition allow_exists :: "string \<Rightarrow> allow_row list \<Rightarrow> bool" where
  [py_eval]: "allow_exists ip rows = list_ex (\<lambda>r. ar_ip_address r = ip) rows"

definition allow_add :: "datetime \<Rightarrow> string \<Rightarrow> allow_row list \<Rightarrow> (firewall_error + allow_row) \<times> allow_row list" where
  [py_eval]: "allow_add now ip rows =
     (if list_ex (\<lambda>r. ar_ip_address r = ip) rows
      then (Inl (FirewallRepositoryConflictError ''IP address already exists''), rows)
      else (let row = \<lparr>ar_ip_address = ip, ar_created_at = now\<rparr> in (Inr row, rows @ [row])))"

definition allow_delete :: "string \<Rightarrow> allow_row list \<Rightarrow> bool \<times> allow_row list" where
  [py_eval]: "allow_delete ip rows =
     (if \<not> list_ex (\<lambda>r. ar_ip_address r = ip) rows then (False, rows)
      else (True, filter (\<lambda>r. ar_ip_address r \<noteq> ip) rows))"

definition normalize_ip_address :: "string \<Rightarrow> firewall_error + string" where
  [py_eval]: "normalize_ip_address v = (let raw = strip v
     in if raw = [] then Inl (FirewallValidationError ''IP address is required'')
        else case ip_address raw of
          None \<Rightarrow> Inl (FirewallValidationError ''Invalid IP address'')
        | Some a \<Rightarrow> Inr (show_ip a))"

record firewall_list =
  fl_mode :: string
  fl_entries :: "(string \<times> datetime) list"

definition list_ips :: "allow_row list \<Rightarrow> firewall_list" where
  "list_ips rows =
     (let entries = map (\<lambda>r. (ar_ip_address r, ar_created_at r)) (list_entries rows)
      in \<lparr>fl_mode = (if entries = [] then ''allow_all'' else ''allowlist_active''), fl_entries = entries\<rparr>)"

text \<open>Between the check and the insertion another session may have written: \<open>seen\<close> is what the check read.\<close>

definition add_ip :: "datetime \<Rightarrow> string \<Rightarrow> allow_row list \<Rightarrow> allow_row list
    \<Rightarrow> (firewall_error + (string \<times> datetime)) \<times> allow_row list" where
  [py_eval]: "add_ip now ip seen rows = (case normalize_ip_address ip of
     Inl e \<Rightarrow> (Inl e, rows)
   | Inr normalized \<Rightarrow>
       if allow_exists normalized seen then (Inl (FirewallIpAlreadyExistsError ''IP address already exists''), rows)
       else (case allow_add now normalized rows of
         (Inl e, rows) \<Rightarrow> (Inl (FirewallIpAlreadyExistsError ''IP address already exists''), rows)
       | (Inr row, rows) \<Rightarrow> (Inr (ar_ip_address row, ar_created_at row), rows)))"

definition remove_ip :: "string \<Rightarrow> allow_row list \<Rightarrow> (firewall_error + bool) \<times> allow_row list" where
  [py_eval]: "remove_ip ip rows = (case normalize_ip_address ip of
     Inl e \<Rightarrow> (Inl e, rows)
   | Inr normalized \<Rightarrow> (case allow_delete normalized rows of (deleted, rows) \<Rightarrow> (Inr deleted, rows)))"

definition is_ip_allowed :: "string option \<Rightarrow> allow_row list \<Rightarrow> bool" where
  [py_eval]: "is_ip_allowed ip rows =
     (let allowlist = list_ip_addresses rows
      in if allowlist = [] then True
         else case ip of
           None \<Rightarrow> False
         | Some a \<Rightarrow> (case normalize_ip_address a of Inl e \<Rightarrow> False | Inr normalized \<Rightarrow> normalized \<in> set allowlist))"

section \<open>Errors of the handlers\<close>

text \<open>The exceptions of \<open>app/core/exceptions.py\<close> with message and code.\<close>

datatype app_error =
    ProxyAuthError string
  | ProxyRateLimitError string
  | ProxyUpstreamError string
  | DashboardAuthError string string
  | DashboardNotFoundError string string
  | DashboardConflictError string string
  | DashboardBadRequestError string string
  | DashboardValidationError string string
  | DashboardRateLimitError string string int
  | OtherError

text \<open>\<open>OtherError\<close> stands for an exception no handler converts, which becomes a server error.\<close>

definition status_code :: "app_error \<Rightarrow> int" where
  [py_eval]: "status_code e = (case e of
     ProxyAuthError _ \<Rightarrow> 401 | ProxyRateLimitError _ \<Rightarrow> 429 | ProxyUpstreamError _ \<Rightarrow> 503
   | DashboardAuthError _ _ \<Rightarrow> 401 | DashboardNotFoundError _ _ \<Rightarrow> 404 | DashboardConflictError _ _ \<Rightarrow> 409
   | DashboardBadRequestError _ _ \<Rightarrow> 400 | DashboardValidationError _ _ \<Rightarrow> 422
   | DashboardRateLimitError _ _ _ \<Rightarrow> 429 | OtherError \<Rightarrow> 500)"

section \<open>The firewall\<close>

definition is_protected_api_path :: "string \<Rightarrow> bool" where
  [py_eval]: "is_protected_api_path path =
     (if path = ''/backend-api/codex'' \<or> prefix ''/backend-api/codex/'' path then True
      else path = ''/v1'' \<or> prefix ''/v1/'' path)"

text \<open>
  The part of the middleware before it reads the database: the answer, or the address and the version
  the read is made under.
\<close>

datatype firewall_next = Pass | Forbid | Read_Allowlist "string option" int

definition firewall_lookup :: "bool \<Rightarrow> ip_network list \<Rightarrow> pyfloat \<Rightarrow> firewall_cache \<Rightarrow> http_request \<Rightarrow> firewall_next" where
  [py_eval]: "firewall_lookup trust nets now c req =
     (if \<not> is_protected_api_path (req_path req) then Pass
      else (let client_ip = firewall_client_ip (req_headers req) (req_client req) trust nets;
                cached_decision = (case client_ip of None \<Rightarrow> None | Some ip \<Rightarrow> firewall_is_allowed now c ip)
            in case cached_decision of
                 Some True \<Rightarrow> Pass
               | Some False \<Rightarrow> Forbid
               | None \<Rightarrow> Read_Allowlist client_ip (fc_version c)))"

definition firewall_store :: "pyfloat \<Rightarrow> string option \<Rightarrow> bool \<Rightarrow> int \<Rightarrow> firewall_cache \<Rightarrow> firewall_cache" where
  [py_eval]: "firewall_store now client_ip allowed version_before_read c = (case client_ip of
     None \<Rightarrow> c | Some ip \<Rightarrow> firewall_set now ip allowed (Some version_before_read) c)"

text \<open>An uninterrupted request: whether it is passed on, and the cache afterwards.\<close>

definition api_firewall_middleware :: "bool \<Rightarrow> ip_network list \<Rightarrow> pyfloat \<Rightarrow> allow_row list \<Rightarrow> http_request \<Rightarrow> firewall_cache
    \<Rightarrow> bool \<times> firewall_cache" where
  [py_eval]: "api_firewall_middleware trust nets now rows req c = (case firewall_lookup trust nets now c req of
     Pass \<Rightarrow> (True, c)
   | Forbid \<Rightarrow> (False, c)
   | Read_Allowlist client_ip version \<Rightarrow>
       (let allowed = is_ip_allowed client_ip rows in (allowed, firewall_store now client_ip allowed version c)))"

text \<open>The handlers: the write, then the invalidation of the local cache, then the bump for the others.\<close>

definition add_firewall_ip :: "datetime \<Rightarrow> bool option \<Rightarrow> string \<Rightarrow> allow_row list \<Rightarrow> firewall_cache \<Rightarrow> (string \<times> int) list
    \<Rightarrow> (app_error + (string \<times> datetime)) \<times> allow_row list \<times> firewall_cache \<times> (string \<times> int) list" where
  [py_eval]: "add_firewall_ip now poller ip rows c table = (case add_ip now ip rows rows of
     (Inl (FirewallValidationError m), rows) \<Rightarrow> (Inl (DashboardBadRequestError m ''invalid_ip''), rows, c, table)
   | (Inl (FirewallIpAlreadyExistsError m), rows) \<Rightarrow> (Inl (DashboardConflictError m ''ip_exists''), rows, c, table)
   | (Inl (FirewallRepositoryConflictError m), rows) \<Rightarrow> (Inl OtherError, rows, c, table)
   | (Inr created, rows) \<Rightarrow> (Inr created, rows, invalidate_all c,
       (case poller of None \<Rightarrow> table | Some fails \<Rightarrow> bump fails NAMESPACE_FIREWALL table)))"

definition delete_firewall_ip :: "bool option \<Rightarrow> string \<Rightarrow> allow_row list \<Rightarrow> firewall_cache \<Rightarrow> (string \<times> int) list
    \<Rightarrow> (app_error + string) \<times> allow_row list \<times> firewall_cache \<times> (string \<times> int) list" where
  [py_eval]: "delete_firewall_ip poller ip rows c table = (case remove_ip ip rows of
     (Inl (FirewallValidationError m), rows) \<Rightarrow> (Inl (DashboardBadRequestError m ''invalid_ip''), rows, c, table)
   | (Inl e, rows) \<Rightarrow> (Inl OtherError, rows, c, table)
   | (Inr deleted, rows) \<Rightarrow>
       if \<not> deleted then (Inl (DashboardNotFoundError ''IP address not found'' ''ip_not_found''), rows, c, table)
       else (Inr ''deleted'', rows, invalidate_all c,
         (case poller of None \<Rightarrow> table | Some fails \<Rightarrow> bump fails NAMESPACE_FIREWALL table)))"

section \<open>The dashboard behind a proxy\<close>

record dashboard_request_auth =
  dra_mode :: dashboard_auth_mode
  dra_actor :: "string option"

definition header_name_char :: "char \<Rightarrow> bool" where
  [py_eval]: "header_name_char c = (let n = (of_char c :: nat)
     in 48 \<le> n \<and> n \<le> 57 \<or> 65 \<le> n \<and> n \<le> 90 \<or> 97 \<le> n \<and> n \<le> 122 \<or> c \<in> set ''!#$%&*+.^_`|~-'' \<or> c = CHR 0x27)"

definition forbidden_proxy_auth_headers :: "string list" where
  [py_eval]: "forbidden_proxy_auth_headers = [''authorization'', ''connection'', ''content-length'', ''cookie'', ''forwarded'', ''host'',
     ''keep-alive'', ''proxy-authenticate'', ''proxy-authorization'', ''te'', ''trailer'', ''transfer-encoding'', ''upgrade'',
     ''x-forwarded-for'', ''x-forwarded-host'', ''x-forwarded-proto'']"

definition normalize_dashboard_auth_proxy_header :: "string \<Rightarrow> py_error + string" where
  [py_eval]: "normalize_dashboard_auth_proxy_header v = (let header = strip v
     in if header = [] then Inl ValueError
        else if \<not> List.list_all header_name_char header then Inl ValueError
        else if py_lower header \<in> set forbidden_proxy_auth_headers then Inl ValueError
        else Inr header)"

text \<open>The dashboard's own test of a trusted source compares the versions itself.\<close>

definition network_contains :: "ip_network \<Rightarrow> ip \<Rightarrow> bool" where
  [py_eval]: "network_contains net candidate =
     ((case candidate of IPv4 _ \<Rightarrow> False | IPv6 _ _ \<Rightarrow> True) = net_v6 net \<and> in_network candidate net)"

definition dashboard_trusted_proxy_source :: "string \<Rightarrow> ip_network list \<Rightarrow> bool" where
  [py_eval]: "dashboard_trusted_proxy_source source_ip nets = (case ip_address source_ip of
     None \<Rightarrow> False
   | Some candidate \<Rightarrow> if nets = [] then False else list_ex (\<lambda>net. network_contains net candidate) nets)"

definition get_trusted_header_auth :: "access_settings \<Rightarrow> http_request \<Rightarrow> py_error + dashboard_request_auth option" where
  [py_eval]: "get_trusted_header_auth s req =
     (if \<not> truthy_str (req_client req) \<or> \<not> firewall_trust_proxy_headers s then Inr None
      else bind_sum (parse_trusted_proxy_networks (firewall_trusted_proxy_cidrs s)) (\<lambda>nets.
        if \<not> dashboard_trusted_proxy_source (the (req_client req)) nets then Inr None
        else case hget (req_headers req) (dashboard_auth_proxy_header s) of
          None \<Rightarrow> Inr None
        | Some raw_actor \<Rightarrow> (let actor = strip raw_actor
            in if actor = [] then Inr None else Inr (Some \<lparr>dra_mode = TRUSTED_HEADER, dra_actor = Some actor\<rparr>))))"

text \<open>The result is cached in the state of the request, whose settings do not change meanwhile.\<close>

definition get_dashboard_request_auth :: "access_settings \<Rightarrow> http_request \<Rightarrow> py_error + dashboard_request_auth option" where
  [py_eval]: "get_dashboard_request_auth s req = (case dashboard_auth_mode s of
     DISABLED \<Rightarrow> Inr (Some \<lparr>dra_mode = DISABLED, dra_actor = None\<rparr>)
   | TRUSTED_HEADER \<Rightarrow> get_trusted_header_auth s req
   | STANDARD \<Rightarrow> Inr None)"

definition password_management_enabled :: "dashboard_auth_mode \<Rightarrow> bool" where
  [py_eval]: "password_management_enabled mode = (mode \<noteq> DISABLED)"

definition filter_headers :: "headers \<Rightarrow> string \<Rightarrow> headers" where
  [py_eval]: "filter_headers hs target = filter (\<lambda>h. py_lower (fst h) \<noteq> target) hs"

definition sanitize_request :: "access_settings \<Rightarrow> ip_network list \<Rightarrow> http_request \<Rightarrow> http_request" where
  [py_eval]: "sanitize_request s nets req =
     (let trusted_header_name = py_lower (dashboard_auth_proxy_header s)
      in if dashboard_auth_mode s \<noteq> TRUSTED_HEADER then req
         else if firewall_trust_proxy_headers s \<and> truthy_str (req_client req)
              \<and> is_trusted_proxy_source (the (req_client req)) nets then req
         else if \<not> list_ex (\<lambda>h. py_lower (fst h) = trusted_header_name) (req_headers req) then req
         else req\<lparr>req_headers := filter_headers (req_headers req) trusted_header_name\<rparr>)"

section \<open>API keys on requests\<close>

definition extract_bearer_token :: "string option \<Rightarrow> string option" where
  [py_eval]: "extract_bearer_token authorization = (case authorization of
     None \<Rightarrow> None
   | Some a \<Rightarrow> (let v = strip a
       in if \<not> prefix ''bearer '' (py_lower v) then None
          else (let token = strip (drop (length ''bearer '') v) in if token = [] then None else Some token)))"

definition is_proxy_unauthenticated_socket_peer_allowed :: "access_settings \<Rightarrow> http_request \<Rightarrow> py_error + bool" where
  [py_eval]: "is_proxy_unauthenticated_socket_peer_allowed s req = (case req_client req of
     None \<Rightarrow> Inr False
   | Some socket_host \<Rightarrow> (case ip_address socket_host of
       None \<Rightarrow> Inr False
     | Some socket_ip \<Rightarrow> bind_sum (parse_trusted_proxy_networks (proxy_unauthenticated_client_cidrs s)) (\<lambda>nets.
         Inr (list_ex (in_network socket_ip) nets))))"

definition api_key_token_error :: "api_key_error \<Rightarrow> app_error" where
  [py_eval]: "api_key_token_error e = (case e of ApiKeyInvalidError m \<Rightarrow> ProxyAuthError m | _ \<Rightarrow> OtherError)"

text \<open>\<open>auth_enabled\<close> is the dashboard setting, \<open>validate\<close> the check of a token (\<open>validate_api_key_token\<close>).\<close>

definition validate_proxy_api_key_authorization :: "access_settings \<Rightarrow> bool \<Rightarrow> (string \<Rightarrow> 'w \<Rightarrow> (api_key_error + 'k) \<times> 'w)
    \<Rightarrow> string option \<Rightarrow> http_request option \<Rightarrow> 'w \<Rightarrow> (app_error + 'k option) \<times> 'w" where
  [py_eval]: "validate_proxy_api_key_authorization s auth_enabled validate authorization req w =
     (if \<not> auth_enabled then
        (case req of
           None \<Rightarrow> Inr None
         | Some r \<Rightarrow> (case is_local_request s r of
             Inl e \<Rightarrow> Inl OtherError
           | Inr True \<Rightarrow> Inr None
           | Inr False \<Rightarrow> (case is_proxy_unauthenticated_socket_peer_allowed s r of
               Inl e \<Rightarrow> Inl OtherError
             | Inr True \<Rightarrow> Inr None
             | Inr False \<Rightarrow> Inl (ProxyAuthError ''Proxy authentication must be configured before remote access is allowed''))), w)
      else case extract_bearer_token authorization of
        None \<Rightarrow> (Inl (ProxyAuthError ''Missing API key in Authorization header''), w)
      | Some token \<Rightarrow> (case validate token w of
          (Inl e, w) \<Rightarrow> (Inl (api_key_token_error e), w)
        | (Inr key, w) \<Rightarrow> (Inr (Some key), w)))"

definition validate_proxy_api_key :: "access_settings \<Rightarrow> bool \<Rightarrow> (string \<Rightarrow> 'w \<Rightarrow> (api_key_error + 'k) \<times> 'w)
    \<Rightarrow> http_request \<Rightarrow> string option \<Rightarrow> 'w \<Rightarrow> (app_error + 'k option) \<times> 'w" where
  [py_eval]: "validate_proxy_api_key s auth_enabled validate req credentials w =
     validate_proxy_api_key_authorization s auth_enabled validate
       (case credentials of None \<Rightarrow> None | Some c \<Rightarrow> Some (''Bearer '' @ c)) (Some req) w"

definition validate_usage_api_key :: "(string \<Rightarrow> 'w \<Rightarrow> (api_key_error + 'k) \<times> 'w) \<Rightarrow> string option \<Rightarrow> 'w \<Rightarrow> (app_error + 'k) \<times> 'w" where
  [py_eval]: "validate_usage_api_key validate credentials w =
     (case extract_bearer_token (case credentials of None \<Rightarrow> None | Some c \<Rightarrow> Some (''Bearer '' @ c)) of
        None \<Rightarrow> (Inl (ProxyAuthError ''Missing API key in Authorization header''), w)
      | Some token \<Rightarrow> (case validate token w of
          (Inl e, w) \<Rightarrow> (Inl (api_key_token_error e), w)
        | (Inr key, w) \<Rightarrow> (Inr key, w)))"

text \<open>
  \<open>active\<close> is the lookup of an active account, \<open>fetch\<close> the upstream usage request: \<open>None\<close> when it
  succeeds, else its status and message.
\<close>

definition validate_codex_usage_identity :: "(string \<Rightarrow> 'w \<Rightarrow> (api_key_error + 'k) \<times> 'w) \<Rightarrow> (string \<Rightarrow> bool)
    \<Rightarrow> (string \<Rightarrow> string \<Rightarrow> (int \<times> string) option) \<Rightarrow> http_request \<Rightarrow> 'w \<Rightarrow> (app_error + 'k option) \<times> 'w" where
  [py_eval]: "validate_codex_usage_identity validate active fetch req w =
     (case extract_bearer_token (hget (req_headers req) ''Authorization'') of
        None \<Rightarrow> (Inl (ProxyAuthError ''Missing ChatGPT token in Authorization header''), w)
      | Some token \<Rightarrow>
          (let account_id = (case hget (req_headers req) ''chatgpt-account-id'' of None \<Rightarrow> [] | Some a \<Rightarrow> strip a)
           in if account_id = [] then
                (if prefix ''sk-clb-'' token then
                   (case validate token w of
                      (Inl e, w) \<Rightarrow> (Inl (api_key_token_error e), w)
                    | (Inr key, w) \<Rightarrow> (Inr (Some key), w))
                 else (Inl (ProxyAuthError ''Missing chatgpt-account-id header''), w))
              else if \<not> active account_id then (Inl (ProxyAuthError ''Unactive or inactive chatgpt-account-id''), w)
              else (case fetch token account_id of
                None \<Rightarrow> (Inr None, w)
              | Some (status, message) \<Rightarrow>
                  (Inl (if status = 429 then ProxyRateLimitError message
                        else if status = 401 \<or> status = 403 then ProxyAuthError ''Invalid ChatGPT token or chatgpt-account-id''
                        else ProxyUpstreamError ''Unable to validate ChatGPT credentials at this time''), w))))"

section \<open>Which hop is the client\<close>

lemma xff_hops_nonempty [simp]: "xff_hops s \<noteq> []"
  by (simp add: xff_hops_def)

lemma walk_chain_find:
  "rc \<noteq> [] \<Longrightarrow> walk_chain nets (hd rc) rc =
     (case find (\<lambda>h. \<not> is_trusted_proxy_source h nets) rc of Some h \<Rightarrow> h | None \<Rightarrow> last rc)"
proof (induction nets "hd rc" rc rule: walk_chain.induct)
  case (1 nets cur prev rest)
  show ?case using 1(1) by (auto split: option.splits)
qed simp_all

lemma trusted_source_nonempty: "is_trusted_proxy_source p nets \<Longrightarrow> p \<noteq> []"
proof
  assume "is_trusted_proxy_source p nets" "p = []"
  moreover have "ip_address [] = None" by code_simp
  ultimately show False by (simp add: is_trusted_proxy_source_def split: if_splits)
qed

definition rightmost_untrusted :: "ip_network list \<Rightarrow> string list \<Rightarrow> string option" where
  "rightmost_untrusted nets hops = find (\<lambda>h. \<not> is_trusted_proxy_source h nets) (rev hops)"

lemma walk_chain_spoofed:
  assumes p: "is_trusted_proxy_source p nets" and r: "rightmost_untrusted nets hops = Some client"
  shows "walk_chain nets p (rev ((spoofed @ hops) @ [p])) = client"
proof -
  have "walk_chain nets (hd (p # rev (spoofed @ hops))) (p # rev (spoofed @ hops)) = client"
    by (subst walk_chain_find) (use p r in \<open>simp_all add: find_append rightmost_untrusted_def\<close>)
  then show ?thesis by simp
qed

lemma ex_not_valid: "list_ex (\<lambda>e. \<not> is_valid_ip e) xs \<longleftrightarrow> \<not> List.list_all is_valid_ip xs"
  by (induction xs) auto

lemma client_from_socket:
  assumes "\<not> (trust \<and> is_trusted_proxy_source q nets)"
  shows "firewall_client_ip hs (Some q) trust nets = Some q" "resolve_connection_client_ip hs (Some q) trust nets = Some q"
  using assms by (auto simp: firewall_client_ip_def resolve_connection_client_ip_def)

lemma client_from_chain:
  assumes p: "is_trusted_proxy_source p nets" and v: "hget hs ''x-forwarded-for'' = Some v" "v \<noteq> []"
    and h: "xff_hops v = spoofed @ trail" and r: "rightmost_untrusted nets trail = Some client"
  shows "firewall_client_ip hs (Some p) True nets = (if List.list_all is_valid_ip (spoofed @ trail) then Some client else Some p)"
    and "resolve_connection_client_ip hs (Some p) True nets = (if List.list_all is_valid_ip (spoofed @ trail) then Some client else None)"
proof -
  note w = walk_chain_spoofed [OF p r] and n = trusted_source_nonempty [OF p]
  have e: "spoofed @ trail \<noteq> []" unfolding h [symmetric] by simp
  show "firewall_client_ip hs (Some p) True nets = (if List.list_all is_valid_ip (spoofed @ trail) then Some client else Some p)"
    using n p v(2) e unfolding firewall_client_ip_def v(1) firewall_ip_from_xff_chain_def Let_def option.sel h ex_not_valid w by auto
  show "resolve_connection_client_ip hs (Some p) True nets = (if List.list_all is_valid_ip (spoofed @ trail) then Some client else None)"
    using n p v(2) e unfolding resolve_connection_client_ip_def v(1) resolve_client_ip_from_xff_chain_def Let_def option.sel h ex_not_valid w by auto
qed


definition sample_networks :: "ip_network list" where
  "sample_networks = [\<lparr>net_v6 = False, net_address = 167772160, net_prefix = 8\<rparr>]"

lemma sample_chain:
  "xff_hops ''9.9.9.9, 7.7.7.7, 10.0.0.2'' = [''9.9.9.9''] @ [''7.7.7.7'', ''10.0.0.2'']"
  "rightmost_untrusted sample_networks [''7.7.7.7'', ''10.0.0.2''] = Some ''7.7.7.7''"
  "is_trusted_proxy_source ''10.0.0.1'' sample_networks"
  "List.list_all is_valid_ip ([''9.9.9.9''] @ [''7.7.7.7'', ''10.0.0.2''])"
  by code_simp+


section \<open>Remote requests without a key\<close>

lemma remote_not_local:
  assumes "parse_trusted_proxy_networks (firewall_trusted_proxy_cidrs s) = Inr nets" "\<not> is_test_server_request req"
    and "\<And>c a. resolve_connection_client_ip (req_headers req) (req_client req) (firewall_trust_proxy_headers s) nets = Some c \<Longrightarrow>
      ip_address c = Some a \<Longrightarrow> \<not> is_loopback a"
  shows "is_local_request s req = Inr False"
  using assms(3) unfolding is_local_request_def resolve_request_client_host_def assms(1)
  by (auto simp: assms(2) truthy_str_def split: option.splits)

text \<open>
  C26. While API key authentication is switched off, a remote client is refused and nothing changes,
  whatever headers it sends, unless its socket address is in the networks configured for
  unauthenticated clients. Remote means: on a direct connection the socket address is not a loopback
  address; behind a trusted proxy the rightmost hop outside the trusted networks is not one.
\<close>

theorem remote_client_refused:
  assumes "parse_trusted_proxy_networks (firewall_trusted_proxy_cidrs s) = Inr nets"
    and "parse_trusted_proxy_networks (proxy_unauthenticated_client_cidrs s) = Inr open_nets"
    and "\<not> is_test_server_request req" "req_client req = Some p" "ip_address p = Some pa" "\<not> list_ex (in_network pa) open_nets"
    and "if firewall_trust_proxy_headers s \<and> is_trusted_proxy_source p nets
      then \<exists>v spoofed trail client a. hget (req_headers req) ''x-forwarded-for'' = Some v \<and> v \<noteq> [] \<and> xff_hops v = spoofed @ trail \<and>
        rightmost_untrusted nets trail = Some client \<and> ip_address client = Some a \<and> \<not> is_loopback a
      else \<not> is_loopback pa"
  shows "validate_proxy_api_key_authorization s False validate authorization (Some req) w =
    (Inl (ProxyAuthError ''Proxy authentication must be configured before remote access is allowed''), w)"
proof -
  have "\<not> is_loopback a" if c: "resolve_connection_client_ip (req_headers req) (req_client req) (firewall_trust_proxy_headers s) nets = Some c"
    and a: "ip_address c = Some a" for c a
  proof (cases "firewall_trust_proxy_headers s \<and> is_trusted_proxy_source p nets")
    case True
    with assms(7) obtain v spoofed trail client b where "hget (req_headers req) ''x-forwarded-for'' = Some v" "v \<noteq> []"
      "xff_hops v = spoofed @ trail" "rightmost_untrusted nets trail = Some client" and b: "ip_address client = Some b" "\<not> is_loopback b"
      by auto
    from client_from_chain(2) [OF conjunct2 [OF True] this(1-4)] c True have "c = client" by (simp add: assms(4) split: if_splits)
    with a b show ?thesis by simp
  next
    case False
    with client_from_socket(2) [OF False, of "req_headers req"] c a assms(4,5,7) show ?thesis by simp
  qed
  from remote_not_local [OF assms(1,3) this] have "is_local_request s req = Inr False" .
  then show ?thesis using assms(2,6)
    by (simp add: validate_proxy_api_key_authorization_def is_proxy_unauthenticated_socket_peer_allowed_def assms(4,5))
qed

definition sample_settings :: access_settings where
  "sample_settings = \<lparr>firewall_trust_proxy_headers = True, firewall_trusted_proxy_cidrs = [''10.0.0.0/8''],
     proxy_unauthenticated_client_cidrs = [], dashboard_auth_mode = TRUSTED_HEADER, dashboard_auth_proxy_header = ''Remote-User''\<rparr>"

definition sample_request :: "string \<Rightarrow> http_request" where
  "sample_request client = \<lparr>req_path = ''/v1/responses'', req_client = Some client, req_server = Some ''0.0.0.0'',
     req_headers = [(''x-forwarded-for'', ''127.0.0.1, 7.7.7.7, 10.0.0.2''), (''host'', ''localhost''), (''remote-user'', ''root'')],
     req_cookies = []\<rparr>"

theorem remote_client_refused_witness:
  "validate_proxy_api_key_authorization sample_settings False (\<lambda>t w. (Inr t, w)) None (Some (sample_request ''10.0.0.1'')) () =
    (Inl (ProxyAuthError ''Proxy authentication must be configured before remote access is allowed''), ())"
proof (rule remote_client_refused)
  show "parse_trusted_proxy_networks (firewall_trusted_proxy_cidrs sample_settings) = Inr sample_networks" by code_simp
  show "parse_trusted_proxy_networks (proxy_unauthenticated_client_cidrs sample_settings) = Inr []" by code_simp
  show "\<not> is_test_server_request (sample_request ''10.0.0.1'')" by code_simp
  show "req_client (sample_request ''10.0.0.1'') = Some ''10.0.0.1''" by code_simp
  show "ip_address ''10.0.0.1'' = Some (IPv4 167772161)" by code_simp
  show "\<not> list_ex (in_network (IPv4 167772161)) []" by simp
  have "firewall_trust_proxy_headers sample_settings" by code_simp
  moreover have "hget (req_headers (sample_request ''10.0.0.1'')) ''x-forwarded-for'' = Some ''127.0.0.1, 7.7.7.7, 10.0.0.2''" by code_simp
  moreover have "xff_hops ''127.0.0.1, 7.7.7.7, 10.0.0.2'' = [''127.0.0.1''] @ [''7.7.7.7'', ''10.0.0.2'']" by code_simp
  moreover have "ip_address ''7.7.7.7'' = Some (IPv4 117901063)" by code_simp
  moreover have "\<not> is_loopback (IPv4 117901063)" by code_simp
  ultimately show "if firewall_trust_proxy_headers sample_settings \<and> is_trusted_proxy_source ''10.0.0.1'' sample_networks
      then \<exists>v spoofed trail client a. hget (req_headers (sample_request ''10.0.0.1'')) ''x-forwarded-for'' = Some v \<and> v \<noteq> [] \<and>
        xff_hops v = spoofed @ trail \<and> rightmost_untrusted sample_networks trail = Some client \<and> ip_address client = Some a \<and> \<not> is_loopback a
      else \<not> is_loopback (IPv4 167772161)"
    using sample_chain(2,3) by (metis list.distinct(1))
qed
section \<open>The allowlist as a set of addresses\<close>

text \<open>
  Operations of the administrators; \<open>seen\<close> is the table as the check of an addition read it, which
  may be older than the table the insertion meets.
\<close>

datatype allow_op = Allow datetime string "allow_row list" | Revoke string

fun run_allow_op :: "allow_op \<Rightarrow> allow_row list \<Rightarrow> allow_row list" where
  "run_allow_op (Allow now ip seen) rows = snd (add_ip now ip seen rows)"
| "run_allow_op (Revoke ip) rows = snd (remove_ip ip rows)"

definition addresses :: "allow_row list \<Rightarrow> string set" where
  "addresses rows = ar_ip_address ` set rows"

fun spec_allow_op :: "allow_op \<Rightarrow> string set \<Rightarrow> string set" where
  "spec_allow_op (Allow now ip seen) A = (case normalize_ip_address ip of
     Inl e \<Rightarrow> A | Inr a \<Rightarrow> if allow_exists a seen then A else insert a A)"
| "spec_allow_op (Revoke ip) A = (case normalize_ip_address ip of Inl e \<Rightarrow> A | Inr a \<Rightarrow> A - {a})"

lemma allow_add_rows: "snd (allow_add now a rows) = (if a \<in> addresses rows then rows else rows @ [\<lparr>ar_ip_address = a, ar_created_at = now\<rparr>])"
  by (auto simp: allow_add_def addresses_def list_ex_iff Let_def)

lemma add_ip_rows: "snd (add_ip now ip seen rows) = (case normalize_ip_address ip of
   Inl e \<Rightarrow> rows | Inr a \<Rightarrow> if allow_exists a seen then rows else snd (allow_add now a rows))"
  by (auto simp: add_ip_def split: sum.splits prod.splits)

lemma remove_ip_rows: "snd (remove_ip ip rows) = (case normalize_ip_address ip of
   Inl e \<Rightarrow> rows | Inr a \<Rightarrow> filter (\<lambda>r. ar_ip_address r \<noteq> a) rows)"
  by (auto simp: remove_ip_def allow_delete_def list_ex_iff filter_id_conv [THEN iffD2] split: sum.splits)

lemma run_allow_op_addresses: "addresses (run_allow_op c rows) = spec_allow_op c (addresses rows)"
  by (cases c) (auto simp: add_ip_rows remove_ip_rows allow_add_rows addresses_def split: sum.splits)

lemma run_allow_op_distinct:
  "distinct (map ar_ip_address rows) \<Longrightarrow> distinct (map ar_ip_address (run_allow_op c rows))"
  by (cases c) (auto simp: add_ip_rows remove_ip_rows allow_add_rows addresses_def distinct_map_filter split: sum.splits)

lemma is_ip_allowed_addresses:
  "is_ip_allowed ip rows \<longleftrightarrow> addresses rows = {} \<or> (\<exists>a b. ip = Some a \<and> normalize_ip_address a = Inr b \<and> b \<in> addresses rows)"
  by (auto simp: is_ip_allowed_def addresses_def list_ip_addresses_def Let_def split: option.splits sum.splits)

text \<open>
  C27. The allowlist is a set of addresses, not of spellings: after any sequence of additions and
  removals, also additions whose check read an older table, the table lists every address of the set
  that the specification computes exactly once, and a client is let through exactly when that set is
  empty or holds the client's normalised address.
\<close>

theorem allowlist_refines_address_set:
  "(let rows = fold run_allow_op ops []; A = fold spec_allow_op ops {} in
     addresses rows = A \<and> distinct (map ar_ip_address rows) \<and>
     (\<forall>ip. is_ip_allowed ip rows \<longleftrightarrow> A = {} \<or> (\<exists>a b. ip = Some a \<and> normalize_ip_address a = Inr b \<and> b \<in> A)))"
proof -
  have a: "addresses (fold run_allow_op ops rows) = fold spec_allow_op ops (addresses rows)" for rows
    by (induction ops arbitrary: rows) (simp_all add: run_allow_op_addresses)
  have "distinct (map ar_ip_address rows) \<Longrightarrow> distinct (map ar_ip_address (fold run_allow_op ops rows))" for rows
    by (induction ops arbitrary: rows) (simp_all add: run_allow_op_distinct)
  moreover have "addresses [] = {}" by (simp add: addresses_def)
  ultimately show ?thesis using a [of "[]"] unfolding Let_def is_ip_allowed_addresses by simp
qed

section \<open>Cached decisions\<close>

text \<open>
  The table and the cache of one instance with what is in progress: requests that noted the version
  and are about to read, requests that read and are about to store, and the invalidations that writers
  of this instance, or of another one through the poller, still owe.
\<close>

record firewall_state =
  fs_rows :: "allow_row list"
  fs_cache :: firewall_cache
  fs_reading :: "(string option \<times> int) set"
  fs_storing :: "(string option \<times> int \<times> bool) set"
  fs_owed :: nat

inductive firewall_step :: "bool \<Rightarrow> ip_network list \<Rightarrow> firewall_state \<Rightarrow> firewall_state \<Rightarrow> bool" for trust nets where
  fw_lookup: "firewall_lookup trust nets now (fs_cache s) req = Read_Allowlist ip n \<Longrightarrow>
    firewall_step trust nets s (s\<lparr>fs_reading := insert (ip, n) (fs_reading s)\<rparr>)"
| fw_read: "(ip, n) \<in> fs_reading s \<Longrightarrow>
    firewall_step trust nets s (s\<lparr>fs_storing := insert (ip, n, is_ip_allowed ip (fs_rows s)) (fs_storing s)\<rparr>)"
| fw_store: "(ip, n, allowed) \<in> fs_storing s \<Longrightarrow>
    firewall_step trust nets s (s\<lparr>fs_cache := firewall_store now ip allowed n (fs_cache s)\<rparr>)"
| fw_admin: "firewall_step trust nets s (s\<lparr>fs_rows := run_allow_op c (fs_rows s), fs_owed := fs_owed s + 1\<rparr>)"
| fw_invalidate: "0 < fs_owed s \<Longrightarrow>
    firewall_step trust nets s (s\<lparr>fs_cache := invalidate_all (fs_cache s), fs_owed := fs_owed s - 1\<rparr>)"

definition decision_fresh :: "allow_row list \<Rightarrow> string \<Rightarrow> bool \<Rightarrow> bool" where
  "decision_fresh rows ip allowed \<longleftrightarrow> allowed = is_ip_allowed (Some ip) rows"

definition firewall_inv :: "firewall_state \<Rightarrow> bool" where
  "firewall_inv s \<longleftrightarrow> fwc.coherent (decision_fresh (fs_rows s)) (fs_cache s)
     {(ip, n). (Some ip, n) \<in> fs_reading s} {(ip, n, v). (Some ip, n, v) \<in> fs_storing s} {u. 0 < fs_owed s}"

lemma firewall_step_inv:
  assumes "firewall_step trust nets s s'" "firewall_inv s"
  shows "firewall_inv s'"
  using assms
proof cases
  case (fw_lookup now req ip n)
  then have n: "n = fc_version (fs_cache s)"
    by (auto simp: firewall_lookup_def Let_def split: if_splits option.splits bool.splits)
  show ?thesis
  proof (cases ip)
    case (Some a)
    have "{(ip', m). Some ip' = ip \<and> m = n \<or> (Some ip', m) \<in> fs_reading s} = insert (a, n) {(ip, n). (Some ip, n) \<in> fs_reading s}"
      using Some by auto
    then show ?thesis using fwc.coherent_begin [OF assms(2) [unfolded firewall_inv_def], of a]
      unfolding firewall_inv_def fw_lookup(1) by (simp add: n Collect_case_prod_mono)
  qed (use assms(2) in \<open>simp add: firewall_inv_def fw_lookup(1)\<close>)
next
  case (fw_read ip n)
  show ?thesis
  proof (cases ip)
    case (Some a)
    have "{(ip', m, v). (Some ip', m, v) \<in> insert (ip, n, is_ip_allowed ip (fs_rows s)) (fs_storing s)} =
        insert (a, n, is_ip_allowed ip (fs_rows s)) {(ip, n, v). (Some ip, n, v) \<in> fs_storing s}"
      using Some by auto
    then show ?thesis using fwc.coherent_read [OF assms(2) [unfolded firewall_inv_def], of a n "is_ip_allowed ip (fs_rows s)"] fw_read(2) Some
      unfolding firewall_inv_def fw_read(1) by (simp add: decision_fresh_def)
  qed (use assms(2) in \<open>simp add: firewall_inv_def fw_read(1)\<close>)
next
  case (fw_store ip n allowed now)
  show ?thesis
  proof (cases ip)
    case (Some a)
    show ?thesis using fwc.coherent_fill [OF assms(2) [unfolded firewall_inv_def], of a n allowed now] fw_store(2) Some
      unfolding firewall_inv_def fw_store(1) by (simp add: firewall_store_def)
  qed (use assms(2) in \<open>simp add: firewall_inv_def fw_store(1) firewall_store_def\<close>)
next
  case (fw_admin c)
  have "fwc.coherent (decision_fresh (run_allow_op c (fs_rows s))) (fs_cache s) {(ip, n). (Some ip, n) \<in> fs_reading s}
      {(ip, n, v). (Some ip, n, v) \<in> fs_storing s} ({u. 0 < fs_owed s} \<union> {()})"
    by (rule fwc.coherent_write [OF assms(2) [unfolded firewall_inv_def]]) simp
  moreover have "{u. 0 < fs_owed s} \<union> {()} = {u. 0 < fs_owed s + 1}" by auto
  ultimately show ?thesis unfolding firewall_inv_def fw_admin by simp
next
  case fw_invalidate
  have "fwc.coherent (decision_fresh (fs_rows s)) (invalidate_all (fs_cache s)) {(ip, n). (Some ip, n) \<in> fs_reading s}
      {(ip, n, v). (Some ip, n, v) \<in> fs_storing s} ({u. 0 < fs_owed s} - {()})"
    by (rule fwc.coherent_purge [OF assms(2) [unfolded firewall_inv_def]])
  then show ?thesis unfolding firewall_inv_def fw_invalidate(1)
    by (auto elim!: fwc.coherent_mono)
qed

definition firewall_init :: "allow_row list \<Rightarrow> firewall_cache \<Rightarrow> firewall_state" where
  "firewall_init rows c = \<lparr>fs_rows = rows, fs_cache = c, fs_reading = {}, fs_storing = {}, fs_owed = 0\<rparr>"

lemma firewall_run_inv:
  assumes "(firewall_step trust nets)\<^sup>*\<^sup>* (firewall_init rows c) s" "FirewallIPCache ttl = Inr c"
  shows "firewall_inv s"
  using assms
proof (induction rule: rtranclp_induct)
  case base
  then show ?case
    by (auto simp: firewall_inv_def firewall_init_def fwc.coherent_def FirewallIPCache_def stored_def split: if_splits)
next
  case (step s s')
  then show ?case using firewall_step_inv by blast
qed

text \<open>
  C28. However requests, changes of the allowlist and invalidations overlap, a request that is answered
  from the cache while no invalidation is outstanding is passed or forbidden as the allowlist of that
  moment says.
\<close>

theorem firewall_decision_current:
  assumes "FirewallIPCache ttl = Inr c" "(firewall_step trust nets)\<^sup>*\<^sup>* (firewall_init rows c) s" "fs_owed s = 0"
    and "is_protected_api_path (req_path req)"
  shows "fst (api_firewall_middleware trust nets now (fs_rows s) req (fs_cache s)) \<longleftrightarrow>
    is_ip_allowed (firewall_client_ip (req_headers req) (req_client req) trust nets) (fs_rows s)"
proof -
  have inv: "firewall_inv s" using firewall_run_inv assms(1,2) by blast
  let ?ip = "firewall_client_ip (req_headers req) (req_client req) trust nets"
  have hit: "allowed = is_ip_allowed (Some ip) (fs_rows s)" if "firewall_is_allowed now (fs_cache s) ip = Some allowed" for ip allowed
  proof -
    have "stored (fc_entries (fs_cache s)) ip = Some allowed"
      using that by (auto simp: firewall_is_allowed_def stored_def split: option.splits if_splits)
    from fwc.coherent_served [OF inv [unfolded firewall_inv_def] this] assms(3) show ?thesis by (simp add: decision_fresh_def)
  qed
  then show ?thesis using assms(4)
    by (cases ?ip) (auto simp: api_firewall_middleware_def firewall_lookup_def Let_def split: option.splits bool.splits)
qed
definition sample_fw_cache :: firewall_cache where
  "sample_fw_cache = \<lparr>fc_entries = [], fc_ttl_seconds = 30, fc_version = 0\<rparr>"

lemma sample_firewall_run:
  "\<exists>s. (firewall_step True sample_networks)\<^sup>*\<^sup>* (firewall_init [] sample_fw_cache) s \<and> fs_owed s = 0 \<and>
     fs_rows s = [\<lparr>ar_ip_address = ''1.2.3.4'', ar_created_at = 5\<rparr>] \<and> (Some ''7.7.7.7'', 0, True) \<in> fs_storing s"
proof -
  let ?step = "firewall_step True sample_networks"
  let ?s0 = "firewall_init [] sample_fw_cache"
  let ?s1 = "?s0\<lparr>fs_reading := insert (Some ''7.7.7.7'', 0) (fs_reading ?s0)\<rparr>"
  let ?s2 = "?s1\<lparr>fs_storing := insert (Some ''7.7.7.7'', 0, is_ip_allowed (Some ''7.7.7.7'') (fs_rows ?s1)) (fs_storing ?s1)\<rparr>"
  let ?s3 = "?s2\<lparr>fs_rows := run_allow_op (Allow 5 ''1.2.3.4'' []) (fs_rows ?s2), fs_owed := fs_owed ?s2 + 1\<rparr>"
  let ?s4 = "?s3\<lparr>fs_cache := invalidate_all (fs_cache ?s3), fs_owed := fs_owed ?s3 - 1\<rparr>"
  let ?s5 = "?s4\<lparr>fs_cache := firewall_store 7 (Some ''7.7.7.7'') True 0 (fs_cache ?s4)\<rparr>"
  have "firewall_lookup True sample_networks 0 sample_fw_cache (sample_request ''7.7.7.7'') = Read_Allowlist (Some ''7.7.7.7'') 0"
    by code_simp
  then have 1: "?step ?s0 ?s1" by (intro fw_lookup [where now = 0 and req = "sample_request ''7.7.7.7''"]) (simp add: firewall_init_def)
  have 2: "?step ?s1 ?s2" by (rule fw_read) simp
  have 3: "?step ?s2 ?s3" by (rule fw_admin)
  have 4: "?step ?s3 ?s4" by (rule fw_invalidate) simp
  have "is_ip_allowed (Some ''7.7.7.7'') []" by code_simp
  then have p: "(Some ''7.7.7.7'', 0, True) \<in> fs_storing ?s4" by (simp add: firewall_init_def)
  then have 5: "?step ?s4 ?s5" by (rule fw_store)
  have "run_allow_op (Allow 5 ''1.2.3.4'' []) [] = [\<lparr>ar_ip_address = ''1.2.3.4'', ar_created_at = 5\<rparr>]" by code_simp
  then have "fs_owed ?s5 = 0" "fs_rows ?s5 = [\<lparr>ar_ip_address = ''1.2.3.4'', ar_created_at = 5\<rparr>]" "(Some ''7.7.7.7'', 0, True) \<in> fs_storing ?s5"
    using p by (simp_all add: firewall_init_def)
  moreover have "?step\<^sup>*\<^sup>* ?s0 ?s5" using 1 2 3 4 5 by (meson rtranclp.rtrancl_into_rtrancl rtranclp.rtrancl_refl)
  ultimately show ?thesis by blast
qed

theorem firewall_decision_current_witness:
  "\<exists>s. (firewall_step True sample_networks)\<^sup>*\<^sup>* (firewall_init [] sample_fw_cache) s \<and> (Some ''7.7.7.7'', 0, True) \<in> fs_storing s \<and>
     \<not> fst (api_firewall_middleware True sample_networks 8 (fs_rows s) (sample_request ''7.7.7.7'') (fs_cache s))"
proof -
  obtain s where s: "(firewall_step True sample_networks)\<^sup>*\<^sup>* (firewall_init [] sample_fw_cache) s" "fs_owed s = 0"
    "fs_rows s = [\<lparr>ar_ip_address = ''1.2.3.4'', ar_created_at = 5\<rparr>]" "(Some ''7.7.7.7'', 0, True) \<in> fs_storing s"
    using sample_firewall_run by blast
  have c: "FirewallIPCache 30 = Inr sample_fw_cache" by code_simp
  have "is_protected_api_path (req_path (sample_request ''7.7.7.7''))" by code_simp
  moreover have "\<not> is_ip_allowed (firewall_client_ip (req_headers (sample_request ''7.7.7.7'')) (req_client (sample_request ''7.7.7.7'')) True sample_networks)
      [\<lparr>ar_ip_address = ''1.2.3.4'', ar_created_at = 5\<rparr>]" by code_simp
  ultimately show ?thesis using firewall_decision_current [OF c s(1,2)] s(1,3,4) by metis
qed

section \<open>Trusted headers\<close>

lemma trusted_sources_agree: "dashboard_trusted_proxy_source p nets = is_trusted_proxy_source p nets"
proof -
  have "network_contains net a = in_network a net" for net a
    by (cases a) (simp_all add: network_contains_def in_network_def)
  then show ?thesis by (auto simp: dashboard_trusted_proxy_source_def is_trusted_proxy_source_def split: option.splits)
qed

lemma hget_filtered: "hget (filter_headers hs (py_lower name)) name = None"
  by (auto simp: hget_def filter_headers_def map_of_eq_None_iff)

lemma hget_absent: "\<not> list_ex (\<lambda>h. py_lower (fst h) = py_lower name) hs \<Longrightarrow> hget hs name = None"
proof -
  assume a: "\<not> list_ex (\<lambda>h. py_lower (fst h) = py_lower name) hs"
  have "py_lower name \<notin> fst ` set hs"
  proof
    assume "py_lower name \<in> fst ` set hs"
    then obtain h where "h \<in> set hs" "fst h = py_lower name" by force
    with a show False by (auto simp: list_ex_iff)
  qed
  then show ?thesis by (simp add: hget_def map_of_eq_None_iff)
qed

text \<open>
  C29. In trusted-header mode the dashboard accepts a header as proof of identity only if the request
  came over a connection from a trusted proxy and proxy headers are trusted; the actor is then the
  stripped, non-empty value of the header. In every other case the sanitizer in front has removed the
  header from the request, so nothing behind it sees one.
\<close>

theorem trusted_header_only_from_proxy:
  assumes "dashboard_auth_mode s = TRUSTED_HEADER" "parse_trusted_proxy_networks (firewall_trusted_proxy_cidrs s) = Inr nets"
  shows "(let req' = sanitize_request s nets req;
      trusted = (firewall_trust_proxy_headers s \<and> (\<exists>p. req_client req = Some p \<and> is_trusted_proxy_source p nets));
      header = hget (req_headers req) (dashboard_auth_proxy_header s)
    in hget (req_headers req') (dashboard_auth_proxy_header s) = (if trusted then header else None) \<and>
       get_dashboard_request_auth s req' = Inr (case header of
         Some v \<Rightarrow> if trusted \<and> strip v \<noteq> [] then Some \<lparr>dra_mode = TRUSTED_HEADER, dra_actor = Some (strip v)\<rparr> else None
       | None \<Rightarrow> None))"
proof (cases "firewall_trust_proxy_headers s \<and> (\<exists>p. req_client req = Some p \<and> is_trusted_proxy_source p nets)")
  case True
  then obtain p where p: "req_client req = Some p" "is_trusted_proxy_source p nets" "p \<noteq> []" using trusted_source_nonempty by blast
  with True assms have "sanitize_request s nets req = req" by (simp add: sanitize_request_def)
  with True p assms show ?thesis
    by (auto simp: get_dashboard_request_auth_def get_trusted_header_auth_def trusted_sources_agree Let_def split: option.splits)
next
  case False
  let ?req = "sanitize_request s nets req"
  have c: "req_client ?req = req_client req" by (simp add: sanitize_request_def Let_def)
  have "hget (req_headers ?req) (dashboard_auth_proxy_header s) = None"
    using False assms(1) hget_filtered hget_absent [of "dashboard_auth_proxy_header s" "req_headers req"]
    by (auto simp: sanitize_request_def Let_def truthy_str_def split: option.splits)
  moreover have "get_dashboard_request_auth s ?req = Inr None"
    using False assms c by (auto simp: get_dashboard_request_auth_def get_trusted_header_auth_def trusted_sources_agree truthy_str_def split: option.splits)
  ultimately show ?thesis using False unfolding Let_def by (auto split: option.splits)
qed

theorem trusted_header_only_from_proxy_witness:
  "get_dashboard_request_auth sample_settings (sanitize_request sample_settings sample_networks (sample_request ''10.0.0.1'')) =
     Inr (Some \<lparr>dra_mode = TRUSTED_HEADER, dra_actor = Some ''root''\<rparr>) \<and>
   get_dashboard_request_auth sample_settings (sanitize_request sample_settings sample_networks (sample_request ''7.7.7.7'')) = Inr None"
proof -
  have s: "dashboard_auth_mode sample_settings = TRUSTED_HEADER" "firewall_trust_proxy_headers sample_settings"
    "parse_trusted_proxy_networks (firewall_trusted_proxy_cidrs sample_settings) = Inr sample_networks"
    "hget (req_headers (sample_request c)) (dashboard_auth_proxy_header sample_settings) = Some ''root''" 
    "req_client (sample_request c) = Some c" "strip ''root'' = ''root''" "\<not> is_trusted_proxy_source ''7.7.7.7'' sample_networks" for c
    by (simp_all add: sample_settings_def sample_request_def) code_simp+
  show ?thesis
    using trusted_header_only_from_proxy [OF s(1,3), of "sample_request ''10.0.0.1''"] sample_chain(3)
      trusted_header_only_from_proxy [OF s(1,3), of "sample_request ''7.7.7.7''"] by (simp add: Let_def s)
qed
section \<open>Validated settings\<close>

lemma collect_opt_Some_iff: "(\<exists>ys. collect_opt xs = Some ys) \<longleftrightarrow> None \<notin> set xs"
  by (induction xs rule: collect_opt.induct) (auto split: option.splits)

lemma validated_networks_parse:
  assumes "normalize_cidr_list v = Inr cidrs"
  obtains nets where "parse_trusted_proxy_networks cidrs = Inr nets"
proof -
  have "None \<notin> set (map parse_network cidrs)" using assms by (auto simp: normalize_cidr_list_def Let_def split: if_splits)
  then obtain nets where "collect_opt (map parse_network cidrs) = Some nets" using collect_opt_Some_iff by blast
  then show thesis using that by (simp add: parse_trusted_proxy_networks_def)
qed

text \<open>
  C30. Settings whose network lists passed validation never make a request fail with a \<open>ValueError\<close>:
  the locality check, the check of the peer against the open networks and the dashboard's request
  authentication return a value for every request, however malformed its addresses and headers are.
\<close>

theorem validated_settings_never_raise:
  assumes "normalize_cidr_list v = Inr (firewall_trusted_proxy_cidrs s)"
    and "normalize_cidr_list v' = Inr (proxy_unauthenticated_client_cidrs s)"
  shows "(\<exists>b. is_local_request s req = Inr b) \<and> (\<exists>b. is_proxy_unauthenticated_socket_peer_allowed s req = Inr b) \<and>
    (\<exists>auth. get_dashboard_request_auth s req = Inr auth)"
proof -
  obtain nets where n: "parse_trusted_proxy_networks (firewall_trusted_proxy_cidrs s) = Inr nets"
    using validated_networks_parse [OF assms(1)] .
  obtain open_nets where p: "parse_trusted_proxy_networks (proxy_unauthenticated_client_cidrs s) = Inr open_nets"
    using validated_networks_parse [OF assms(2)] .
  have "\<exists>b. is_local_request s req = Inr b"
    unfolding is_local_request_def resolve_request_client_host_def n by (auto simp: Let_def split: option.splits)
  moreover have "\<exists>b. is_proxy_unauthenticated_socket_peer_allowed s req = Inr b"
    unfolding is_proxy_unauthenticated_socket_peer_allowed_def p by (auto split: option.splits)
  moreover have "\<exists>auth. get_dashboard_request_auth s req = Inr auth"
    unfolding get_dashboard_request_auth_def get_trusted_header_auth_def n
    by (auto simp: Let_def split: option.splits dashboard_auth_mode.splits)
  ultimately show ?thesis by blast
qed

theorem validated_settings_never_raise_witness:
  "(\<exists>b. is_local_request sample_settings (sample_request ''not an address'') = Inr b)"
proof -
  have "normalize_cidr_list (SL_Str '' 10.0.0.0/8, '') = Inr (firewall_trusted_proxy_cidrs sample_settings)"
    "normalize_cidr_list SL_None = Inr (proxy_unauthenticated_client_cidrs sample_settings)" by code_simp+
  from validated_settings_never_raise [OF this] show ?thesis by blast
qed

end
