(* ===== verification/Dashboard_Auth.thy ===== *)
theory Dashboard_Auth
  imports Client_Access Window_Limit
begin

text \<open>
  The login of the dashboard: the settings row (\<open>app/modules/settings/\<close>, \<open>app/core/config/settings_cache.py\<close>),
  session tokens, passwords and time-based codes (\<open>app/modules/dashboard_auth/\<close>, \<open>app/core/auth/totp.py\<close>),
  bootstrap tokens (\<open>app/core/bootstrap.py\<close>), and the check every dashboard request passes
  (\<open>validate_dashboard_session\<close>). Fernet, bcrypt, pyotp and the JSON text conversion are functions of the
  environment.

  The lemmas show how long a session is accepted, when a request is let in, that a code is accepted at
  most once however verifications overlap, and who can set the first password.
\<close>

section \<open>The settings row\<close>

record dashboard_settings =
  sticky_threads_enabled :: bool
  upstream_stream_transport :: string
  prefer_earlier_reset_accounts :: bool
  routing_strategy :: string
  openai_cache_affinity_max_age_seconds :: int
  prompt_cache_idle_ttl_seconds :: int
  gateway_safe_mode :: bool
  sticky_reallocation_budget_threshold_pct :: pyfloat
  import_without_overwrite :: bool
  totp_required_on_login :: bool
  password_hash :: "string option"
  bootstrap_token_encrypted :: "string option"
  bootstrap_token_hash :: "string option"
  api_key_auth_enabled :: bool
  totp_secret_encrypted :: "string option"
  totp_last_verified_step :: "int option"

text \<open>
  What the handlers read and write: the row with id 1, the attempts of the rate limiters, the audit
  entries (action, actor, method), and the cached row with the time it was cached.
\<close>

record auth_world =
  aw_row :: "dashboard_settings option"
  aw_attempts :: "rate_limit_attempt list"
  aw_audit :: "(string \<times> string option \<times> string option) list"
  aw_cached :: "(dashboard_settings \<times> pyfloat) option"

text \<open>
  The environment of one call: the clocks, the process settings, and the functions of the libraries.
  \<open>decrypt\<close> is \<open>None\<close> for an invalid token, \<open>loads\<close> for text that is not JSON, \<open>checkpw\<close> for a malformed hash.
\<close>

record auth_env =
  env_settings :: access_settings
  env_affinity_age :: int
  env_bootstrap_token :: "string option"
  env_time :: int
  env_monotonic :: pyfloat
  env_utcnow :: datetime
  encrypt :: "string \<Rightarrow> string"
  decrypt :: "string \<Rightarrow> string option"
  dumps :: "json \<Rightarrow> string"
  loads :: "string \<Rightarrow> json option"
  hashpw :: "string \<Rightarrow> string"
  checkpw :: "string \<Rightarrow> string \<Rightarrow> bool option"
  totp_at :: "string \<Rightarrow> int \<Rightarrow> string"
  sha256_digest :: "string \<Rightarrow> string"
  random_token :: string

definition default_settings :: "auth_env \<Rightarrow> dashboard_settings" where
  [py_eval]: "default_settings env = \<lparr>sticky_threads_enabled = True, upstream_stream_transport = ''default'',
     prefer_earlier_reset_accounts = True, routing_strategy = ''capacity_weighted'',
     openai_cache_affinity_max_age_seconds = env_affinity_age env, prompt_cache_idle_ttl_seconds = 3600,
     gateway_safe_mode = False, sticky_reallocation_budget_threshold_pct = 95, import_without_overwrite = True,
     totp_required_on_login = False, password_hash = None, bootstrap_token_encrypted = None, bootstrap_token_hash = None,
     api_key_auth_enabled = False, totp_secret_encrypted = None, totp_last_verified_step = None\<rparr>"

text \<open>
  The insertion of another session between the read and the commit makes the commit fail and its row
  is returned; here the table is read and written in one step.
\<close>

definition get_or_create :: "auth_env \<Rightarrow> ('e, dashboard_settings, auth_world) stateful" where
  [py_eval]: "get_or_create env w = (case aw_row w of
     Some r \<Rightarrow> (Inr r, w)
   | None \<Rightarrow> (Inr (default_settings env), w\<lparr>aw_row := Some (default_settings env)\<rparr>))"

definition save_row :: "dashboard_settings \<Rightarrow> ('e, dashboard_settings, auth_world) stateful" where
  [py_eval]: "save_row r w = (Inr r, w\<lparr>aw_row := Some r\<rparr>)"

text \<open>The arguments of \<open>update\<close>; \<open>None\<close> keeps a field.\<close>

record settings_patch =
  sp_sticky_threads_enabled :: "bool option"
  sp_upstream_stream_transport :: "string option"
  sp_prefer_earlier_reset_accounts :: "bool option"
  sp_routing_strategy :: "string option"
  sp_openai_cache_affinity_max_age_seconds :: "int option"
  sp_prompt_cache_idle_ttl_seconds :: "int option"
  sp_gateway_safe_mode :: "bool option"
  sp_sticky_reallocation_budget_threshold_pct :: "pyfloat option"
  sp_import_without_overwrite :: "bool option"
  sp_totp_required_on_login :: "bool option"
  sp_api_key_auth_enabled :: "bool option"

definition or_keep :: "'a option \<Rightarrow> 'a \<Rightarrow> 'a" where
  [py_eval]: "or_keep v old = (case v of None \<Rightarrow> old | Some x \<Rightarrow> x)"

definition patch_row :: "settings_patch \<Rightarrow> dashboard_settings \<Rightarrow> dashboard_settings" where
  [py_eval]: "patch_row p r = r\<lparr>
     sticky_threads_enabled := or_keep (sp_sticky_threads_enabled p) (sticky_threads_enabled r),
     upstream_stream_transport := or_keep (sp_upstream_stream_transport p) (upstream_stream_transport r),
     prefer_earlier_reset_accounts := or_keep (sp_prefer_earlier_reset_accounts p) (prefer_earlier_reset_accounts r),
     routing_strategy := or_keep (sp_routing_strategy p) (routing_strategy r),
     openai_cache_affinity_max_age_seconds := or_keep (sp_openai_cache_affinity_max_age_seconds p) (openai_cache_affinity_max_age_seconds r),
     prompt_cache_idle_ttl_seconds := or_keep (sp_prompt_cache_idle_ttl_seconds p) (prompt_cache_idle_ttl_seconds r),
     gateway_safe_mode := or_keep (sp_gateway_safe_mode p) (gateway_safe_mode r),
     sticky_reallocation_budget_threshold_pct := or_keep (sp_sticky_reallocation_budget_threshold_pct p) (sticky_reallocation_budget_threshold_pct r),
     import_without_overwrite := or_keep (sp_import_without_overwrite p) (import_without_overwrite r),
     totp_required_on_login := or_keep (sp_totp_required_on_login p) (totp_required_on_login r),
     api_key_auth_enabled := or_keep (sp_api_key_auth_enabled p) (api_key_auth_enabled r)\<rparr>"

definition settings_update :: "auth_env \<Rightarrow> settings_patch \<Rightarrow> ('e, dashboard_settings, auth_world) stateful" where
  [py_eval]: "settings_update env p = sx_bind (get_or_create env) (\<lambda>r. save_row (patch_row p r))"

text \<open>The service passes every field and first refuses to require codes that are not set up.\<close>

definition service_update_settings :: "auth_env \<Rightarrow> settings_patch \<Rightarrow> (string, dashboard_settings, auth_world) stateful" where
  [py_eval]: "service_update_settings env p = sx_bind (get_or_create env) (\<lambda>current.
     if or_keep (sp_totp_required_on_login p) False \<and> totp_secret_encrypted current = None
     then sx_raise ''Configure TOTP before enabling login enforcement''
     else settings_update env p)"

definition cache_invalidate_settings :: "('e, unit, auth_world) stateful" where
  [py_eval]: "cache_invalidate_settings = sx_modify (\<lambda>w. w\<lparr>aw_cached := None\<rparr>)"

definition SETTINGS_TTL :: pyfloat where
  [py_eval]: "SETTINGS_TTL = 5"

definition cached_settings :: "auth_env \<Rightarrow> ('e, dashboard_settings, auth_world) stateful" where
  [py_eval]: "cached_settings env w = (case aw_cached w of
     Some (r, since) \<Rightarrow> if env_monotonic env - since < SETTINGS_TTL then (Inr r, w)
       else sx_bind (get_or_create env) (\<lambda>r. sx_bind (sx_modify (\<lambda>w. w\<lparr>aw_cached := Some (r, env_monotonic env)\<rparr>)) (\<lambda>u. sx_return r)) w
   | None \<Rightarrow> sx_bind (get_or_create env) (\<lambda>r. sx_bind (sx_modify (\<lambda>w. w\<lparr>aw_cached := Some (r, env_monotonic env)\<rparr>)) (\<lambda>u. sx_return r)) w)"

text \<open>The handler fills the fields of the request that are missing from the current row.\<close>

definition audit :: "string \<Rightarrow> string option \<Rightarrow> string option \<Rightarrow> ('e, unit, auth_world) stateful" where
  [py_eval]: "audit action actor method = sx_modify (\<lambda>w. w\<lparr>aw_audit := aw_audit w @ [(action, actor, method)]\<rparr>)"

definition or_current_str :: "string option \<Rightarrow> string \<Rightarrow> string" where
  [py_eval]: "or_current_str v old = (if truthy_str v then the v else old)"

definition complete_patch :: "settings_patch \<Rightarrow> dashboard_settings \<Rightarrow> settings_patch" where
  [py_eval]: "complete_patch p r = p\<lparr>
     sp_upstream_stream_transport := Some (or_current_str (sp_upstream_stream_transport p) (upstream_stream_transport r)),
     sp_routing_strategy := Some (or_current_str (sp_routing_strategy p) (routing_strategy r)),
     sp_openai_cache_affinity_max_age_seconds := Some (or_keep (sp_openai_cache_affinity_max_age_seconds p) (openai_cache_affinity_max_age_seconds r)),
     sp_prompt_cache_idle_ttl_seconds := Some (or_keep (sp_prompt_cache_idle_ttl_seconds p) (prompt_cache_idle_ttl_seconds r)),
     sp_gateway_safe_mode := Some (or_keep (sp_gateway_safe_mode p) (gateway_safe_mode r)),
     sp_sticky_reallocation_budget_threshold_pct := Some (or_keep (sp_sticky_reallocation_budget_threshold_pct p) (sticky_reallocation_budget_threshold_pct r)),
     sp_import_without_overwrite := Some (or_keep (sp_import_without_overwrite p) (import_without_overwrite r)),
     sp_totp_required_on_login := Some (or_keep (sp_totp_required_on_login p) (totp_required_on_login r)),
     sp_api_key_auth_enabled := Some (or_keep (sp_api_key_auth_enabled p) (api_key_auth_enabled r))\<rparr>"

definition update_settings_handler :: "auth_env \<Rightarrow> http_request \<Rightarrow> settings_patch \<Rightarrow> (app_error, dashboard_settings, auth_world) stateful" where
  [py_eval]: "update_settings_handler env req p = sx_bind (get_or_create env) (\<lambda>current.
     sx_bind (sx_catch (service_update_settings env (complete_patch p current))
         (\<lambda>m. sx_raise (DashboardBadRequestError m ''invalid_totp_config''))) (\<lambda>updated.
     sx_bind cache_invalidate_settings (\<lambda>u.
     sx_bind (audit ''settings_changed'' (req_client req) None) (\<lambda>u. sx_return updated))))"

section \<open>Sessions\<close>

definition SESSION_TTL_SECONDS :: int where
  [py_eval]: "SESSION_TTL_SECONDS = 12 * 60 * 60"

definition DASHBOARD_SESSION_COOKIE :: string where
  [py_eval]: "DASHBOARD_SESSION_COOKIE = ''codex_lb_dashboard_session''"

record session_state =
  ss_expires_at :: int
  ss_password_verified :: bool
  ss_totp_verified :: bool

definition session_payload :: "int \<Rightarrow> bool \<Rightarrow> bool \<Rightarrow> json" where
  [py_eval]: "session_payload expires_at pw tv = JObj [(''exp'', JInt expires_at), (''pw'', JBool pw), (''tv'', JBool tv)]"

definition session_create :: "auth_env \<Rightarrow> bool \<Rightarrow> bool \<Rightarrow> string" where
  [py_eval]: "session_create env password_verified totp_verified =
     encrypt env (dumps env (session_payload (env_time env + SESSION_TTL_SECONDS) password_verified totp_verified))"

text \<open>An \<open>int\<close> in the sense of \<open>isinstance\<close>, which counts booleans.\<close>

definition json_int :: "json \<Rightarrow> int option" where
  [py_eval]: "json_int v = (case v of JInt n \<Rightarrow> Some n | JBool b \<Rightarrow> Some (if b then 1 else 0) | _ \<Rightarrow> None)"

definition json_bool :: "json \<Rightarrow> bool option" where
  [py_eval]: "json_bool v = (case v of JBool b \<Rightarrow> Some b | _ \<Rightarrow> None)"

text \<open>A decrypted payload that is JSON but not an object has no \<open>get\<close>: the call raises.\<close>

definition session_get :: "auth_env \<Rightarrow> string option \<Rightarrow> app_error + session_state option" where
  [py_eval]: "session_get env session_id =
     (if \<not> truthy_str session_id then Inr None
      else (let token = strip (the session_id)
        in if token = [] then Inr None
           else case decrypt env token of
             None \<Rightarrow> Inr None
           | Some raw \<Rightarrow> (case loads env raw of
               None \<Rightarrow> Inr None
             | Some (JObj d) \<Rightarrow> (case (json_int (jget d ''exp''), json_bool (jget d ''pw''), json_bool (jget d ''tv'')) of
                 (Some ex, Some pw, Some tv) \<Rightarrow>
                   if ex < env_time env then Inr None
                   else Inr (Some \<lparr>ss_expires_at = ex, ss_password_verified = pw, ss_totp_verified = tv\<rparr>)
               | _ \<Rightarrow> Inr None)
             | Some _ \<Rightarrow> Inl OtherError)))"

definition read_session :: "'e \<Rightarrow> auth_env \<Rightarrow> string option \<Rightarrow> ('e, session_state option, 'w) stateful" where
  [py_eval]: "read_session uncaught env session_id w =
     (case session_get env session_id of Inl e \<Rightarrow> Inl uncaught | Inr state \<Rightarrow> Inr state, w)"

definition is_password_verified :: "auth_env \<Rightarrow> string option \<Rightarrow> app_error + bool" where
  [py_eval]: "is_password_verified env session_id = bind_sum (session_get env session_id) (\<lambda>state.
     Inr (case state of None \<Rightarrow> False | Some s \<Rightarrow> ss_password_verified s))"

definition is_totp_verified :: "auth_env \<Rightarrow> string option \<Rightarrow> app_error + bool" where
  [py_eval]: "is_totp_verified env session_id = bind_sum (session_get env session_id) (\<lambda>state.
     Inr (case state of None \<Rightarrow> False | Some s \<Rightarrow> ss_totp_verified s))"

section \<open>Time-based codes\<close>

definition upper_char :: "char \<Rightarrow> char" where
  [py_eval]: "upper_char c = (let n = (of_char c :: nat) in if 97 \<le> n \<and> n \<le> 122 then char_of (n - 32) else c)"

definition b32_char :: "char \<Rightarrow> bool" where
  [py_eval]: "b32_char c = (let n = (of_char c :: nat) in 65 \<le> n \<and> n \<le> 90 \<or> 50 \<le> n \<and> n \<le> 55)"

text \<open>Whether \<open>b32decode\<close> accepts: alphabet, and a number of padding characters that ends a byte.\<close>

definition b32_ok :: "string \<Rightarrow> bool" where
  [py_eval]: "b32_ok s = (let body = rev (dropWhile (\<lambda>c. c = CHR ''='') (rev s))
     in length s mod 8 = 0 \<and> List.list_all b32_char body \<and> length s - length body \<in> {0, 1, 3, 4, 6})"

definition normalize_secret :: "string \<Rightarrow> py_error + string" where
  [py_eval]: "normalize_secret secret =
     (let compact = map upper_char (filter (\<lambda>c. \<not> is_space c) secret);
          padding = replicate ((8 - length compact mod 8) mod 8) CHR ''=''
      in if compact = [] then Inl ValueError
         else if \<not> b32_ok (compact @ padding) then Inl ValueError else Inr compact)"

definition normalize_code :: "string \<Rightarrow> string" where
  [py_eval]: "normalize_code code = filter is_digit code"

definition TOTP_PERIOD_SECONDS :: int where
  [py_eval]: "TOTP_PERIOD_SECONDS = 30"

definition TOTP_DIGITS :: nat where
  [py_eval]: "TOTP_DIGITS = 6"

definition time_step :: "int \<Rightarrow> int" where
  [py_eval]: "time_step now_epoch = now_epoch div 30"

text \<open>The steps of the window the loop tries, and the first that matches.\<close>

definition matching_step :: "(int \<Rightarrow> string) \<Rightarrow> string \<Rightarrow> int option \<Rightarrow> int list \<Rightarrow> int option" where
  [py_eval]: "matching_step at_epoch code last_verified_step steps = find (\<lambda>step.
     \<not> (case last_verified_step of None \<Rightarrow> False | Some l \<Rightarrow> step \<le> l) \<and> at_epoch (step * TOTP_PERIOD_SECONDS) = code) steps"

definition verify_totp_code :: "(string \<Rightarrow> int \<Rightarrow> string) \<Rightarrow> string \<Rightarrow> string \<Rightarrow> int \<Rightarrow> int \<Rightarrow> int option \<Rightarrow> py_error + int option" where
  [py_eval]: "verify_totp_code totp secret code window now_epoch last_verified_step =
     (if window < 0 then Inl ValueError
      else bind_sum (normalize_secret secret) (\<lambda>normalized_secret.
        let normalized_code = normalize_code code
        in if length normalized_code \<noteq> TOTP_DIGITS then Inr None
           else Inr (matching_step (totp normalized_secret) normalized_code last_verified_step
             (map (\<lambda>offset. time_step now_epoch + offset) [- window..window]))))"

section \<open>The repository\<close>

definition set_totp_secret :: "auth_env \<Rightarrow> string option \<Rightarrow> ('e, dashboard_settings, auth_world) stateful" where
  [py_eval]: "set_totp_secret env secret = sx_bind (get_or_create env) (\<lambda>r. save_row (r\<lparr>totp_secret_encrypted := secret,
     totp_last_verified_step := None, totp_required_on_login := (if secret = None then False else totp_required_on_login r)\<rparr>))"

definition set_password_hash :: "auth_env \<Rightarrow> string \<Rightarrow> ('e, dashboard_settings, auth_world) stateful" where
  [py_eval]: "set_password_hash env h = sx_bind (get_or_create env) (\<lambda>r.
     save_row (r\<lparr>password_hash := Some h, bootstrap_token_encrypted := None, bootstrap_token_hash := None\<rparr>))"

text \<open>An \<open>UPDATE ... WHERE ... RETURNING\<close> on the row: whether it matched.\<close>

definition update_where :: "auth_env \<Rightarrow> (dashboard_settings \<Rightarrow> bool) \<Rightarrow> (dashboard_settings \<Rightarrow> dashboard_settings)
    \<Rightarrow> ('e, bool, auth_world) stateful" where
  [py_eval]: "update_where env P f = sx_bind (get_or_create env) (\<lambda>r.
     if P r then sx_bind (save_row (f r)) (\<lambda>u. sx_return True) else sx_return False)"

definition try_set_password_hash :: "auth_env \<Rightarrow> string \<Rightarrow> ('e, bool, auth_world) stateful" where
  [py_eval]: "try_set_password_hash env h = update_where env (\<lambda>r. password_hash r = None)
     (\<lambda>r. r\<lparr>password_hash := Some h, bootstrap_token_encrypted := None, bootstrap_token_hash := None\<rparr>)"

definition get_password_hash :: "auth_env \<Rightarrow> ('e, string option, auth_world) stateful" where
  [py_eval]: "get_password_hash env = sx_bind (get_or_create env) (\<lambda>r. sx_return (password_hash r))"

definition clear_password_and_totp :: "auth_env \<Rightarrow> ('e, dashboard_settings, auth_world) stateful" where
  [py_eval]: "clear_password_and_totp env = sx_bind (get_or_create env) (\<lambda>r. save_row (r\<lparr>password_hash := None,
     bootstrap_token_encrypted := None, bootstrap_token_hash := None, totp_required_on_login := False,
     totp_secret_encrypted := None, totp_last_verified_step := None\<rparr>))"

definition store_bootstrap_token_if_absent :: "auth_env \<Rightarrow> string \<Rightarrow> string \<Rightarrow> ('e, bool, auth_world) stateful" where
  [py_eval]: "store_bootstrap_token_if_absent env token h =
     update_where env (\<lambda>r. password_hash r = None \<and> bootstrap_token_hash r = None)
       (\<lambda>r. r\<lparr>bootstrap_token_encrypted := Some token, bootstrap_token_hash := Some h\<rparr>)"

definition clear_bootstrap_token :: "auth_env \<Rightarrow> ('e, bool, auth_world) stateful" where
  [py_eval]: "clear_bootstrap_token env = update_where env (\<lambda>r. bootstrap_token_hash r \<noteq> None)
     (\<lambda>r. r\<lparr>bootstrap_token_encrypted := None, bootstrap_token_hash := None\<rparr>)"

definition try_advance_totp_last_verified_step :: "auth_env \<Rightarrow> int \<Rightarrow> ('e, bool, auth_world) stateful" where
  [py_eval]: "try_advance_totp_last_verified_step env step =
     update_where env (\<lambda>r. case totp_last_verified_step r of None \<Rightarrow> True | Some l \<Rightarrow> l < step)
       (\<lambda>r. r\<lparr>totp_last_verified_step := Some step\<rparr>)"

section \<open>Bootstrap tokens\<close>

definition manual_bootstrap_token :: "auth_env \<Rightarrow> string option" where
  [py_eval]: "manual_bootstrap_token env = (let manual = strip (case env_bootstrap_token env of None \<Rightarrow> [] | Some t \<Rightarrow> t)
     in if manual = [] then None else Some manual)"

definition has_active_bootstrap_token :: "auth_env \<Rightarrow> ('e, bool, auth_world) stateful" where
  [py_eval]: "has_active_bootstrap_token env = (if manual_bootstrap_token env \<noteq> None then sx_return True
     else sx_bind (get_or_create env) (\<lambda>r. sx_return (password_hash r = None \<and> bootstrap_token_hash r \<noteq> None)))"

definition validate_bootstrap_token :: "auth_env \<Rightarrow> string \<Rightarrow> ('e, bool, auth_world) stateful" where
  [py_eval]: "validate_bootstrap_token env submitted = (case manual_bootstrap_token env of
     Some manual \<Rightarrow> sx_return (submitted = manual)
   | None \<Rightarrow> sx_bind (get_or_create env) (\<lambda>r.
       if password_hash r \<noteq> None \<or> bootstrap_token_hash r = None then sx_return False
       else sx_return (Some (sha256_digest env submitted) = bootstrap_token_hash r)))"

definition get_bootstrap_validation_status :: "auth_env \<Rightarrow> string \<Rightarrow> ('e, string, auth_world) stateful" where
  [py_eval]: "get_bootstrap_validation_status env submitted = (case manual_bootstrap_token env of
     Some manual \<Rightarrow> sx_return (if submitted = manual then ''valid'' else ''invalid'')
   | None \<Rightarrow> sx_bind (get_or_create env) (\<lambda>r.
       if bootstrap_token_hash r = None
       then sx_return (if password_hash r \<noteq> None then ''password_already_configured'' else ''unavailable'')
       else if Some (sha256_digest env submitted) = bootstrap_token_hash r then sx_return ''valid''
       else if password_hash r \<noteq> None then sx_return ''password_already_configured''
       else sx_return ''invalid''))"

definition ensure_auto_bootstrap_token :: "auth_env \<Rightarrow> ('e, string option, auth_world) stateful" where
  [py_eval]: "ensure_auto_bootstrap_token env = sx_bind (get_or_create env) (\<lambda>r.
     if manual_bootstrap_token env \<noteq> None \<or> password_hash r \<noteq> None then
       (if bootstrap_token_hash r \<noteq> None
        then sx_bind (clear_bootstrap_token env) (\<lambda>u. sx_bind cache_invalidate_settings (\<lambda>u. sx_return None))
        else sx_return None)
     else if bootstrap_token_hash r \<noteq> None then
       sx_return (case bootstrap_token_encrypted r of None \<Rightarrow> None | Some encrypted \<Rightarrow> decrypt env encrypted)
     else sx_bind (store_bootstrap_token_if_absent env (encrypt env (random_token env)) (sha256_digest env (random_token env))) (\<lambda>stored.
       sx_bind cache_invalidate_settings (\<lambda>u. sx_return (if stored then Some (random_token env) else None))))"

definition clear_auto_generated_token :: "auth_env \<Rightarrow> ('e, unit, auth_world) stateful" where
  [py_eval]: "clear_auto_generated_token env = sx_bind (clear_bootstrap_token env) (\<lambda>cleared.
     if cleared then cache_invalidate_settings else sx_return ())"

section \<open>The service\<close>

datatype auth_error =
    TotpAlreadyConfiguredError string
  | TotpNotConfiguredError string
  | TotpInvalidCodeError string
  | TotpInvalidSetupError string
  | PasswordAlreadyConfiguredError string
  | PasswordNotConfiguredError string
  | InvalidCredentialsError string
  | PasswordSessionRequiredError string
  | Uncaught

record session_response =
  sr_authenticated :: bool
  sr_password_required :: bool
  sr_totp_required_on_login :: bool
  sr_totp_configured :: bool
  sr_bootstrap_required :: bool
  sr_bootstrap_token_configured :: bool
  sr_auth_mode :: dashboard_auth_mode
  sr_password_management_enabled :: bool
  sr_password_session_active :: bool

definition get_session_state :: "auth_env \<Rightarrow> string option \<Rightarrow> (app_error, session_response, auth_world) stateful" where
  [py_eval]: "get_session_state env session_id = sx_bind (get_or_create env) (\<lambda>settings.
     let password_required = (password_hash settings \<noteq> None);
         totp_required = (password_required \<and> totp_required_on_login settings)
     in sx_bind (if password_required then read_session OtherError env session_id else sx_return None) (\<lambda>state.
       let password_authenticated = (case state of None \<Rightarrow> False | Some s \<Rightarrow> ss_password_verified s);
           authenticated = (if \<not> password_required then True
             else if totp_required then (case state of None \<Rightarrow> False | Some s \<Rightarrow> ss_password_verified s \<and> ss_totp_verified s)
             else password_authenticated)
       in sx_return \<lparr>sr_authenticated = authenticated, sr_password_required = password_required,
            sr_totp_required_on_login = (totp_required \<and> password_authenticated),
            sr_totp_configured = (totp_secret_encrypted settings \<noteq> None), sr_bootstrap_required = False,
            sr_bootstrap_token_configured = False, sr_auth_mode = STANDARD, sr_password_management_enabled = True,
            sr_password_session_active = False\<rparr>))"

definition check_password :: "auth_env \<Rightarrow> string \<Rightarrow> string \<Rightarrow> bool" where
  [py_eval]: "check_password env password h = (case checkpw env password h of None \<Rightarrow> False | Some b \<Rightarrow> b)"

definition setup_password :: "auth_env \<Rightarrow> string \<Rightarrow> (auth_error, unit, auth_world) stateful" where
  [py_eval]: "setup_password env password = sx_bind (try_set_password_hash env (hashpw env password)) (\<lambda>setup_ok.
     if setup_ok then sx_return () else sx_raise (PasswordAlreadyConfiguredError ''Password is already configured''))"

definition verify_password :: "auth_env \<Rightarrow> string \<Rightarrow> string option \<Rightarrow> (auth_error, unit, auth_world) stateful" where
  [py_eval]: "verify_password env password actor_ip = sx_bind (get_password_hash env) (\<lambda>current. case current of
     None \<Rightarrow> sx_raise (PasswordNotConfiguredError ''Password is not configured'')
   | Some h \<Rightarrow>
       if \<not> check_password env password h
       then sx_bind (audit ''login_failed'' actor_ip (Some ''password'')) (\<lambda>u. sx_raise (InvalidCredentialsError ''Invalid credentials''))
       else sx_bind (get_or_create env) (\<lambda>settings.
         if \<not> totp_required_on_login settings \<or> totp_secret_encrypted settings = None
         then audit ''login_success'' actor_ip (Some ''password'') else sx_return ()))"

definition change_password :: "auth_env \<Rightarrow> string \<Rightarrow> string \<Rightarrow> (auth_error, unit, auth_world) stateful" where
  [py_eval]: "change_password env current_password new_password = sx_bind (verify_password env current_password None) (\<lambda>u.
     sx_bind (set_password_hash env (hashpw env new_password)) (\<lambda>r. sx_return ()))"

definition remove_password :: "auth_env \<Rightarrow> string \<Rightarrow> (auth_error, unit, auth_world) stateful" where
  [py_eval]: "remove_password env password = sx_bind (verify_password env password None) (\<lambda>u.
     sx_bind (clear_password_and_totp env) (\<lambda>r. sx_return ()))"

definition require_active_password_session :: "auth_env \<Rightarrow> string option \<Rightarrow> (auth_error, dashboard_settings, auth_world) stateful" where
  [py_eval]: "require_active_password_session env session_id = sx_bind (get_or_create env) (\<lambda>settings.
     if password_hash settings = None then sx_raise (PasswordSessionRequiredError ''Password-authenticated session is required'')
     else sx_bind (read_session Uncaught env session_id) (\<lambda>session. case session of
       None \<Rightarrow> sx_raise (PasswordSessionRequiredError ''Password-authenticated session is required'')
     | Some s \<Rightarrow> if \<not> ss_password_verified s then sx_raise (PasswordSessionRequiredError ''Password-authenticated session is required'')
         else sx_return settings))"

definition require_totp_verified_session :: "auth_env \<Rightarrow> string option \<Rightarrow> (auth_error, dashboard_settings, auth_world) stateful" where
  [py_eval]: "require_totp_verified_session env session_id = sx_bind (require_active_password_session env session_id) (\<lambda>settings.
     sx_bind (read_session Uncaught env session_id) (\<lambda>session. case session of
       None \<Rightarrow> sx_raise (PasswordSessionRequiredError ''TOTP-verified session is required'')
     | Some s \<Rightarrow> if \<not> ss_totp_verified s then sx_raise (PasswordSessionRequiredError ''TOTP-verified session is required'')
         else sx_return settings))"

text \<open>\<open>secret\<close> is the generated secret; the URI and the picture made of it are left out.\<close>

definition start_totp_setup :: "auth_env \<Rightarrow> string \<Rightarrow> string option \<Rightarrow> (auth_error, string, auth_world) stateful" where
  [py_eval]: "start_totp_setup env secret session_id = sx_bind (require_active_password_session env session_id) (\<lambda>settings.
     if totp_secret_encrypted settings \<noteq> None
     then sx_raise (TotpAlreadyConfiguredError ''TOTP is already configured. Disable it before setting a new secret'')
     else sx_return secret)"

definition confirm_totp_setup :: "auth_env \<Rightarrow> string option \<Rightarrow> string \<Rightarrow> string \<Rightarrow> string option \<Rightarrow> (auth_error, unit, auth_world) stateful" where
  [py_eval]: "confirm_totp_setup env session_id secret code actor_ip = sx_bind (require_active_password_session env session_id) (\<lambda>current.
     if totp_secret_encrypted current \<noteq> None
     then sx_raise (TotpAlreadyConfiguredError ''TOTP is already configured. Disable it before setting a new secret'')
     else case verify_totp_code (totp_at env) secret code 1 (env_time env) None of
       Inl e \<Rightarrow> sx_raise (TotpInvalidSetupError ''Invalid TOTP setup payload'')
     | Inr None \<Rightarrow> sx_raise (TotpInvalidCodeError ''Invalid TOTP code'')
     | Inr (Some step) \<Rightarrow> sx_bind (set_totp_secret env (Some (encrypt env secret))) (\<lambda>r. audit ''totp_enabled'' actor_ip None))"

text \<open>The common part of \<open>verify_totp\<close> and \<open>disable_totp\<close> before the commit: the step the code belongs to.\<close>

definition check_totp :: "auth_env \<Rightarrow> dashboard_settings \<Rightarrow> string \<Rightarrow> auth_error + int option" where
  [py_eval]: "check_totp env settings code = (case totp_secret_encrypted settings of
     None \<Rightarrow> Inl (TotpNotConfiguredError ''TOTP is not configured'')
   | Some secret_encrypted \<Rightarrow> (case decrypt env secret_encrypted of
       None \<Rightarrow> Inl Uncaught
     | Some secret \<Rightarrow> (case verify_totp_code (totp_at env) secret code 1 (env_time env) (totp_last_verified_step settings) of
         Inl e \<Rightarrow> Inl Uncaught
       | Inr matched \<Rightarrow> Inr matched)))"

definition verify_totp :: "auth_env \<Rightarrow> string option \<Rightarrow> string \<Rightarrow> string option \<Rightarrow> (auth_error, string, auth_world) stateful" where
  [py_eval]: "verify_totp env session_id code actor_ip = sx_bind (require_active_password_session env session_id) (\<lambda>settings.
     case check_totp env settings code of
       Inl e \<Rightarrow> sx_raise e
     | Inr None \<Rightarrow> sx_bind (audit ''login_failed'' actor_ip (Some ''totp'')) (\<lambda>u. sx_raise (TotpInvalidCodeError ''Invalid TOTP code''))
     | Inr (Some step) \<Rightarrow> sx_bind (try_advance_totp_last_verified_step env step) (\<lambda>updated.
         if \<not> updated
         then sx_bind (audit ''login_failed'' actor_ip (Some ''totp'')) (\<lambda>u. sx_raise (TotpInvalidCodeError ''Invalid TOTP code''))
         else sx_bind (audit ''login_success'' actor_ip (Some ''totp'')) (\<lambda>u. sx_return (session_create env True True))))"

definition disable_totp :: "auth_env \<Rightarrow> string option \<Rightarrow> string \<Rightarrow> string option \<Rightarrow> (auth_error, unit, auth_world) stateful" where
  [py_eval]: "disable_totp env session_id code actor_ip = sx_bind (require_totp_verified_session env session_id) (\<lambda>settings.
     case check_totp env settings code of
       Inl e \<Rightarrow> sx_raise e
     | Inr None \<Rightarrow> sx_raise (TotpInvalidCodeError ''Invalid TOTP code'')
     | Inr (Some step) \<Rightarrow> sx_bind (try_advance_totp_last_verified_step env step) (\<lambda>updated.
         if \<not> updated then sx_raise (TotpInvalidCodeError ''Invalid TOTP code'')
         else sx_bind (set_totp_secret env None) (\<lambda>r. audit ''totp_disabled'' actor_ip None)))"

section \<open>The handlers\<close>

definition totp_rate_limiter :: rate_limiter where
  [py_eval]: "totp_rate_limiter = \<lparr>max_attempts = 8, rl_window_seconds = 60, rl_type = ''totp''\<rparr>"

definition password_rate_limiter :: rate_limiter where
  [py_eval]: "password_rate_limiter = \<lparr>max_attempts = 8, rl_window_seconds = 60, rl_type = ''password''\<rparr>"

definition session_client_key :: "http_request \<Rightarrow> string \<Rightarrow> string" where
  [py_eval]: "session_client_key req pre = pre @ '':'' @ (case req_client req of None \<Rightarrow> ''unknown'' | Some h \<Rightarrow> h)"

definition session_cookie :: "http_request \<Rightarrow> string option" where
  [py_eval]: "session_cookie req = map_of (req_cookies req) DASHBOARD_SESSION_COOKIE"

definition request_auth :: "auth_env \<Rightarrow> http_request \<Rightarrow> (app_error, dashboard_request_auth option, 'w) stateful" where
  [py_eval]: "request_auth env req w = (case get_dashboard_request_auth (env_settings env) req of Inl e \<Rightarrow> Inl OtherError | Inr a \<Rightarrow> Inr a, w)"

definition local_request :: "auth_env \<Rightarrow> http_request \<Rightarrow> (app_error, bool, 'w) stateful" where
  [py_eval]: "local_request env req w = (case is_local_request (env_settings env) req of Inl e \<Rightarrow> Inl OtherError | Inr b \<Rightarrow> Inr b, w)"

text \<open>Counting an attempt: the error carries the hint and the code of the handler.\<close>

definition count_attempt :: "auth_env \<Rightarrow> rate_limiter \<Rightarrow> string \<Rightarrow> string \<Rightarrow> (app_error, unit, auth_world) stateful" where
  [py_eval]: "count_attempt env l key code w = (case check_and_increment l (env_utcnow env) key (aw_attempts w) of
     (Inl e, t) \<Rightarrow> (Inl (app_error.DashboardRateLimitError
        (''Too many attempts. Try again in '' @ show_int (retry_after e) @ '' seconds.'') code (retry_after e)), w\<lparr>aw_attempts := t\<rparr>)
   | (Inr u, t) \<Rightarrow> (Inr (), w\<lparr>aw_attempts := t\<rparr>))"

definition clear_attempts :: "rate_limiter \<Rightarrow> string \<Rightarrow> ('e, unit, auth_world) stateful" where
  [py_eval]: "clear_attempts l key = sx_modify (\<lambda>w. w\<lparr>aw_attempts := clear_for_key l key (aw_attempts w)\<rparr>)"

definition decorate_session_response :: "auth_env \<Rightarrow> http_request \<Rightarrow> bool \<Rightarrow> string option \<Rightarrow> session_response
    \<Rightarrow> (app_error, session_response, 'w) stateful" where
  [py_eval]: "decorate_session_response env req force_authenticated password_session_id response =
     sx_bind (request_auth env req) (\<lambda>auth.
       let auth_mode = dashboard_auth_mode (env_settings env);
           sid = (if truthy_str password_session_id then password_session_id else session_cookie req)
       in sx_bind (if truthy_str sid then read_session OtherError env sid else sx_return None) (\<lambda>session_state.
         let has_pwd = (case session_state of None \<Rightarrow> False | Some s \<Rightarrow> ss_password_verified s);
             totp_pending = (has_pwd \<and> sr_totp_required_on_login response \<and> (case session_state of None \<Rightarrow> False | Some s \<Rightarrow> \<not> ss_totp_verified s));
             fully_authorized = (has_pwd \<and> \<not> totp_pending \<and> sr_password_required response)
         in case auth of
              None \<Rightarrow> sx_return (response\<lparr>sr_auth_mode := auth_mode,
                sr_password_management_enabled := password_management_enabled auth_mode, sr_password_session_active := fully_authorized,
                sr_authenticated := (if auth_mode = TRUSTED_HEADER \<and> \<not> sr_password_required response \<and> \<not> sr_totp_required_on_login response
                  then False else sr_authenticated response)\<rparr>)
            | Some a \<Rightarrow> sx_return (response\<lparr>sr_authenticated := (force_authenticated \<or> sr_authenticated response),
                sr_totp_required_on_login := totp_pending, sr_auth_mode := dra_mode a,
                sr_password_management_enabled := password_management_enabled (dra_mode a), sr_password_session_active := fully_authorized\<rparr>)))"

text \<open>The check in front of every dashboard route.\<close>

definition validate_dashboard_session :: "auth_env \<Rightarrow> http_request \<Rightarrow> (app_error, unit, auth_world) stateful" where
  [py_eval]: "validate_dashboard_session env req = sx_bind (request_auth env req) (\<lambda>auth.
     if auth \<noteq> None then sx_return ()
     else sx_bind (cached_settings env) (\<lambda>settings.
       let password_required = truthy_str (password_hash settings);
           requires_auth = (password_required \<or> totp_required_on_login settings)
       in if dashboard_auth_mode (env_settings env) = TRUSTED_HEADER \<and> \<not> requires_auth
          then sx_raise (DashboardAuthError ''Reverse proxy authentication is required'' ''proxy_auth_required'')
          else if \<not> requires_auth then sx_bind (local_request env req) (\<lambda>local.
            if \<not> local then sx_raise (DashboardAuthError ''Remote bootstrap is required before dashboard access is allowed'' ''bootstrap_required'')
            else sx_return ())
          else sx_bind (read_session OtherError env (session_cookie req)) (\<lambda>state. case state of
            None \<Rightarrow> sx_raise (DashboardAuthError ''Authentication is required'' ''authentication_required'')
          | Some s \<Rightarrow>
              if password_required \<and> \<not> ss_password_verified s
              then sx_raise (DashboardAuthError ''Authentication is required'' ''authentication_required'')
              else if totp_required_on_login settings \<and> \<not> ss_totp_verified s
              then sx_raise (DashboardAuthError ''TOTP verification is required for dashboard access'' ''totp_required'')
              else sx_return ())))"

definition ensure_password_management_enabled :: "auth_env \<Rightarrow> http_request \<Rightarrow> (app_error, unit, 'w) stateful" where
  [py_eval]: "ensure_password_management_enabled env req = sx_bind (request_auth env req) (\<lambda>auth. case auth of
     None \<Rightarrow> sx_return ()
   | Some a \<Rightarrow> if \<not> password_management_enabled (dra_mode a)
       then sx_raise (DashboardBadRequestError ''Password and TOTP management is disabled while dashboard auth is bypassed'' ''password_management_disabled'')
       else sx_return ())"

definition validate_password_management_session :: "auth_env \<Rightarrow> http_request \<Rightarrow> (app_error, unit, auth_world) stateful" where
  [py_eval]: "validate_password_management_session env req = sx_bind (ensure_password_management_enabled env req) (\<lambda>u.
     sx_bind (read_session OtherError env (session_cookie req)) (\<lambda>state. case state of
       None \<Rightarrow> sx_raise (DashboardAuthError ''Authentication is required'' ''authentication_required'')
     | Some s \<Rightarrow> if \<not> ss_password_verified s then sx_raise (DashboardAuthError ''Authentication is required'' ''authentication_required'')
         else sx_bind (cached_settings env) (\<lambda>settings.
           if totp_required_on_login settings \<and> \<not> ss_totp_verified s
           then sx_raise (DashboardAuthError ''TOTP verification is required for dashboard access'' ''totp_required'')
           else sx_return ())))"

definition has_active_password_session :: "auth_env \<Rightarrow> http_request \<Rightarrow> (app_error, bool, auth_world) stateful" where
  [py_eval]: "has_active_password_session env req = sx_bind (get_or_create env) (\<lambda>settings.
     if password_hash settings = None then sx_return False
     else (\<lambda>w. (case is_password_verified env (session_cookie req) of Inl e \<Rightarrow> Inl OtherError | Inr b \<Rightarrow> Inr b, w)))"

definition dashboard_auth_session :: "auth_env \<Rightarrow> http_request \<Rightarrow> (app_error, session_response, auth_world) stateful" where
  [py_eval]: "dashboard_auth_session env req = sx_bind (get_session_state env (session_cookie req)) (\<lambda>response.
     sx_bind (decorate_session_response env req True None response) (\<lambda>decorated.
       if sr_auth_mode decorated \<noteq> STANDARD then sx_return decorated
       else sx_bind (if sr_password_required decorated then sx_return True else local_request env req) (\<lambda>trusted.
         if trusted then sx_return decorated
         else sx_bind (has_active_bootstrap_token env) (\<lambda>configured.
           sx_return (decorated\<lparr>sr_authenticated := False, sr_bootstrap_required := True, sr_bootstrap_token_configured := configured\<rparr>)))))"

text \<open>The response with the session cookie it sets.\<close>

definition session_reply :: "auth_env \<Rightarrow> http_request \<Rightarrow> string \<Rightarrow> (app_error, session_response \<times> string, auth_world) stateful" where
  [py_eval]: "session_reply env req session_id = sx_bind (get_session_state env (Some session_id)) (\<lambda>state.
     sx_bind (decorate_session_response env req False (Some session_id) state) (\<lambda>response. sx_return (response, session_id)))"

definition bootstrap_gate :: "auth_env \<Rightarrow> string option \<Rightarrow> (app_error, unit, auth_world) stateful" where
  [py_eval]: "bootstrap_gate env token = sx_bind (get_bootstrap_validation_status env (strip (case token of None \<Rightarrow> [] | Some t \<Rightarrow> t))) (\<lambda>status.
     if status = ''unavailable''
     then sx_raise (DashboardAuthError ''Remote bootstrap is disabled until CODEX_LB_DASHBOARD_BOOTSTRAP_TOKEN is configured.'' ''bootstrap_unavailable'')
     else if status = ''password_already_configured''
     then sx_raise (DashboardConflictError ''Password is already configured'' ''password_already_configured'')
     else if status \<noteq> ''valid'' then sx_raise (DashboardAuthError ''Invalid dashboard bootstrap token.'' ''invalid_bootstrap_token'')
     else sx_return ())"

definition setup_password_handler :: "auth_env \<Rightarrow> http_request \<Rightarrow> string \<Rightarrow> string option
    \<Rightarrow> (app_error, session_response \<times> string, auth_world) stateful" where
  [py_eval]: "setup_password_handler env req password token = sx_bind (request_auth env req) (\<lambda>auth.
     sx_bind (get_or_create env) (\<lambda>current.
       let mode = dashboard_auth_mode (env_settings env) in
       if mode = DISABLED
       then sx_raise (DashboardBadRequestError ''Password management is disabled while dashboard auth is bypassed'' ''password_management_disabled'')
       else if mode = TRUSTED_HEADER \<and> auth = None \<and> password_hash current = None
       then sx_raise (DashboardAuthError ''Reverse proxy authentication is required'' ''proxy_auth_required'')
       else sx_bind (if password_hash current = None \<and> mode \<noteq> TRUSTED_HEADER then local_request env req else sx_return True) (\<lambda>exempt.
         sx_bind (if exempt then sx_return () else bootstrap_gate env token) (\<lambda>u.
           let password = strip password in
           if length password < 8 then sx_raise (DashboardValidationError ''Password must be at least 8 characters'' ''validation_error'')
           else sx_bind (sx_catch (setup_password env password) (\<lambda>e. sx_raise (case e of
               PasswordAlreadyConfiguredError m \<Rightarrow> DashboardConflictError m ''password_already_configured'' | _ \<Rightarrow> OtherError))) (\<lambda>u.
             sx_bind cache_invalidate_settings (\<lambda>u. session_reply env req (session_create env True False)))))))"

definition login_password :: "auth_env \<Rightarrow> http_request \<Rightarrow> string \<Rightarrow> (app_error, session_response \<times> string, auth_world) stateful" where
  [py_eval]: "login_password env req password =
     (if dashboard_auth_mode (env_settings env) = DISABLED
      then sx_raise (DashboardBadRequestError ''Password login is disabled while dashboard auth is bypassed'' ''password_management_disabled'')
      else sx_bind (cached_settings env) (\<lambda>settings.
        if password_hash settings = None then sx_raise (DashboardBadRequestError ''Password is not configured'' ''password_not_configured'')
        else (let key = session_client_key req ''password_login'' in
          sx_bind (count_attempt env password_rate_limiter key ''password_rate_limited'') (\<lambda>u.
          sx_bind (sx_catch (verify_password env password (req_client req)) (\<lambda>e. case e of
              InvalidCredentialsError m \<Rightarrow> sx_raise (DashboardAuthError m ''invalid_credentials'')
            | PasswordNotConfiguredError m \<Rightarrow> sx_bind (clear_attempts password_rate_limiter key) (\<lambda>u.
                sx_raise (DashboardBadRequestError m ''password_not_configured''))
            | _ \<Rightarrow> sx_raise OtherError)) (\<lambda>u.
          sx_bind (clear_attempts password_rate_limiter key) (\<lambda>u. session_reply env req (session_create env True False)))))))"

definition password_change_error :: "auth_error \<Rightarrow> app_error" where
  [py_eval]: "password_change_error e = (case e of
     PasswordNotConfiguredError m \<Rightarrow> DashboardBadRequestError m ''password_not_configured''
   | InvalidCredentialsError m \<Rightarrow> DashboardAuthError m ''invalid_credentials''
   | _ \<Rightarrow> OtherError)"

definition change_password_handler :: "auth_env \<Rightarrow> http_request \<Rightarrow> string \<Rightarrow> string \<Rightarrow> (app_error, unit, auth_world) stateful" where
  [py_eval]: "change_password_handler env req current_password new_password = sx_bind (validate_password_management_session env req) (\<lambda>u.
     let new_password = strip new_password in
     if length new_password < 8 then sx_raise (DashboardValidationError ''Password must be at least 8 characters'' ''validation_error'')
     else sx_bind (sx_catch (change_password env current_password new_password) (\<lambda>e. sx_raise (password_change_error e))) (\<lambda>u.
       cache_invalidate_settings))"

definition remove_password_handler :: "auth_env \<Rightarrow> http_request \<Rightarrow> string \<Rightarrow> (app_error, unit, auth_world) stateful" where
  [py_eval]: "remove_password_handler env req password = sx_bind (validate_password_management_session env req) (\<lambda>u.
     sx_bind (sx_catch (remove_password env password) (\<lambda>e. sx_raise (password_change_error e))) (\<lambda>u.
       sx_bind cache_invalidate_settings (\<lambda>u. sx_bind (ensure_auto_bootstrap_token env) (\<lambda>token. sx_return ()))))"

definition totp_error :: "auth_error \<Rightarrow> app_error" where
  [py_eval]: "totp_error e = (case e of
     PasswordSessionRequiredError m \<Rightarrow> DashboardAuthError m ''authentication_required''
   | TotpInvalidCodeError m \<Rightarrow> DashboardBadRequestError m ''invalid_totp_code''
   | TotpNotConfiguredError m \<Rightarrow> DashboardBadRequestError m ''invalid_totp_code''
   | _ \<Rightarrow> OtherError)"

definition totp_setup_error :: "auth_error \<Rightarrow> app_error" where
  [py_eval]: "totp_setup_error e = (case e of
     PasswordSessionRequiredError m \<Rightarrow> DashboardAuthError m ''authentication_required''
   | TotpInvalidCodeError m \<Rightarrow> DashboardBadRequestError m ''invalid_totp_code''
   | TotpInvalidSetupError m \<Rightarrow> DashboardBadRequestError m ''invalid_totp_setup''
   | TotpAlreadyConfiguredError m \<Rightarrow> DashboardBadRequestError m ''invalid_totp_setup''
   | _ \<Rightarrow> OtherError)"

definition start_totp_setup_handler :: "auth_env \<Rightarrow> string \<Rightarrow> http_request \<Rightarrow> (app_error, string, auth_world) stateful" where
  [py_eval]: "start_totp_setup_handler env secret req = sx_bind (ensure_password_management_enabled env req) (\<lambda>u.
     sx_bind (has_active_password_session env req) (\<lambda>active.
       if \<not> active then sx_raise (DashboardAuthError ''Authentication is required'' ''authentication_required'')
       else sx_catch (start_totp_setup env secret (session_cookie req)) (\<lambda>e. sx_raise (totp_setup_error e))))"

definition confirm_totp_setup_handler :: "auth_env \<Rightarrow> http_request \<Rightarrow> string \<Rightarrow> string \<Rightarrow> (app_error, unit, auth_world) stateful" where
  [py_eval]: "confirm_totp_setup_handler env req secret code = sx_bind (ensure_password_management_enabled env req) (\<lambda>u.
     sx_bind (has_active_password_session env req) (\<lambda>active.
       if \<not> active then sx_raise (DashboardAuthError ''Authentication is required'' ''authentication_required'')
       else (let key = session_client_key req ''totp_setup_confirm'' in
         sx_bind (count_attempt env totp_rate_limiter key ''totp_rate_limited'') (\<lambda>u.
         sx_bind (sx_catch (confirm_totp_setup env (session_cookie req) secret code (req_client req)) (\<lambda>e. sx_raise (totp_setup_error e))) (\<lambda>u.
         sx_bind (clear_attempts totp_rate_limiter key) (\<lambda>u. cache_invalidate_settings))))))"

definition verify_totp_handler :: "auth_env \<Rightarrow> http_request \<Rightarrow> string \<Rightarrow> (app_error, session_response \<times> string, auth_world) stateful" where
  [py_eval]: "verify_totp_handler env req code = sx_bind (ensure_password_management_enabled env req) (\<lambda>u.
     let key = session_client_key req ''totp_verify'' in
     sx_bind (sx_catch (require_active_password_session env (session_cookie req)) (\<lambda>e. sx_raise (totp_error e))) (\<lambda>s.
     sx_bind (count_attempt env totp_rate_limiter key ''totp_rate_limited'') (\<lambda>u.
     sx_bind (sx_catch (verify_totp env (session_cookie req) code (req_client req)) (\<lambda>e. sx_raise (totp_error e))) (\<lambda>session_id.
     sx_bind (clear_attempts totp_rate_limiter key) (\<lambda>u. session_reply env req session_id)))))"

definition disable_totp_handler :: "auth_env \<Rightarrow> http_request \<Rightarrow> string \<Rightarrow> (app_error, unit, auth_world) stateful" where
  [py_eval]: "disable_totp_handler env req code = sx_bind (ensure_password_management_enabled env req) (\<lambda>u.
     let key = session_client_key req ''totp_disable'' in
     sx_bind (sx_catch (require_totp_verified_session env (session_cookie req)) (\<lambda>e. sx_raise (totp_error e))) (\<lambda>s.
     sx_bind (count_attempt env totp_rate_limiter key ''totp_rate_limited'') (\<lambda>u.
     sx_bind (sx_catch (disable_totp env (session_cookie req) code (req_client req)) (\<lambda>e. sx_raise (totp_error e))) (\<lambda>u.
     sx_bind (clear_attempts totp_rate_limiter key) (\<lambda>u. cache_invalidate_settings)))))"

section \<open>What a session opens\<close>

text \<open>
  What the code relies on of Fernet and JSON: a sealed session payload is read back, and a token is a
  non-empty string without surrounding blanks.
\<close>

definition token_codec :: "auth_env \<Rightarrow> bool" where
  "token_codec env \<longleftrightarrow> (\<forall>s. decrypt env (encrypt env s) = Some s \<and> encrypt env s \<noteq> [] \<and> strip (encrypt env s) = encrypt env s) \<and>
     (\<forall>ex pw tv. loads env (dumps env (session_payload ex pw tv)) = Some (session_payload ex pw tv))"

lemma session_roundtrip:
  assumes "token_codec env"
  shows "session_get (env\<lparr>env_time := t\<rparr>) (Some (session_create env pw tv)) =
    Inr (if env_time env + SESSION_TTL_SECONDS < t then None
         else Some \<lparr>ss_expires_at = env_time env + SESSION_TTL_SECONDS, ss_password_verified = pw, ss_totp_verified = tv\<rparr>)"
proof -
  have d: "decrypt env (session_create env pw tv) = Some (dumps env (session_payload (env_time env + SESSION_TTL_SECONDS) pw tv))"
    "session_create env pw tv \<noteq> []" "strip (session_create env pw tv) = session_create env pw tv"
    "loads env (dumps env (session_payload ex pw tv)) = Some (session_payload ex pw tv)" for ex
    using assms by (simp_all add: token_codec_def session_create_def)
  then show ?thesis
    by (simp add: session_get_def Let_def session_payload_def jget_def json_int_def json_bool_def)
qed

lemma cached_settings_fresh:
  assumes "aw_cached w = None" "aw_row w = Some r"
  shows "cached_settings env w = (Inr r, w\<lparr>aw_cached := Some (r, env_monotonic env)\<rparr>)"
  using assms by (simp add: cached_settings_def sx_defs get_or_create_def)

text \<open>
  C31. In standard mode, with a password set, a session cookie opens the dashboard for exactly twelve hours
  after it was issued, and only if it was issued for a verified password and, while codes are required
  on login, for a verified code: a password login alone is answered with \<open>totp_required\<close>.
\<close>

theorem session_opens_dashboard:
  assumes "token_codec env" "dashboard_auth_mode (env_settings env) = STANDARD"
    and "aw_cached w = None" "aw_row w = Some r" "truthy_str (password_hash r)"
    and "session_cookie req = Some (session_create env pw tv)"
  shows "fst (validate_dashboard_session (env\<lparr>env_time := t\<rparr>) req w) =
    (if env_time env + 12 * 60 * 60 < t \<or> \<not> pw then Inl (DashboardAuthError ''Authentication is required'' ''authentication_required'')
     else if totp_required_on_login r \<and> \<not> tv then Inl (DashboardAuthError ''TOTP verification is required for dashboard access'' ''totp_required'')
     else Inr ())"
proof -
  have "request_auth (env\<lparr>env_time := t\<rparr>) req w = (Inr None, w)"
    by (simp add: request_auth_def get_dashboard_request_auth_def assms(2))
  then show ?thesis using assms(5)
    by (simp add: validate_dashboard_session_def sx_bind_def sx_return_def sx_raise_def Let_def read_session_def assms(2,6)
        cached_settings_fresh [OF assms(3,4)] session_roundtrip [OF assms(1)] SESSION_TTL_SECONDS_def)
qed

section \<open>A code is accepted once\<close>

text \<open>
  Verifications that overlap: the world, the steps whose codes were checked and not yet committed, and
  the steps accepted since the secret was last set. \<open>verify_totp\<close> and \<open>disable_totp\<close> are a \<open>totp_checked\<close>
  followed by \<open>totp_accepted\<close> or \<open>totp_refused\<close>.
\<close>

record totp_state =
  ts_world :: auth_world
  ts_checked :: "int set"
  ts_accepted :: "int list"

inductive totp_step :: "totp_state \<Rightarrow> totp_state \<Rightarrow> bool" where
  totp_checked: "get_or_create env (ts_world s) = ((Inr r :: auth_error + dashboard_settings), w) \<Longrightarrow> check_totp env r code = Inr (Some step) \<Longrightarrow>
    totp_step s (s\<lparr>ts_world := w, ts_checked := insert step (ts_checked s)\<rparr>)"
| totp_accepted: "step \<in> ts_checked s \<Longrightarrow> try_advance_totp_last_verified_step env step (ts_world s) = ((Inr True :: auth_error + bool), w) \<Longrightarrow>
    totp_step s (s\<lparr>ts_world := w, ts_accepted := step # ts_accepted s\<rparr>)"
| totp_refused: "step \<in> ts_checked s \<Longrightarrow> try_advance_totp_last_verified_step env step (ts_world s) = ((Inr False :: auth_error + bool), w) \<Longrightarrow>
    totp_step s (s\<lparr>ts_world := w\<rparr>)"
| totp_secret_set: "set_totp_secret env secret (ts_world s) = ((Inr r :: auth_error + dashboard_settings), w) \<Longrightarrow> totp_step s (s\<lparr>ts_world := w, ts_accepted := []\<rparr>)"
| totp_cleared: "clear_password_and_totp env (ts_world s) = ((Inr r :: auth_error + dashboard_settings), w) \<Longrightarrow> totp_step s (s\<lparr>ts_world := w, ts_accepted := []\<rparr>)"
| totp_password: "set_password_hash env h (ts_world s) = ((Inr r :: auth_error + dashboard_settings), w) \<Longrightarrow> totp_step s (s\<lparr>ts_world := w\<rparr>)"
| totp_settings: "settings_update env p (ts_world s) = ((Inr r :: auth_error + dashboard_settings), w) \<Longrightarrow> totp_step s (s\<lparr>ts_world := w\<rparr>)"

definition last_step :: "auth_world \<Rightarrow> int option" where
  "last_step w = Option.bind (aw_row w) totp_last_verified_step"

definition totp_inv :: "totp_state \<Rightarrow> bool" where
  "totp_inv s \<longleftrightarrow> sorted_wrt (>) (ts_accepted s) \<and>
     (case ts_accepted s of [] \<Rightarrow> True | a # _ \<Rightarrow> last_step (ts_world s) = Some a)"

lemma get_or_create_last_step: "get_or_create env w = (Inr r, w') \<Longrightarrow> totp_last_verified_step r = last_step w \<and> last_step w' = last_step w"
  by (auto simp: get_or_create_def last_step_def default_settings_def split: option.splits)

lemma save_after_create:
  assumes "sx_bind (get_or_create env) (\<lambda>r. save_row (f r)) w = (Inr r', w')"
  shows "\<exists>r. totp_last_verified_step r = last_step w \<and> last_step w' = totp_last_verified_step (f r)"
  using assms get_or_create_last_step by (fastforce simp: sx_bind_Inr save_row_def last_step_def)

lemma advance_last_step:
  assumes "try_advance_totp_last_verified_step env step w = (Inr b, w')"
  shows "if b then last_step w' = Some step \<and> (\<forall>l. last_step w = Some l \<longrightarrow> l < step) else last_step w' = last_step w"
  using assms get_or_create_last_step
  by (fastforce simp: try_advance_totp_last_verified_step_def update_where_def sx_bind_Inr save_row_def sx_return_def last_step_def
      split: if_splits option.splits)

lemma totp_step_inv:
  assumes "totp_step s s'" "totp_inv s"
  shows "totp_inv s'"
  using assms
proof cases
  case (totp_accepted step env w)
  have a: "last_step w = Some step" "\<forall>l. last_step (ts_world s) = Some l \<longrightarrow> l < step"
    using advance_last_step [OF totp_accepted(3)] by simp_all
  have "\<forall>x \<in> set (ts_accepted s). x < step"
  proof (cases "ts_accepted s")
    case (Cons b bs)
    with assms(2) a(2) show ?thesis by (auto simp: totp_inv_def)
  qed simp
  with a(1) assms(2) show ?thesis by (simp add: totp_inv_def totp_accepted(1))
next
  case (totp_checked env r w code step)
  with assms(2) get_or_create_last_step [OF totp_checked(2)] show ?thesis by (simp add: totp_inv_def split: list.splits)
next
  case (totp_refused step env w)
  with assms(2) advance_last_step [OF totp_refused(3)] show ?thesis by (simp add: totp_inv_def split: list.splits)
next
  case (totp_password env h r w)
  with assms(2) save_after_create [OF totp_password(2) [unfolded set_password_hash_def]] show ?thesis
    by (auto simp: totp_inv_def split: list.splits)
next
  case (totp_settings env p r w)
  with assms(2) save_after_create [OF totp_settings(2) [unfolded settings_update_def]] show ?thesis
    by (auto simp: totp_inv_def patch_row_def split: list.splits)
qed (simp_all add: totp_inv_def)

text \<open>
  C32. However verifications overlap with each other and with changes of the settings and the password, the
  time steps whose codes were accepted since the secret was set are strictly increasing: the same code
  is never accepted twice, also when two requests checked it before either was recorded.
\<close>

theorem totp_code_single_use:
  assumes "totp_step\<^sup>*\<^sup>* \<lparr>ts_world = w, ts_checked = {}, ts_accepted = []\<rparr> s"
  shows "sorted_wrt (>) (ts_accepted s) \<and> distinct (ts_accepted s)"
proof -
  have "totp_inv s" using assms
    by (induction rule: rtranclp_induct) (simp add: totp_inv_def, blast intro: totp_step_inv)
  then show ?thesis by (auto simp: totp_inv_def distinct_conv_nth sorted_wrt_iff_nth_less) (metis nat_neq_iff order_less_irrefl)
qed
section \<open>The first password\<close>

definition row_of :: "auth_env \<Rightarrow> auth_world \<Rightarrow> dashboard_settings" where
  "row_of env w = (case aw_row w of Some r \<Rightarrow> r | None \<Rightarrow> default_settings env)"

definition with_row :: "auth_world \<Rightarrow> dashboard_settings \<Rightarrow> auth_world" where
  "with_row w r = w\<lparr>aw_row := Some r\<rparr>"

lemma get_or_create_eq: "get_or_create env w = (Inr (row_of env w), with_row w (row_of env w))"
  by (cases w) (simp add: get_or_create_def row_of_def with_row_def split: option.splits)

lemma with_row_simps [simp]:
  "row_of env (with_row w r) = r" "with_row (with_row w r) r' = with_row w r'" "aw_row (with_row w r) = Some r"
  "aw_cached (with_row w r) = aw_cached w" "aw_attempts (with_row w r) = aw_attempts w"
  by (simp_all add: row_of_def with_row_def)

lemma update_where_eq: "update_where env P f w =
  (let r = row_of env w in if P r then (Inr True, with_row w (f r)) else (Inr False, with_row w r))"
  by (simp add: update_where_def sx_defs get_or_create_eq save_row_def Let_def) (simp add: with_row_def)

definition bootstrap_token_accepted :: "auth_env \<Rightarrow> string option \<Rightarrow> dashboard_settings \<Rightarrow> bool" where
  "bootstrap_token_accepted env token r = (let submitted = strip (case token of None \<Rightarrow> [] | Some t \<Rightarrow> t) in
     case manual_bootstrap_token env of
       Some manual \<Rightarrow> submitted = manual
     | None \<Rightarrow> bootstrap_token_hash r = Some (sha256_digest env submitted))"

lemma bootstrap_gate_ok:
  assumes "bootstrap_gate env token w = (Inr u, w')"
  shows "bootstrap_token_accepted env token (row_of env w) \<and> (w' = w \<or> w' = with_row w (row_of env w))"
  using assms
  by (auto simp: bootstrap_gate_def sx_bind_Inr sx_raise_def sx_return_def get_bootstrap_validation_status_def get_or_create_eq
      bootstrap_token_accepted_def Let_def split: option.splits if_splits)

lemma setup_password_ok:
  assumes "sx_catch (setup_password env password) h w = (Inr u, w')" "\<And>e w. \<exists>e'. h e w = (Inl e', w)"
  shows "password_hash (row_of env w) = None \<and> w' = with_row w ((row_of env w)\<lparr>password_hash := Some (hashpw env password),
    bootstrap_token_encrypted := None, bootstrap_token_hash := None\<rparr>)"
proof -
  have "setup_password env password w = (Inr u, w')" using assms by (auto simp: sx_catch_def split: prod.splits sum.splits)
    (metis Inl_Inr_False prod.inject)
  then show ?thesis
    by (auto simp: setup_password_def sx_bind_Inr try_set_password_hash_def update_where_eq Let_def sx_return_def sx_raise_def split: if_splits)
qed

lemma session_reply_row: "session_reply env req sid w = (Inr x, w') \<Longrightarrow> aw_row w = Some r \<Longrightarrow> aw_row w' = Some r"
  by (auto simp: session_reply_def get_session_state_def decorate_session_response_def sx_bind_Inr sx_return_def read_session_def
      get_or_create_def request_auth_def Let_def split: if_splits option.splits sum.splits)

lemma setup_gate:
  assumes "(if exempt then sx_return () else bootstrap_gate env token) (with_row w (row_of env w)) = (Inr u, w')"
  shows "w' = with_row w (row_of env w) \<and> (\<not> exempt \<longrightarrow> bootstrap_token_accepted env token (row_of env w))"
  using assms bootstrap_gate_ok [of env token "with_row w (row_of env w)" u w'] by (auto simp: sx_return_def split: if_splits)

lemma setup_handler_ok:
  assumes "setup_password_handler env req password token w = (Inr x, w')"
  shows "password_hash (row_of env w) = None \<and> 8 \<le> length (strip password) \<and>
    aw_row w' = Some ((row_of env w)\<lparr>password_hash := Some (hashpw env (strip password)),
      bootstrap_token_encrypted := None, bootstrap_token_hash := None\<rparr>) \<and>
    (dashboard_auth_mode (env_settings env) = STANDARD \<longrightarrow> is_local_request (env_settings env) req = Inr False \<longrightarrow>
      bootstrap_token_accepted env token (row_of env w))"
proof -
  let ?mode = "dashboard_auth_mode (env_settings env)" and ?r = "row_of env w"
  let ?h = "\<lambda>e. sx_raise (case e of PasswordAlreadyConfiguredError m \<Rightarrow> DashboardConflictError m ''password_already_configured'' | _ \<Rightarrow> OtherError)"
  obtain exempt w1 u w2 where
    e: "(if password_hash ?r = None \<and> ?mode \<noteq> TRUSTED_HEADER then local_request env req else sx_return True) (with_row w ?r) = (Inr exempt, w1)"
    and g: "(if exempt then sx_return () else bootstrap_gate env token) w1 = (Inr u, w2)"
    and k: "(if length (strip password) < 8 then sx_raise (DashboardValidationError ''Password must be at least 8 characters'' ''validation_error'')
           else sx_bind (sx_catch (setup_password env (strip password)) ?h) (\<lambda>u.
             sx_bind cache_invalidate_settings (\<lambda>u. session_reply env req (session_create env True False)))) w2 = (Inr x, w')"
    using assms by (auto simp: setup_password_handler_def sx_bind_Inr [of "request_auth env req"] sx_bind_Inr [of "get_or_create env"]
        get_or_create_eq request_auth_def Let_def sx_raise_def sx_bind_Inr split: if_splits sum.splits)
  have w1: "w1 = with_row w ?r" using e by (auto simp: local_request_def sx_return_def split: if_splits sum.splits)
  note w2 = setup_gate [OF g [unfolded w1]]
  obtain u' w3 w4 where p: "sx_catch (setup_password env (strip password)) ?h w2 = (Inr u', w3)" and l: "8 \<le> length (strip password)"
    and s: "cache_invalidate_settings w3 = ((Inr () :: app_error + unit), w4)" "session_reply env req (session_create env True False) w4 = (Inr x, w')"
    using k by (simp add: sx_bind_Inr sx_raise_def not_less split: if_splits) blast
  have "\<exists>e'. ?h e v = (Inl e', v)" for e and v :: auth_world by (simp add: sx_raise_def)
  from setup_password_ok [OF p this] w2 have q: "password_hash ?r = None" "w3 = with_row w (?r\<lparr>password_hash := Some (hashpw env (strip password)),
      bootstrap_token_encrypted := None, bootstrap_token_hash := None\<rparr>)" by simp_all
  have "aw_row w4 = aw_row w3" using s(1) by (auto simp: cache_invalidate_settings_def sx_modify_def)
  with q have "aw_row w' = Some (?r\<lparr>password_hash := Some (hashpw env (strip password)),
      bootstrap_token_encrypted := None, bootstrap_token_hash := None\<rparr>)" using session_reply_row [OF s(2)] by simp
  moreover have "exempt = False" if "?mode = STANDARD" "is_local_request (env_settings env) req = Inr False"
    using e that q(1) by (simp add: local_request_def)
  ultimately show ?thesis using q(1) l w2 by blast
qed

text \<open>
  C33. The first password is set once. When a setup succeeds, no password was set before, the password has at
  least eight characters, the stored row has its hash and no bootstrap token any more; a remote client in
  standard mode succeeded only with the configured or the stored bootstrap token; and every later setup,
  whoever sends it and whatever token it carries, fails.
\<close>

theorem first_password_once:
  assumes "setup_password_handler env req password token w = (Inr x, w')"
  shows "password_hash (row_of env w) = None \<and> 8 \<le> length (strip password) \<and>
    aw_row w' = Some ((row_of env w)\<lparr>password_hash := Some (hashpw env (strip password)),
      bootstrap_token_encrypted := None, bootstrap_token_hash := None\<rparr>) \<and>
    (dashboard_auth_mode (env_settings env) = STANDARD \<longrightarrow> is_local_request (env_settings env) req = Inr False \<longrightarrow>
      bootstrap_token_accepted env token (row_of env w)) \<and>
    (\<forall>env' req' password' token'. isl (fst (setup_password_handler env' req' password' token' w')))"
proof -
  have "isl (fst (setup_password_handler env' req' password' token' w'))" for env' req' password' token'
  proof (rule ccontr)
    assume "\<not> isl (fst (setup_password_handler env' req' password' token' w'))"
    then obtain x' w'' where "setup_password_handler env' req' password' token' w' = (Inr x', w'')"
      by (metis isl_def old.sum.exhaust prod.collapse)
    from setup_handler_ok [OF this] setup_handler_ok [OF assms] show False by (simp add: row_of_def)
  qed
  with setup_handler_ok [OF assms] show ?thesis by blast
qed
section \<open>Password logins\<close>

lemma sx_bind_run: "m w = (Inr x, w') \<Longrightarrow> sx_bind m k w = k x w'"
  by (simp add: sx_bind_def)

lemma session_get_now: "token_codec env \<Longrightarrow> session_get env (Some (session_create env pw tv)) =
    Inr (Some \<lparr>ss_expires_at = env_time env + SESSION_TTL_SECONDS, ss_password_verified = pw, ss_totp_verified = tv\<rparr>)"
  using session_roundtrip [of env "env_time env" pw tv] by (simp add: SESSION_TTL_SECONDS_def)

lemma session_reply_ok:
  assumes "token_codec env" "dashboard_auth_mode (env_settings env) = STANDARD" "aw_row w = Some r"
  shows "\<exists>resp. session_reply env req (session_create env pw tv) w = (Inr (resp, session_create env pw tv), w)"
proof -
  have "session_create env pw tv \<noteq> []" using assms(1) by (simp add: token_codec_def session_create_def)
  then show ?thesis using assms(2,3) session_get_now [OF assms(1), of pw tv]
    by (simp add: session_reply_def get_session_state_def decorate_session_response_def request_auth_def get_dashboard_request_auth_def
        sx_bind_def sx_return_def get_or_create_def read_session_def Let_def)
qed

text \<open>
  C34. What a password login does in standard mode, with a password set: after eight attempts of the client
  within the last minute it is refused with status 429 before the password is looked at; a wrong
  password is refused with status 401, counts as an attempt and is audited; the right password is
  answered with a session for a verified password only, and clears the attempts of the client.
\<close>

theorem password_login_guarded:
  assumes "token_codec env" "dashboard_auth_mode (env_settings env) = STANDARD"
    and "aw_cached w = None" "aw_row w = Some r" "password_hash r = Some h"
  shows "(let key = session_client_key req ''password_login'';
      recent = attempts_since password_rate_limiter key (env_utcnow env - timedelta_seconds 60) (aw_attempts w);
      (res, w') = login_password env req password w
    in if 8 \<le> length recent
       then (\<exists>e. res = Inl e \<and> status_code e = 429) \<and> aw_attempts w' = aw_attempts w \<and> aw_audit w' = aw_audit w
       else if \<not> check_password env password h
       then res = Inl (DashboardAuthError ''Invalid credentials'' ''invalid_credentials'') \<and>
         aw_attempts w' = aw_attempts w @ [attempt password_rate_limiter key (env_utcnow env)] \<and>
         aw_audit w' = aw_audit w @ [(''login_failed'', req_client req, Some ''password'')]
       else (\<exists>resp. res = Inr (resp, session_create env True False)) \<and> aw_row w' = Some r \<and>
         aw_attempts w' = clear_for_key password_rate_limiter key (aw_attempts w))"
proof -
  let ?key = "session_client_key req ''password_login''"
  let ?recent = "attempts_since password_rate_limiter ?key (env_utcnow env - timedelta_seconds 60) (aw_attempts w)"
  let ?w1 = "w\<lparr>aw_cached := Some (r, env_monotonic env)\<rparr>"
  have ws: "window_start password_rate_limiter now = now - timedelta_seconds 60" for now
    by (simp add: window_start_def password_rate_limiter_def)
  have cap: "max_attempts password_rate_limiter = 8" by (simp add: password_rate_limiter_def)
  have start: "login_password env req password w = sx_bind (count_attempt env password_rate_limiter ?key ''password_rate_limited'') (\<lambda>u.
          sx_bind (sx_catch (verify_password env password (req_client req)) (\<lambda>e. case e of
              InvalidCredentialsError m \<Rightarrow> sx_raise (DashboardAuthError m ''invalid_credentials'')
            | PasswordNotConfiguredError m \<Rightarrow> sx_bind (clear_attempts password_rate_limiter ?key) (\<lambda>u.
                sx_raise (DashboardBadRequestError m ''password_not_configured''))
            | _ \<Rightarrow> sx_raise OtherError)) (\<lambda>u.
          sx_bind (clear_attempts password_rate_limiter ?key) (\<lambda>u. session_reply env req (session_create env True False)))) ?w1"
    unfolding login_password_def by (simp add: assms(2,5) sx_bind_run [where m = "cached_settings env", OF cached_settings_fresh [OF assms(3,4)]] Let_def)
  show ?thesis
  proof (cases "8 \<le> length ?recent")
    case True
    then show ?thesis unfolding start
      by (simp add: sx_bind_def count_attempt_def check_and_increment_def Let_def ws cap status_code_def)
  next
    case False
    let ?w2 = "?w1\<lparr>aw_attempts := aw_attempts w @ [attempt password_rate_limiter ?key (env_utcnow env)]\<rparr>"
    have c: "count_attempt env password_rate_limiter ?key ''password_rate_limited'' ?w1 = (Inr (), ?w2)"
      using False by (simp add: count_attempt_def check_and_increment_def Let_def ws cap)
    have v: "verify_password env password (req_client req) ?w2 =
        (if \<not> check_password env password h
         then (Inl (InvalidCredentialsError ''Invalid credentials''), ?w2\<lparr>aw_audit := aw_audit w @ [(''login_failed'', req_client req, Some ''password'')]\<rparr>)
         else (Inr (), ?w2\<lparr>aw_audit := aw_audit w @ (if \<not> totp_required_on_login r \<or> totp_secret_encrypted r = None
            then [(''login_success'', req_client req, Some ''password'')] else [])\<rparr>))"
      by (simp add: verify_password_def sx_defs get_password_hash_def get_or_create_def assms(4,5) audit_def)
    have cl: "clear_for_key l k (t @ [attempt l k now]) = clear_for_key l k t" for l k t now
      by (simp add: clear_for_key_def attempt_def)
    show ?thesis
    proof (cases "check_password env password h")
      case True
      let ?w3 = "?w2\<lparr>aw_audit := aw_audit w @ (if \<not> totp_required_on_login r \<or> totp_secret_encrypted r = None
            then [(''login_success'', req_client req, Some ''password'')] else []), aw_attempts := clear_for_key password_rate_limiter ?key (aw_attempts w)\<rparr>"
      have "login_password env req password w = session_reply env req (session_create env True False) ?w3"
        using True unfolding start by (simp add: sx_bind_def sx_catch_def c v clear_attempts_def sx_modify_def cl)
      moreover obtain resp where "session_reply env req (session_create env True False) ?w3 = (Inr (resp, session_create env True False), ?w3)"
        using session_reply_ok [OF assms(1,2), of ?w3 r req True False] assms(4) by auto
      ultimately show ?thesis using False True assms(4) by (simp add: Let_def)
    next
      case bad: False
      then show ?thesis using False unfolding start by (simp add: sx_bind_def sx_catch_def c v sx_raise_def)
    qed
  qed
qed
section \<open>Sample inputs\<close>

definition demo_dumps :: "json \<Rightarrow> string" where
  "demo_dumps j = (case j of
     JObj [(_, JInt ex), (_, JBool pw), (_, JBool tv)] \<Rightarrow>
       (if pw then CHR ''y'' else CHR ''n'') # (if tv then CHR ''y'' else CHR ''n'') # (if ex < 0 then CHR ''-'' else CHR ''+'') # replicate (nat \<bar>ex\<bar>) CHR ''1''
   | _ \<Rightarrow> [])"

definition demo_loads :: "string \<Rightarrow> json option" where
  "demo_loads s = (case s of
     pw # tv # sign # n \<Rightarrow> Some (session_payload (if sign = CHR ''-'' then - int (length n) else int (length n)) (pw = CHR ''y'') (tv = CHR ''y''))
   | _ \<Rightarrow> None)"

definition demo_env :: auth_env where
  "demo_env = \<lparr>env_settings = sample_settings\<lparr>dashboard_auth_mode := STANDARD\<rparr>, env_affinity_age = 1800, env_bootstrap_token = Some ''let me in'',
     env_time = 1000, env_monotonic = 0, env_utcnow = 1000000000, encrypt = (\<lambda>s. CHR ''k'' # s @ ''k''),
     decrypt = (\<lambda>t. Some (butlast (tl t))), dumps = demo_dumps, loads = demo_loads, hashpw = (\<lambda>p. ''h'' @ p),
     checkpw = (\<lambda>p h. Some (h = ''h'' @ p)), totp_at = (\<lambda>secret t. ''123456''), sha256_digest = (\<lambda>s. s), random_token = ''r''\<rparr>"

lemma strip_closed: "\<not> is_space c \<Longrightarrow> strip (c # s @ [c]) = c # s @ [c]"
  by (simp add: strip_def rstrip_def)

lemma demo_codec: "token_codec demo_env"
proof -
  have "\<not> is_space CHR ''k''" by code_simp
  from strip_closed [OF this] show ?thesis
    by (simp add: token_codec_def demo_env_def demo_loads_def demo_dumps_def session_payload_def)
qed

definition demo_row :: dashboard_settings where
  "demo_row = (default_settings demo_env)\<lparr>password_hash := Some ''hcorrect horse'', totp_required_on_login := True,
     totp_secret_encrypted := Some ''kABCDEFGHk''\<rparr>"

definition demo_world :: auth_world where
  "demo_world = \<lparr>aw_row = Some demo_row, aw_attempts = [], aw_audit = [], aw_cached = None\<rparr>"

definition demo_cookie_request :: "bool \<Rightarrow> http_request" where
  "demo_cookie_request tv = (sample_request ''7.7.7.7'')\<lparr>req_cookies := [(DASHBOARD_SESSION_COOKIE, session_create demo_env True tv)]\<rparr>"

lemma demo_facts:
  "dashboard_auth_mode (env_settings demo_env) = STANDARD" "aw_cached demo_world = None" "aw_row demo_world = Some demo_row"
  "password_hash demo_row = Some ''hcorrect horse''" "totp_required_on_login demo_row" "env_time demo_env = 1000"
  "session_cookie (demo_cookie_request tv) = Some (session_create demo_env True tv)"
  by (simp_all add: demo_env_def demo_world_def demo_row_def session_cookie_def demo_cookie_request_def)

theorem session_opens_dashboard_witness:
  "fst (validate_dashboard_session (demo_env\<lparr>env_time := 5000\<rparr>) (demo_cookie_request True) demo_world) = Inr () \<and>
   fst (validate_dashboard_session (demo_env\<lparr>env_time := 5000\<rparr>) (demo_cookie_request False) demo_world) =
     Inl (DashboardAuthError ''TOTP verification is required for dashboard access'' ''totp_required'')"
proof -
  have p: "truthy_str (password_hash demo_row)" by (simp add: demo_facts)
  show ?thesis
    using session_opens_dashboard [OF demo_codec demo_facts(1-3) p demo_facts(7), of 5000 True]
      session_opens_dashboard [OF demo_codec demo_facts(1-3) p demo_facts(7), of 5000 False]
    by (simp add: demo_facts(5,6))
qed

theorem password_login_guarded_witness:
  "fst (login_password demo_env (sample_request ''7.7.7.7'') ''wrong'' demo_world) =
     Inl (DashboardAuthError ''Invalid credentials'' ''invalid_credentials'') \<and>
   (\<exists>resp. fst (login_password demo_env (sample_request ''7.7.7.7'') ''correct horse'' demo_world) =
     Inr (resp, session_create demo_env True False))"
proof -
  have a: "attempts_since l k t (aw_attempts demo_world) = []" for l k t
    by (simp add: attempts_since_def demo_world_def)
  have c: "\<not> check_password demo_env ''wrong'' ''hcorrect horse''" "check_password demo_env ''correct horse'' ''hcorrect horse''"
    by (simp_all add: check_password_def demo_env_def)
  show ?thesis
    using password_login_guarded [OF demo_codec demo_facts(1-4), of "sample_request ''7.7.7.7''" "''wrong''"]
      password_login_guarded [OF demo_codec demo_facts(1-4), of "sample_request ''7.7.7.7''" "''correct horse''"]
    by (simp add: a c Let_def split: prod.splits)
qed

definition opaque_env :: auth_env where
  "opaque_env = demo_env\<lparr>dumps := (\<lambda>j. []), loads := (\<lambda>s. None)\<rparr>"

definition blank_world :: auth_world where
  "blank_world = \<lparr>aw_row = None, aw_attempts = [], aw_audit = [], aw_cached = None\<rparr>"

lemma opaque_mode: "dashboard_auth_mode (env_settings opaque_env) = STANDARD"
  by (simp add: opaque_env_def demo_facts(1))

theorem first_password_once_witness:
  "\<exists>x w'. setup_password_handler opaque_env (sample_request ''7.7.7.7'') ''correct horse'' (Some '' let me in '') blank_world = (Inr x, w') \<and>
     bootstrap_token_accepted opaque_env (Some '' let me in '') (row_of opaque_env blank_world) \<and>
     isl (fst (setup_password_handler opaque_env (sample_request ''10.0.0.1'') ''another one'' (Some ''let me in'') w'))"
proof -
  let ?r = "setup_password_handler opaque_env (sample_request ''7.7.7.7'') ''correct horse'' (Some '' let me in '') blank_world"
  have "\<not> isl (fst ?r)" by code_simp
  then obtain x where "fst ?r = Inr x" by (metis isl_def old.sum.exhaust)
  then have "?r = (Inr x, snd ?r)" by (metis prod.collapse)
  moreover have "is_local_request (env_settings opaque_env) (sample_request ''7.7.7.7'') = Inr False" by code_simp
  ultimately show ?thesis using first_password_once [of opaque_env "sample_request ''7.7.7.7''" "''correct horse''" "Some '' let me in ''" blank_world x "snd ?r"]
      opaque_mode by blast
qed

lemma demo_totp_run:
  "\<exists>s. totp_step\<^sup>*\<^sup>* \<lparr>ts_world = demo_world, ts_checked = {}, ts_accepted = []\<rparr> s \<and> ts_checked s = {32} \<and> ts_accepted s = [32] \<and>
     (\<exists>w. try_advance_totp_last_verified_step demo_env 32 (ts_world s) = ((Inr False :: auth_error + bool), w))"
proof -
  let ?s0 = "\<lparr>ts_world = demo_world, ts_checked = {}, ts_accepted = []\<rparr>"
  have g: "get_or_create demo_env demo_world = ((Inr demo_row :: auth_error + dashboard_settings), demo_world)"
    by (simp add: get_or_create_def demo_facts(3))
  have "check_totp demo_env demo_row ''123 456'' = Inr (Some 32)" by code_simp
  from totp_checked [of demo_env ?s0, simplified, OF g this]
  have 1: "totp_step ?s0 (?s0\<lparr>ts_checked := {32}\<rparr>)" by simp
  let ?w = "demo_world\<lparr>aw_row := Some (demo_row\<lparr>totp_last_verified_step := Some 32\<rparr>)\<rparr>"
  have "totp_last_verified_step demo_row = None" by (simp add: demo_row_def default_settings_def)
  then have "try_advance_totp_last_verified_step demo_env 32 demo_world = ((Inr True :: auth_error + bool), ?w)"
    by (simp add: try_advance_totp_last_verified_step_def update_where_def sx_defs g save_row_def)
  from totp_accepted [of 32 "?s0\<lparr>ts_checked := {32}\<rparr>" demo_env, simplified, OF this]
  have 2: "totp_step (?s0\<lparr>ts_checked := {32}\<rparr>) \<lparr>ts_world = ?w, ts_checked = {32}, ts_accepted = [32]\<rparr>" by simp
  have "try_advance_totp_last_verified_step demo_env 32 ?w = ((Inr False :: auth_error + bool), ?w)"
    by (simp add: try_advance_totp_last_verified_step_def update_where_def sx_defs get_or_create_def)
  with 1 2 show ?thesis by (intro exI [of _ "\<lparr>ts_world = ?w, ts_checked = {32}, ts_accepted = [32]\<rparr>"]) auto
qed

theorem totp_code_single_use_witness:
  "\<exists>s. totp_step\<^sup>*\<^sup>* \<lparr>ts_world = demo_world, ts_checked = {}, ts_accepted = []\<rparr> s \<and> ts_accepted s = [32] \<and> distinct (ts_accepted s)"
  using demo_totp_run totp_code_single_use by blast

end
