(* ===== verification/Bridge_Sessions.thy ===== *)
theory Bridge_Sessions
  imports Leases "HOL-Library.Multiset"
begin

text \<open>
  Sessions of the HTTP bridge that instances own by lease:
  \<open>app/modules/proxy/durable_bridge_repository.py\<close> and \<open>durable_bridge_coordinator.py\<close> over the tables
  \<open>http_bridge_sessions\<close> and \<open>http_bridge_session_aliases\<close>. \<open>sha256\<close> is the argument \<open>sha\<close>; clock
  readings and fresh ids are arguments.

  A claim reads its row \<open>FOR UPDATE\<close> and is one step. The other handlers read a row without a lock,
  change the object and commit; \<open>flush\<close> is what the object mapper writes, the attributes that differ
  from those it loaded. The step relation \<open>bridge_step\<close> lets other transactions run between the two.

  The lemmas show what a claim does on every branch, that no two instances are ever granted the same
  epoch of a session, that a registered alias leads to its session, and that a release that overlaps
  a claim can evict the new owner.
\<close>

section \<open>Rows\<close>

datatype bridge_state = Bridge_ACTIVE | Bridge_DRAINING | Bridge_CLOSED

record bridge_session =
  bs_id :: string
  session_key_kind :: string
  session_key_value :: string
  session_key_hash :: string
  bs_api_key_scope :: string
  owner_instance_id :: "string option"
  owner_epoch :: int
  lease_expires_at :: "datetime option"
  bs_state :: bridge_state
  bs_account_id :: "string option"
  bs_model :: "string option"
  bs_service_tier :: "string option"
  latest_turn_state :: "string option"
  latest_response_id :: "string option"
  last_seen_at :: datetime
  closed_at :: "datetime option"

record bridge_alias =
  alias_session_id :: string
  alias_kind :: string
  alias_value :: string
  alias_hash :: string
  alias_scope :: string

record bridge_db =
  sessions :: "bridge_session list"
  aliases :: "bridge_alias list"

datatype bridge_error = BridgeIntegrityError | BridgeRuntimeError string

definition durable_bridge_api_key_scope :: "string option \<Rightarrow> string" where
  "durable_bridge_api_key_scope api_key_id = (case api_key_id of
     None \<Rightarrow> ''__anonymous__''
   | Some k \<Rightarrow> (let stripped = strip k in if stripped = [] then ''__anonymous__'' else stripped))"

section \<open>The repository\<close>

definition session_key :: "bridge_session \<Rightarrow> string \<times> string \<times> string" where
  "session_key r = (session_key_kind r, session_key_hash r, bs_api_key_scope r)"

definition get_session :: "(string \<Rightarrow> string) \<Rightarrow> string \<Rightarrow> string \<Rightarrow> string \<Rightarrow> bridge_db \<Rightarrow> bridge_session option" where
  "get_session sha kind value scope db = find (\<lambda>r. session_key r = (kind, sha value, scope)) (sessions db)"

definition get_session_by_id :: "string \<Rightarrow> bridge_db \<Rightarrow> bridge_session option" where
  "get_session_by_id sid db = find (\<lambda>r. bs_id r = sid) (sessions db)"

definition resolve_alias :: "(string \<Rightarrow> string) \<Rightarrow> string \<Rightarrow> string \<Rightarrow> string \<Rightarrow> bridge_db \<Rightarrow> bridge_session option" where
  "resolve_alias sha kind value scope db =
     (case find (\<lambda>a. alias_kind a = kind \<and> alias_hash a = sha value \<and> alias_scope a = scope) (aliases db) of
        None \<Rightarrow> None | Some a \<Rightarrow> get_session_by_id (alias_session_id a) db)"

text \<open>The attributes changed since the row was loaded, written to the row as it is now.\<close>

definition changed :: "'a \<Rightarrow> 'a \<Rightarrow> 'a \<Rightarrow> 'a" where
  "changed loaded new current = (if new = loaded then current else new)"

definition flush_row :: "bridge_session \<Rightarrow> bridge_session \<Rightarrow> bridge_session \<Rightarrow> bridge_session" where
  "flush_row r r' q = q\<lparr>
     owner_instance_id := changed (owner_instance_id r) (owner_instance_id r') (owner_instance_id q),
     owner_epoch := changed (owner_epoch r) (owner_epoch r') (owner_epoch q),
     lease_expires_at := changed (lease_expires_at r) (lease_expires_at r') (lease_expires_at q),
     bs_state := changed (bs_state r) (bs_state r') (bs_state q),
     bs_account_id := changed (bs_account_id r) (bs_account_id r') (bs_account_id q),
     bs_model := changed (bs_model r) (bs_model r') (bs_model q),
     bs_service_tier := changed (bs_service_tier r) (bs_service_tier r') (bs_service_tier q),
     latest_turn_state := changed (latest_turn_state r) (latest_turn_state r') (latest_turn_state q),
     latest_response_id := changed (latest_response_id r) (latest_response_id r') (latest_response_id q),
     last_seen_at := changed (last_seen_at r) (last_seen_at r') (last_seen_at q),
     closed_at := changed (closed_at r) (closed_at r') (closed_at q)\<rparr>"

definition flush :: "bridge_session \<Rightarrow> bridge_session \<Rightarrow> bridge_db \<Rightarrow> bridge_db" where
  "flush r r' db = db\<lparr>sessions := map (\<lambda>q. if bs_id q = bs_id r then flush_row r r' q else q) (sessions db)\<rparr>"

record claim_args =
  ca_kind :: string
  ca_value :: string
  ca_scope :: string
  ca_instance_id :: string
  ca_lease_ttl_seconds :: pyfloat
  ca_account_id :: "string option"
  ca_model :: "string option"
  ca_service_tier :: "string option"
  ca_turn_state :: "string option"
  ca_response_id :: "string option"
  ca_allow_takeover :: bool

text \<open>\<open>timedelta(seconds=x)\<close> of a float has microsecond resolution.\<close>

definition timedelta_float :: "pyfloat \<Rightarrow> datetime" where
  "timedelta_float x = round_half_even (x * 1000000)"

definition lease_end :: "datetime \<Rightarrow> pyfloat \<Rightarrow> datetime" where
  "lease_end now ttl = now + timedelta_float (max 1 ttl)"

definition new_session :: "(string \<Rightarrow> string) \<Rightarrow> string \<Rightarrow> datetime \<Rightarrow> claim_args \<Rightarrow> bridge_session" where
  "new_session sha uuid now a =
     \<lparr>bs_id = uuid, session_key_kind = ca_kind a, session_key_value = ca_value a,
      session_key_hash = sha (ca_value a), bs_api_key_scope = ca_scope a,
      owner_instance_id = Some (ca_instance_id a), owner_epoch = 1,
      lease_expires_at = Some (lease_end now (ca_lease_ttl_seconds a)), bs_state = Bridge_ACTIVE,
      bs_account_id = ca_account_id a, bs_model = ca_model a, bs_service_tier = ca_service_tier a,
      latest_turn_state = ca_turn_state a, latest_response_id = ca_response_id a,
      last_seen_at = now, closed_at = None\<rparr>"

text \<open>The insertion fails on the primary key or on the unique session key.\<close>

definition insert_session :: "bridge_session \<Rightarrow> bridge_db \<Rightarrow> bridge_db option" where
  "insert_session new db =
     (if list_ex (\<lambda>r. bs_id r = bs_id new \<or> session_key r = session_key new) (sessions db) then None
      else Some (db\<lparr>sessions := sessions db @ [new]\<rparr>))"

definition or_keep :: "'a option \<Rightarrow> 'a option \<Rightarrow> 'a option" where
  "or_keep new old = (if new \<noteq> None then new else old)"

text \<open>The claim of an existing row: \<open>None\<close> when it belongs to another instance that may keep it.\<close>

definition claim_existing :: "datetime \<Rightarrow> claim_args \<Rightarrow> bridge_session \<Rightarrow> bridge_session option" where
  "claim_existing now a r =
     (let state_allows_takeover = (bs_state r \<in> {Bridge_DRAINING, Bridge_CLOSED});
          owner_changed = (owner_instance_id r \<noteq> Some (ca_instance_id a));
          lease_expired = (case lease_expires_at r of None \<Rightarrow> True | Some e \<Rightarrow> e \<le> now);
          was_closed = (bs_state r = Bridge_CLOSED)
      in if owner_changed \<and> \<not> ca_allow_takeover a \<and> \<not> lease_expired \<and> \<not> state_allows_takeover then None
         else Some (r\<lparr>
           owner_instance_id := Some (ca_instance_id a),
           owner_epoch := (if owner_changed then owner_epoch r + 1 else owner_epoch r),
           lease_expires_at := Some (lease_end now (ca_lease_ttl_seconds a)),
           bs_state := Bridge_ACTIVE,
           bs_account_id := ca_account_id a,
           bs_model := ca_model a,
           bs_service_tier := ca_service_tier a,
           latest_turn_state := (if owner_changed \<and> was_closed then ca_turn_state a
             else or_keep (ca_turn_state a) (latest_turn_state r)),
           latest_response_id := (if owner_changed \<and> was_closed then ca_response_id a
             else or_keep (ca_response_id a) (latest_response_id r)),
           last_seen_at := now,
           closed_at := None\<rparr>))"

text \<open>
  One attempt with the row the locking \<open>SELECT\<close> returned: \<open>None\<close> after an \<open>IntegrityError\<close>.
\<close>

definition claim_attempt :: "(string \<Rightarrow> string) \<Rightarrow> string \<Rightarrow> datetime \<Rightarrow> claim_args \<Rightarrow> bridge_session option
    \<Rightarrow> bridge_db \<Rightarrow> (bridge_session \<times> bridge_db) option" where
  "claim_attempt sha uuid now a existing db = (case existing of
     None \<Rightarrow> (case insert_session (new_session sha uuid now a) db of
       None \<Rightarrow> None | Some db' \<Rightarrow> Some (new_session sha uuid now a, db'))
   | Some r \<Rightarrow> (case claim_existing now a r of
       None \<Rightarrow> Some (r, db) | Some r' \<Rightarrow> Some (r', flush r r' db)))"

text \<open>
  The claim. When \<open>raced\<close>, the first \<open>SELECT\<close> ran before a concurrent claim inserted the row, and so
  returned nothing; the second attempt then finds it.
\<close>

definition claim_session :: "(string \<Rightarrow> string) \<Rightarrow> bool \<Rightarrow> string \<Rightarrow> datetime \<Rightarrow> datetime \<Rightarrow> claim_args \<Rightarrow> bridge_db
    \<Rightarrow> (bridge_error + bridge_session) \<times> bridge_db" where
  "claim_session sha raced uuid now now' a db =
     (let select = get_session sha (ca_kind a) (ca_value a) (ca_scope a) db
      in case claim_attempt sha uuid now a (if raced then None else select) db of
           Some (r, db') \<Rightarrow> (Inr r, db')
         | None \<Rightarrow> (case claim_attempt sha uuid now' a select db of
             Some (r, db') \<Rightarrow> (Inr r, db')
           | None \<Rightarrow> (Inl BridgeIntegrityError, db)))"

text \<open>The handlers that load a row by id and change it if the caller still owns it.\<close>

definition owned :: "string \<Rightarrow> int \<Rightarrow> bridge_session \<Rightarrow> bool" where
  "owned iid epoch r = (\<not> (owner_instance_id r \<noteq> Some iid \<or> owner_epoch r \<noteq> epoch))"

definition renewed :: "datetime \<Rightarrow> pyfloat \<Rightarrow> string option \<Rightarrow> string option \<Rightarrow> bridge_state option
    \<Rightarrow> bridge_session \<Rightarrow> bridge_session" where
  "renewed now ttl turn response st r = r\<lparr>
     lease_expires_at := Some (lease_end now ttl), last_seen_at := now,
     latest_turn_state := or_keep turn (latest_turn_state r),
     latest_response_id := or_keep response (latest_response_id r),
     bs_state := (case st of None \<Rightarrow> bs_state r | Some x \<Rightarrow> x)\<rparr>"

definition released :: "datetime \<Rightarrow> bool \<Rightarrow> bridge_session \<Rightarrow> bridge_session" where
  "released now is_draining r = r\<lparr>
     owner_instance_id := None, lease_expires_at := Some now, last_seen_at := now,
     bs_state := (if is_draining then Bridge_DRAINING else Bridge_CLOSED),
     closed_at := (if is_draining then None else Some now)\<rparr>"

definition drained :: "datetime \<Rightarrow> bridge_session \<Rightarrow> bridge_session" where
  "drained now r = r\<lparr>bs_state := Bridge_DRAINING, last_seen_at := now\<rparr>"

definition renew_session :: "string \<Rightarrow> string \<Rightarrow> int \<Rightarrow> datetime \<Rightarrow> pyfloat \<Rightarrow> string option \<Rightarrow> string option
    \<Rightarrow> bridge_state option \<Rightarrow> bridge_db \<Rightarrow> bridge_session option \<times> bridge_db" where
  "renew_session sid iid epoch now ttl turn response st db = (case get_session_by_id sid db of
     None \<Rightarrow> (None, db)
   | Some r \<Rightarrow> if \<not> owned iid epoch r then (Some r, db)
       else let r' = renewed now ttl turn response st r in (Some r', flush r r' db))"

definition release_session :: "string \<Rightarrow> string \<Rightarrow> int \<Rightarrow> datetime \<Rightarrow> bool \<Rightarrow> bridge_db
    \<Rightarrow> bridge_session option \<times> bridge_db" where
  "release_session sid iid epoch now is_draining db = (case get_session_by_id sid db of
     None \<Rightarrow> (None, db)
   | Some r \<Rightarrow> if \<not> owned iid epoch r then (Some r, db)
       else let r' = released now is_draining r in (Some r', flush r r' db))"

definition owner_active :: "string \<Rightarrow> bridge_session \<Rightarrow> bool" where
  "owner_active iid r = (owner_instance_id r = Some iid \<and> bs_state r = Bridge_ACTIVE)"

definition mark_owner_draining :: "string \<Rightarrow> datetime \<Rightarrow> bridge_db \<Rightarrow> nat \<times> bridge_db" where
  "mark_owner_draining iid now db =
     (let rows = filter (owner_active iid) (sessions db)
      in (length rows, fold (\<lambda>r. flush r (drained now r)) rows db))"

definition upsert_alias :: "(string \<Rightarrow> string) \<Rightarrow> string \<Rightarrow> string \<Rightarrow> string \<Rightarrow> string \<Rightarrow> bridge_db \<Rightarrow> bridge_db" where
  "upsert_alias sha sid kind value scope db =
     (let key = (\<lambda>a. alias_kind a = kind \<and> alias_hash a = sha value \<and> alias_scope a = scope)
      in db\<lparr>aliases := (if list_ex key (aliases db)
           then map (\<lambda>a. if key a then a\<lparr>alias_session_id := sid, alias_value := value\<rparr> else a) (aliases db)
           else aliases db @ [\<lparr>alias_session_id = sid, alias_kind = kind, alias_value = value,
                  alias_hash = sha value, alias_scope = scope\<rparr>])\<rparr>)"

section \<open>The coordinator\<close>

text \<open>
  \<open>DurableBridgeLookup\<close> and the snapshot it is made from are projections of the row.
\<close>

record bridge_lookup =
  lk_session_id :: string
  lk_canonical_kind :: string
  lk_canonical_key :: string
  lk_api_key_scope :: string
  lk_account_id :: "string option"
  lk_owner_instance_id :: "string option"
  lk_owner_epoch :: int
  lk_lease_expires_at :: "datetime option"
  lk_state :: bridge_state
  lk_latest_turn_state :: "string option"
  lk_latest_response_id :: "string option"

definition to_lookup :: "bridge_session \<Rightarrow> bridge_lookup" where
  "to_lookup r = \<lparr>lk_session_id = bs_id r, lk_canonical_kind = session_key_kind r,
     lk_canonical_key = session_key_value r, lk_api_key_scope = bs_api_key_scope r,
     lk_account_id = bs_account_id r, lk_owner_instance_id = owner_instance_id r,
     lk_owner_epoch = owner_epoch r, lk_lease_expires_at = lease_expires_at r, lk_state = bs_state r,
     lk_latest_turn_state = latest_turn_state r, lk_latest_response_id = latest_response_id r\<rparr>"

definition lease_is_active :: "datetime \<Rightarrow> bridge_lookup \<Rightarrow> bool" where
  "lease_is_active now l =
     (if lk_owner_instance_id l = None then False
      else case lk_lease_expires_at l of None \<Rightarrow> False | Some e \<Rightarrow> e > now)"

fun first_alias :: "(string \<Rightarrow> string) \<Rightarrow> string \<Rightarrow> (string \<times> string option) list \<Rightarrow> bridge_db
    \<Rightarrow> bridge_session option" where
  "first_alias sha scope [] db = None"
| "first_alias sha scope ((kind, None) # ks) db = first_alias sha scope ks db"
| "first_alias sha scope ((kind, Some value) # ks) db = (case resolve_alias sha kind value scope db of
     Some r \<Rightarrow> Some r | None \<Rightarrow> first_alias sha scope ks db)"

definition lookup_request_targets :: "(string \<Rightarrow> string) \<Rightarrow> string \<Rightarrow> string \<Rightarrow> string option \<Rightarrow> string option
    \<Rightarrow> string option \<Rightarrow> string option \<Rightarrow> bridge_db \<Rightarrow> bridge_lookup option" where
  "lookup_request_targets sha kind value api_key_id turn_state session_header previous_response_id db =
     (let scope = durable_bridge_api_key_scope api_key_id
      in case first_alias sha scope [(''turn_state'', turn_state), (''previous_response_id'', previous_response_id),
             (''session_header'', session_header)] db of
           Some r \<Rightarrow> Some (to_lookup r)
         | None \<Rightarrow> map_option to_lookup (get_session sha kind value scope db))"

definition claim_live_session :: "(string \<Rightarrow> string) \<Rightarrow> bool \<Rightarrow> string \<Rightarrow> datetime \<Rightarrow> datetime \<Rightarrow> string option
    \<Rightarrow> claim_args \<Rightarrow> bridge_db \<Rightarrow> (bridge_error + bridge_lookup) \<times> bridge_db" where
  "claim_live_session sha raced uuid now now' api_key_id a db =
     (case claim_session sha raced uuid now now' (a\<lparr>ca_scope := durable_bridge_api_key_scope api_key_id\<rparr>) db of
        (Inl e, db') \<Rightarrow> (Inl e, db') | (Inr r, db') \<Rightarrow> (Inr (to_lookup r), db'))"

definition renew_live_session :: "string \<Rightarrow> string \<Rightarrow> int \<Rightarrow> datetime \<Rightarrow> pyfloat \<Rightarrow> string option \<Rightarrow> string option
    \<Rightarrow> bridge_state option \<Rightarrow> bridge_db \<Rightarrow> bridge_lookup option \<times> bridge_db" where
  "renew_live_session sid iid epoch now ttl turn response st db =
     (case renew_session sid iid epoch now ttl turn response st db of (r, db') \<Rightarrow> (map_option to_lookup r, db'))"

definition release_live_session :: "string \<Rightarrow> string \<Rightarrow> int \<Rightarrow> datetime \<Rightarrow> bool \<Rightarrow> bridge_db
    \<Rightarrow> bridge_lookup option \<times> bridge_db" where
  "release_live_session sid iid epoch now is_draining db =
     (case release_session sid iid epoch now is_draining db of (r, db') \<Rightarrow> (map_option to_lookup r, db'))"

definition register_turn_state :: "(string \<Rightarrow> string) \<Rightarrow> string \<Rightarrow> string option \<Rightarrow> string \<Rightarrow> int \<Rightarrow> string
    \<Rightarrow> pyfloat \<Rightarrow> datetime \<Rightarrow> bridge_db \<Rightarrow> bridge_db" where
  "register_turn_state sha sid api_key_id iid epoch turn_state ttl now db =
     snd (renew_session sid iid epoch now ttl (Some turn_state) None None
       (upsert_alias sha sid ''turn_state'' turn_state (durable_bridge_api_key_scope api_key_id) db))"

definition register_previous_response_id :: "(string \<Rightarrow> string) \<Rightarrow> string \<Rightarrow> string option \<Rightarrow> string \<Rightarrow> int \<Rightarrow> string
    \<Rightarrow> pyfloat \<Rightarrow> datetime \<Rightarrow> bridge_db \<Rightarrow> bridge_db" where
  "register_previous_response_id sha sid api_key_id iid epoch response_id ttl now db =
     snd (renew_session sid iid epoch now ttl None (Some response_id) None
       (upsert_alias sha sid ''previous_response_id'' response_id (durable_bridge_api_key_scope api_key_id) db))"

definition register_session_header :: "(string \<Rightarrow> string) \<Rightarrow> string \<Rightarrow> string option \<Rightarrow> string \<Rightarrow> bridge_db \<Rightarrow> bridge_db" where
  "register_session_header sha sid api_key_id session_header db =
     upsert_alias sha sid ''session_header'' session_header (durable_bridge_api_key_scope api_key_id) db"

section \<open>Overlapping transactions\<close>

text \<open>
  The tables, the rows that transactions in progress have loaded and changed, and the claims granted
  so far: session, epoch and instance.
\<close>

record bridge_system =
  bdb :: bridge_db
  loaded :: "(bridge_session \<times> bridge_session) multiset"
  grants :: "(string \<times> int \<times> string) set"

inductive bridge_step :: "(string \<Rightarrow> string) \<Rightarrow> bridge_system \<Rightarrow> bridge_system \<Rightarrow> bool" for sha where
  claim: "claim_session sha raced uuid now now' a (bdb s) = (Inr r, d) \<Longrightarrow>
    g = (if owner_instance_id r = Some (ca_instance_id a) then {(bs_id r, owner_epoch r, ca_instance_id a)} else {}) \<Longrightarrow>
    bridge_step sha s (s\<lparr>bdb := d, grants := grants s \<union> g\<rparr>)"
| load_renew: "get_session_by_id sid (bdb s) = Some r \<Longrightarrow> owned iid epoch r \<Longrightarrow>
    bridge_step sha s (s\<lparr>loaded := add_mset (r, renewed now ttl turn response st r) (loaded s)\<rparr>)"
| load_release: "get_session_by_id sid (bdb s) = Some r \<Longrightarrow> owned iid epoch r \<Longrightarrow>
    bridge_step sha s (s\<lparr>loaded := add_mset (r, released now is_draining r) (loaded s)\<rparr>)"
| load_drain: "r \<in> set (sessions (bdb s)) \<Longrightarrow> owner_active iid r \<Longrightarrow>
    bridge_step sha s (s\<lparr>loaded := add_mset (r, drained now r) (loaded s)\<rparr>)"
| commit: "(r, r') \<in># loaded s \<Longrightarrow>
    bridge_step sha s (s\<lparr>bdb := flush r r' (bdb s), loaded := loaded s - {#(r, r')#}\<rparr>)"
| add_alias: "bridge_step sha s (s\<lparr>bdb := upsert_alias sha sid kind value scope (bdb s)\<rparr>)"

definition initial_bridge :: bridge_system where
  "initial_bridge = \<lparr>bdb = \<lparr>sessions = [], aliases = []\<rparr>, loaded = {#}, grants = {}\<rparr>"

text \<open>A grant is covered when its epoch is over, or current and the row is free or the grantee's.\<close>

definition covers :: "bridge_session \<Rightarrow> int \<Rightarrow> string \<Rightarrow> bool" where
  "covers q e i \<longleftrightarrow> e < owner_epoch q \<or> (e = owner_epoch q \<and> owner_instance_id q \<in> {None, Some i})"

definition keeps_epoch :: "bridge_session \<Rightarrow> bridge_session \<Rightarrow> bool" where
  "keeps_epoch r r' \<longleftrightarrow> bs_id r' = bs_id r \<and> owner_epoch r' = owner_epoch r \<and>
     owner_instance_id r' \<in> {None, owner_instance_id r}"

definition bridge_inv :: "bridge_system \<Rightarrow> bool" where
  "bridge_inv s \<longleftrightarrow> distinct (map bs_id (sessions (bdb s))) \<and>
     (\<forall>p \<in># loaded s. keeps_epoch (fst p) (snd p)) \<and>
     (\<forall>sid e i. (sid, e, i) \<in> grants s \<longrightarrow> (\<exists>q \<in> set (sessions (bdb s)). bs_id q = sid \<and> covers q e i)) \<and>
     (\<forall>sid e i j. (sid, e, i) \<in> grants s \<longrightarrow> (sid, e, j) \<in> grants s \<longrightarrow> i = j)"

text \<open>A claim of the same session by the given instance, and the lease the row shows.\<close>

definition bridge_acquire :: "(string \<Rightarrow> string) \<Rightarrow> string \<Rightarrow> claim_args \<Rightarrow> datetime \<Rightarrow> string \<Rightarrow> bridge_session option
    \<Rightarrow> bool \<times> bridge_session option" where
  "bridge_acquire sha uuid a now iid row =
     (let a = a\<lparr>ca_instance_id := iid, ca_allow_takeover := False\<rparr>
      in case row of
           None \<Rightarrow> (True, Some (new_session sha uuid now a))
         | Some r \<Rightarrow> (case claim_existing now a r of None \<Rightarrow> (False, Some r) | Some r' \<Rightarrow> (True, Some r')))"

definition bridge_lease :: "bridge_session option \<Rightarrow> (string \<times> datetime) option" where
  "bridge_lease row = (case row of
     None \<Rightarrow> None
   | Some r \<Rightarrow> if bs_state r \<noteq> Bridge_ACTIVE then None
       else (case owner_instance_id r of None \<Rightarrow> None
         | Some i \<Rightarrow> (case lease_expires_at r of None \<Rightarrow> None | Some e \<Rightarrow> Some (i, e))))"

definition sample_claim :: "string \<Rightarrow> claim_args" where
  "sample_claim iid = \<lparr>ca_kind = ''k'', ca_value = ''v'', ca_scope = ''s'', ca_instance_id = iid,
     ca_lease_ttl_seconds = 1, ca_account_id = None, ca_model = None, ca_service_tier = None,
     ca_turn_state = None, ca_response_id = None, ca_allow_takeover = False\<rparr>"

definition sample_session :: "string option \<Rightarrow> int \<Rightarrow> datetime \<Rightarrow> bridge_session" where
  "sample_session owner epoch e = \<lparr>bs_id = ''u'', session_key_kind = ''k'', session_key_value = ''v'',
     session_key_hash = ''v'', bs_api_key_scope = ''s'', owner_instance_id = owner, owner_epoch = epoch,
     lease_expires_at = Some e, bs_state = Bridge_ACTIVE, bs_account_id = None, bs_model = None,
     bs_service_tier = None, latest_turn_state = None, latest_response_id = None, last_seen_at = e - 1000000,
     closed_at = None\<rparr>"

definition sample_bridge :: "string option \<Rightarrow> int \<Rightarrow> datetime \<Rightarrow> (string \<times> int \<times> string) set \<Rightarrow> bridge_system" where
  "sample_bridge owner epoch e gs =
     \<lparr>bdb = \<lparr>sessions = [sample_session owner epoch e], aliases = []\<rparr>, loaded = {#}, grants = gs\<rparr>"

section \<open>Rows after a commit\<close>

lemma changed_simps [simp]: "changed x x y = y" "changed x y x = y"
  by (simp_all add: changed_def)

lemma flush_row_self:
  assumes "bs_id r' = bs_id r" "session_key_kind r' = session_key_kind r" "session_key_value r' = session_key_value r"
    "session_key_hash r' = session_key_hash r" "bs_api_key_scope r' = bs_api_key_scope r"
  shows "flush_row r r' r = r'"
  using assms by (intro bridge_session.equality) (simp_all add: flush_row_def)

lemma flush_row_keys [simp]:
  "bs_id (flush_row r r' q) = bs_id q" "session_key (flush_row r r' q) = session_key q"
  by (simp_all add: flush_row_def session_key_def)

lemma sessions_flush: "sessions (flush r r' d) = map (\<lambda>q. if bs_id q = bs_id r then flush_row r r' q else q) (sessions d)"
  by (simp add: flush_def)

lemma flush_ids [simp]: "map bs_id (sessions (flush r r' d)) = map bs_id (sessions d)"
  by (simp add: sessions_flush)

lemma claim_existing_keys:
  assumes "claim_existing now a r = Some r'"
  shows "bs_id r' = bs_id r" "session_key_kind r' = session_key_kind r" "session_key_value r' = session_key_value r"
    "session_key_hash r' = session_key_hash r" "bs_api_key_scope r' = bs_api_key_scope r"
    "owner_instance_id r' = Some (ca_instance_id a)" "bs_state r' = Bridge_ACTIVE"
    "lease_expires_at r' = Some (lease_end now (ca_lease_ttl_seconds a))"
    "owner_epoch r' = (if owner_instance_id r = Some (ca_instance_id a) then owner_epoch r else owner_epoch r + 1)"
  using assms by (auto simp: claim_existing_def Let_def split: if_splits)

lemma claim_existing_None_iff: "claim_existing now a r = None \<longleftrightarrow> owner_instance_id r \<noteq> Some (ca_instance_id a) \<and>
    \<not> ca_allow_takeover a \<and> bs_state r = Bridge_ACTIVE \<and> (\<exists>e. lease_expires_at r = Some e \<and> now < e)"
  by (cases "bs_state r") (auto simp: claim_existing_def Let_def split: option.splits)

lemma flush_claimed:
  assumes "distinct (map bs_id (sessions d))" "r \<in> set (sessions d)" "claim_existing now a r = Some r'"
  shows "sessions (flush r r' d) = map (\<lambda>q. if bs_id q = bs_id r then r' else q) (sessions d)"
proof -
  have "flush_row r r' r = r'" by (rule flush_row_self) (use claim_existing_keys [OF assms(3)] in simp_all)
  then show ?thesis using distinct_key_eq [OF assms(1) _ assms(2)] by (auto simp: sessions_flush)
qed

lemma get_session_in: "get_session sha k v sc d = Some r \<Longrightarrow> r \<in> set (sessions d) \<and> session_key r = (k, sha v, sc)"
  by (auto simp: get_session_def dest: find_SomeD)

section \<open>Epochs\<close>

text \<open>The outcomes of a claim: refused, granted on an existing row, or granted on a new one.\<close>

lemma claim_attempt_cases:
  assumes "claim_attempt sha uuid now a x d = Some (r, d')"
  obtains (Refused) "x = Some r" "d' = d" "claim_existing now a r = None"
  | (Taken) q where "x = Some q" "claim_existing now a q = Some r" "d' = flush q r d"
  | (Inserted) "x = None" "r = new_session sha uuid now a" "\<forall>q \<in> set (sessions d). bs_id q \<noteq> uuid"
      "sessions d' = sessions d @ [r]"
  using assms
  by (auto simp: claim_attempt_def insert_session_def list_ex_iff new_session_def split: option.splits if_splits)

lemma claim_session_cases:
  assumes "claim_session sha raced uuid now now' a d = (Inr r, d')"
  obtains (Refused) t where "r \<in> set (sessions d)" "d' = d" "claim_existing t a r = None"
  | (Taken) q t where "q \<in> set (sessions d)" "claim_existing t a q = Some r" "d' = flush q r d"
  | (Inserted) t where "r = new_session sha uuid t a" "\<forall>q \<in> set (sessions d). bs_id q \<noteq> uuid"
      "sessions d' = sessions d @ [r]"
proof -
  let ?sel = "get_session sha (ca_kind a) (ca_value a) (ca_scope a) d"
  obtain t x where x: "x \<in> {None, ?sel}" "claim_attempt sha uuid t a x d = Some (r, d')"
    using assms by (auto simp: claim_session_def Let_def split: option.splits if_splits)
  from x(2) show ?thesis
  proof (cases rule: claim_attempt_cases)
    case Refused
    with x(1) have "?sel = Some r" by auto
    then show ?thesis using that(1) [of t] Refused(2,3) by (simp add: get_session_in)
  next
    case (Taken q)
    with x(1) have "?sel = Some q" by auto
    then have "q \<in> set (sessions d)" by (simp add: get_session_in)
    with Taken show ?thesis using that(2) [of q t] by simp
  next
    case Inserted
    then show ?thesis using that(3) [of t] by simp
  qed
qed

lemma covers_flush: "keeps_epoch r r' \<Longrightarrow> covers q e i \<Longrightarrow> covers (flush_row r r' q) e i"
  by (auto simp: covers_def keeps_epoch_def flush_row_def changed_def)

lemma grants_covered:
  assumes "\<forall>sid e i. (sid, e, i) \<in> G \<longrightarrow> (\<exists>q \<in> set rs. bs_id q = sid \<and> covers q e i)"
    and "\<And>q e i. q \<in> set rs \<Longrightarrow> covers q e i \<Longrightarrow> bs_id (f q) = bs_id q \<and> covers (f q) e i"
  shows "\<forall>sid e i. (sid, e, i) \<in> G \<longrightarrow> (\<exists>q \<in> set (map f rs). bs_id q = sid \<and> covers q e i)"
  using assms by (auto simp: image_iff) blast

lemma claim_grant_inv:
  assumes inv: "bridge_inv s" and c: "claim_session sha raced uuid now now' a (bdb s) = (Inr r, d)"
  shows "distinct (map bs_id (sessions d))"
    and "\<forall>sid e i. (sid, e, i) \<in> grants s \<longrightarrow> (\<exists>q \<in> set (sessions d). bs_id q = sid \<and> covers q e i)"
    and "owner_instance_id r = Some (ca_instance_id a) \<Longrightarrow> r \<in> set (sessions d) \<and>
      (\<forall>i. (bs_id r, owner_epoch r, i) \<in> grants s \<longrightarrow> i = ca_instance_id a)"
proof -
  have dist: "distinct (map bs_id (sessions (bdb s)))"
    and cov: "\<forall>sid e i. (sid, e, i) \<in> grants s \<longrightarrow> (\<exists>q \<in> set (sessions (bdb s)). bs_id q = sid \<and> covers q e i)"
    using inv by (simp_all add: bridge_inv_def)
  have "distinct (map bs_id (sessions d)) \<and>
      (\<forall>sid e i. (sid, e, i) \<in> grants s \<longrightarrow> (\<exists>q \<in> set (sessions d). bs_id q = sid \<and> covers q e i)) \<and>
      (owner_instance_id r = Some (ca_instance_id a) \<longrightarrow> r \<in> set (sessions d) \<and>
        (\<forall>i. (bs_id r, owner_epoch r, i) \<in> grants s \<longrightarrow> i = ca_instance_id a))"
    using c
  proof (cases rule: claim_session_cases)
    case (Refused t)
    then show ?thesis using dist cov by (simp add: claim_existing_None_iff)
  next
    case (Taken q t)
    note k = claim_existing_keys [OF Taken(2)]
    have d: "sessions d = map (\<lambda>p. if bs_id p = bs_id q then r else p) (sessions (bdb s))"
      unfolding Taken(3) by (rule flush_claimed [OF dist Taken(1,2)])
    have up: "bs_id (if bs_id p = bs_id q then r else p) = bs_id p \<and> covers (if bs_id p = bs_id q then r else p) e i"
      if "p \<in> set (sessions (bdb s))" "covers p e i" for p e i
      using that distinct_key_eq [OF dist that(1) Taken(1)] k(1,6,9) by (auto simp: covers_def)
    have "i = ca_instance_id a" if g: "(bs_id r, owner_epoch r, i) \<in> grants s" for i
    proof -
      from cov g obtain p where "p \<in> set (sessions (bdb s))" "bs_id p = bs_id r" "covers p (owner_epoch r) i" by blast
      with distinct_key_eq [OF dist _ Taken(1), of p] k(1,6,9) show ?thesis by (auto simp: covers_def split: if_splits)
    qed
    moreover have "r \<in> set (sessions d)" using Taken(1) by (auto simp: d image_iff)
    moreover have "distinct (map bs_id (sessions d))" using dist by (simp add: Taken(3))
    ultimately show ?thesis using grants_covered [OF cov up] unfolding d by blast
  next
    case (Inserted t)
    have "(bs_id r, owner_epoch r, i) \<notin> grants s" for i
      using cov Inserted(1,2) by (auto simp: new_session_def)
    moreover have "distinct (map bs_id (sessions d))"
      using dist Inserted by (auto simp: new_session_def)
    ultimately show ?thesis using cov Inserted(3) by auto
  qed
  then show "distinct (map bs_id (sessions d))"
    "\<forall>sid e i. (sid, e, i) \<in> grants s \<longrightarrow> (\<exists>q \<in> set (sessions d). bs_id q = sid \<and> covers q e i)"
    "owner_instance_id r = Some (ca_instance_id a) \<Longrightarrow> r \<in> set (sessions d) \<and>
      (\<forall>i. (bs_id r, owner_epoch r, i) \<in> grants s \<longrightarrow> i = ca_instance_id a)" by blast+
qed

lemma bridge_inv_step:
  assumes "bridge_step sha s s'" "bridge_inv s"
  shows "bridge_inv s'"
  using assms(1)
proof (cases rule: bridge_step.cases)
  case (claim raced uuid now now' a r d g)
  note c = claim_grant_inv [OF assms(2) claim(2)]
  have u: "\<forall>sid e i j. (sid, e, i) \<in> grants s \<union> g \<longrightarrow> (sid, e, j) \<in> grants s \<union> g \<longrightarrow> i = j"
    using c(3) assms(2) unfolding claim(3) bridge_inv_def by (auto split: if_splits)
  have "\<forall>sid e i. (sid, e, i) \<in> grants s \<union> g \<longrightarrow> (\<exists>q \<in> set (sessions d). bs_id q = sid \<and> covers q e i)"
    using c(2,3) unfolding claim(3) by (auto simp: covers_def split: if_splits)
  with u c(1) assms(2) show ?thesis unfolding claim(1) bridge_inv_def by simp
next
  case (commit r r')
  have k: "keeps_epoch r r'" using assms(2) commit(2) by (auto simp: bridge_inv_def)
  have "\<forall>sid e i. (sid, e, i) \<in> grants s \<longrightarrow> (\<exists>q \<in> set (sessions (flush r r' (bdb s))). bs_id q = sid \<and> covers q e i)"
    unfolding sessions_flush
    by (rule grants_covered) (use assms(2) covers_flush [OF k] in \<open>auto simp: bridge_inv_def\<close>)
  with assms(2) show ?thesis unfolding commit(1) bridge_inv_def by (auto dest: in_diffD)
qed (use assms(2) in \<open>auto simp: bridge_inv_def keeps_epoch_def renewed_def released_def drained_def upsert_alias_def Let_def\<close>)

lemma bridge_inv_reachable: "(bridge_step sha)\<^sup>*\<^sup>* initial_bridge s \<Longrightarrow> bridge_inv s"
  by (induction rule: rtranclp_induct) (simp add: initial_bridge_def bridge_inv_def, erule (1) bridge_inv_step)

text \<open>
  C20. Epochs fence: however claims, renewals, releases and drains of any number of instances overlap,
  also when they write rows they loaded before another transaction, no two instances are ever granted
  the same epoch of the same session, and the epoch of a row is never behind one that was granted.
\<close>

theorem epochs_fence:
  assumes "(bridge_step sha)\<^sup>*\<^sup>* initial_bridge s" and "(sid, e, i) \<in> grants s"
  shows "((sid, e, j) \<in> grants s \<longrightarrow> i = j) \<and>
    (\<exists>q \<in> set (sessions (bdb s)). bs_id q = sid \<and> e \<le> owner_epoch q \<and>
      (owner_epoch q = e \<longrightarrow> owner_instance_id q \<in> {None, Some i}))"
proof -
  have inv: "bridge_inv s" by (rule bridge_inv_reachable [OF assms(1)])
  then obtain q where "q \<in> set (sessions (bdb s))" "bs_id q = sid" "covers q e i"
    using assms(2) unfolding bridge_inv_def by blast
  moreover have "(sid, e, j) \<in> grants s \<longrightarrow> i = j" using inv assms(2) unfolding bridge_inv_def by blast
  ultimately show ?thesis by (auto simp: covers_def)
qed

lemma sample_bridge_step:
  "bridge_step (\<lambda>v. v) initial_bridge (sample_bridge (Some ''a'') 1 1000000 {(''u'', 1, ''a'')})"
proof -
  have "claim_session (\<lambda>v. v) False ''u'' 0 0 (sample_claim ''a'') (bdb initial_bridge) =
     (Inr (sample_session (Some ''a'') 1 1000000), bdb (sample_bridge (Some ''a'') 1 1000000 {(''u'', 1, ''a'')}))"
    by (simp add: claim_session_def claim_attempt_def insert_session_def get_session_def initial_bridge_def
        sample_bridge_def sample_session_def sample_claim_def new_session_def lease_end_def timedelta_float_def
        round_half_even_def)
  from bridge_step.claim [OF this refl] show ?thesis
    by (simp add: sample_bridge_def initial_bridge_def sample_session_def sample_claim_def)
qed

theorem epochs_fence_witness:
  "\<exists>q \<in> set (sessions (bdb (sample_bridge (Some ''a'') 1 1000000 {(''u'', 1, ''a'')}))). bs_id q = ''u'' \<and> 1 \<le> owner_epoch q"
  using epochs_fence [OF r_into_rtranclp [of "bridge_step (\<lambda>v. v)", OF sample_bridge_step], of "''u''" 1 "''a''"]
  by (simp add: sample_bridge_def)

section \<open>Claims\<close>

lemma get_session_flush:
  "get_session sha k v sc (flush r r' d) =
     map_option (\<lambda>q. if bs_id q = bs_id r then flush_row r r' q else q) (get_session sha k v sc d)"
  unfolding get_session_def sessions_flush by (rule find_map_key) simp

lemma get_session_claimed:
  assumes "get_session sha k v sc d = Some q" "claim_existing t a q = Some r"
  shows "get_session sha k v sc (flush q r d) = Some r"
proof -
  have "flush_row q r q = r" by (rule flush_row_self) (use claim_existing_keys [OF assms(2)] in simp_all)
  then show ?thesis using assms(1) by (simp add: get_session_flush)
qed

lemma claim_attempt_unique:
  assumes "get_session sha (ca_kind a) (ca_value a) (ca_scope a) d = Some q"
  shows "claim_attempt sha uuid now a None d = None"
proof -
  have "q \<in> set (sessions d)" "session_key q = session_key (new_session sha uuid now a)"
    using get_session_in [OF assms] by (simp_all add: session_key_def new_session_def)
  then show ?thesis by (auto simp: claim_attempt_def insert_session_def list_ex_iff)
qed

lemma claim_attempt_insert:
  assumes "\<forall>q \<in> set (sessions d). bs_id q \<noteq> uuid" "get_session sha (ca_kind a) (ca_value a) (ca_scope a) d = None"
  shows "claim_attempt sha uuid now a None d =
      Some (new_session sha uuid now a, d\<lparr>sessions := sessions d @ [new_session sha uuid now a]\<rparr>)"
    and "get_session sha (ca_kind a) (ca_value a) (ca_scope a) (d\<lparr>sessions := sessions d @ [new_session sha uuid now a]\<rparr>) =
      Some (new_session sha uuid now a)"
proof -
  have key: "session_key (new_session sha uuid now a) = (ca_kind a, sha (ca_value a), ca_scope a)"
    "bs_id (new_session sha uuid now a) = uuid" by (simp_all add: session_key_def new_session_def)
  have "\<forall>q \<in> set (sessions d). session_key q \<noteq> (ca_kind a, sha (ca_value a), ca_scope a)"
    using assms(2) by (simp add: get_session_def find_None_iff)
  then show "claim_attempt sha uuid now a None d =
      Some (new_session sha uuid now a, d\<lparr>sessions := sessions d @ [new_session sha uuid now a]\<rparr>)"
    using assms(1) key by (auto simp: claim_attempt_def insert_session_def list_ex_iff)
  show "get_session sha (ca_kind a) (ca_value a) (ca_scope a) (d\<lparr>sessions := sessions d @ [new_session sha uuid now a]\<rparr>) =
      Some (new_session sha uuid now a)"
    using assms(2) key(1) by (simp add: get_session_def find_append_none)
qed

text \<open>
  A claim always ends with the session in the hands of somebody, and with the right one: a new
  session starts at epoch 1; the owner keeps its epoch; another instance gets the next epoch unless
  the session is active, its lease is still running and no takeover is allowed, in which case the row
  of the owner is returned and nothing is written. This holds also when a concurrent claim inserts
  the row first.
\<close>

theorem claim_session_spec:
  assumes "\<forall>q \<in> set (sessions d). bs_id q \<noteq> uuid" and "claim_session sha raced uuid now now' a d = (res, d')"
    and "select = get_session sha (ca_kind a) (ca_value a) (ca_scope a)"
  shows "\<exists>r t. res = Inr r \<and> t \<in> {now, now'} \<and> select d' = Some r \<and>
    (case select d of
       None \<Rightarrow> owner_instance_id r = Some (ca_instance_id a) \<and> owner_epoch r = 1
     | Some q \<Rightarrow>
         if owner_instance_id q = Some (ca_instance_id a)
         then owner_instance_id r = Some (ca_instance_id a) \<and> owner_epoch r = owner_epoch q
         else if \<not> ca_allow_takeover a \<and> bs_state q = Bridge_ACTIVE \<and> (\<exists>e. lease_expires_at q = Some e \<and> t < e)
         then r = q \<and> d' = d
         else owner_instance_id r = Some (ca_instance_id a) \<and> owner_epoch r = owner_epoch q + 1)"
proof (cases "select d")
  case None
  note n = claim_attempt_insert [OF assms(1) None [unfolded assms(3)], of now]
  have res: "res = Inr (new_session sha uuid now a)" "select d' = Some (new_session sha uuid now a)"
    using assms(2) None n by (cases raced, simp_all add: claim_session_def Let_def assms(3))+
  then show ?thesis using None by (auto simp: new_session_def)
next
  case (Some q)
  then have q: "get_session sha (ca_kind a) (ca_value a) (ca_scope a) d = Some q" by (simp add: assms(3))
  obtain t where t: "t \<in> {now, now'}" "(res, d') = (case claim_existing t a q of None \<Rightarrow> (Inr q, d) | Some r \<Rightarrow> (Inr r, flush q r d))"
  proof
    let ?t = "if raced then now' else now"
    show "?t \<in> {now, now'}" by simp
    show "(res, d') = (case claim_existing ?t a q of None \<Rightarrow> (Inr q, d) | Some r \<Rightarrow> (Inr r, flush q r d))"
      using assms(2) claim_attempt_unique [OF q, of uuid now]
      by (cases raced) (auto simp: claim_session_def Let_def q claim_attempt_def split: option.splits)
  qed
  show ?thesis
  proof (cases "claim_existing t a q")
    case None
    with t have "res = Inr q" "d' = d" by simp_all
    with Some t(1) None [unfolded claim_existing_None_iff] show ?thesis by auto
  next
    case (Some r)
    with t have r: "res = Inr r" "d' = flush q r d" by simp_all
    have "\<not> (owner_instance_id q \<noteq> Some (ca_instance_id a) \<and> \<not> ca_allow_takeover a \<and> bs_state q = Bridge_ACTIVE \<and>
        (\<exists>e. lease_expires_at q = Some e \<and> t < e))" using Some claim_existing_None_iff [of t a q] by auto
    with r t(1) claim_existing_keys(6,9) [OF Some] get_session_claimed [OF q Some] \<open>select d = Some q\<close> show ?thesis
      by (intro exI [of _ r] exI [of _ t]) (auto simp: assms(3))
  qed
qed

theorem claim_session_spec_witness:
  "\<exists>r t. claim_session (\<lambda>v. v) False ''w'' 5 5 (sample_claim ''b'') (bdb (sample_bridge (Some ''a'') 1 1000000 {})) =
     (Inr r, bdb (sample_bridge (Some ''a'') 1 1000000 {})) \<and> t \<in> {5, 5 :: datetime} \<and> owner_instance_id r = Some ''a''"
proof -
  let ?d = "bdb (sample_bridge (Some ''a'') 1 1000000 {})"
  obtain res d' where c: "claim_session (\<lambda>v. v) False ''w'' 5 5 (sample_claim ''b'') ?d = (res, d')" by fastforce
  have "\<forall>q \<in> set (sessions ?d). bs_id q \<noteq> ''w''" by (simp add: sample_bridge_def sample_session_def)
  from claim_session_spec [OF this c refl] show ?thesis unfolding c
    by (auto simp: get_session_def session_key_def sample_bridge_def sample_session_def sample_claim_def)
qed

lemma bridge_acquire_cases:
  assumes "bridge_acquire sha uuid a now i row = (b, row')"
  obtains (New) "row = None" "b" "bridge_lease row' = Some (i, lease_end now (ca_lease_ttl_seconds a))"
  | (Kept) r where "row = Some r" "\<not> b" "row' = row"
  | (Claimed) r where "row = Some r" "b" "bridge_lease row' = Some (i, lease_end now (ca_lease_ttl_seconds a))"
      "claim_existing now (a\<lparr>ca_instance_id := i, ca_allow_takeover := False\<rparr>) r \<noteq> None"
proof (cases row)
  case None
  then have "(b, row') = (True, Some (new_session sha uuid now (a\<lparr>ca_instance_id := i, ca_allow_takeover := False\<rparr>)))"
    using assms by (simp add: bridge_acquire_def)
  then show ?thesis by (intro New [OF None]) (simp_all add: bridge_lease_def new_session_def)
next
  case (Some r)
  let ?a = "a\<lparr>ca_instance_id := i, ca_allow_takeover := False\<rparr>"
  have eq: "(b, row') = (case claim_existing now ?a r of None \<Rightarrow> (False, Some r) | Some r' \<Rightarrow> (True, Some r'))"
    using assms Some by (simp add: bridge_acquire_def)
  show ?thesis
  proof (cases "claim_existing now ?a r = None")
    case True
    with eq Some show ?thesis by (intro Kept [OF Some]) simp_all
  next
    case False
    then obtain r' where r': "claim_existing now ?a r = Some r'" by blast
    from eq r' claim_existing_keys(6-8) [OF r'] show ?thesis
      by (intro Claimed [OF Some _ _ False]) (simp_all add: bridge_lease_def)
  qed
qed

interpretation bridge: lease_store "bridge_acquire sha uuid a" bridge_lease "(<)" for sha uuid a
proof
  show "j = i" if "bridge_acquire sha uuid a now i s = (True, s')" "bridge_lease s = Some (j, e)" "now < e" for now i s s' j e
    using that(1)
  proof (cases rule: bridge_acquire_cases)
    case (Claimed r)
    then show ?thesis using that(2,3) by (auto simp: bridge_lease_def claim_existing_None_iff split: option.splits if_splits)
  qed (use that(2) in \<open>simp_all add: bridge_lease_def\<close>)
qed (auto elim!: bridge_acquire_cases)

text \<open>The claims of a session are attempts on its lease.\<close>

lemma claim_session_acquire:
  assumes "\<forall>q \<in> set (sessions d). bs_id q \<noteq> uuid" and "\<not> ca_allow_takeover a"
    and "claim_session sha False uuid now now' a d = (res, d')"
    and "select = get_session sha (ca_kind a) (ca_value a) (ca_scope a)"
  shows "bridge_acquire sha uuid a now (ca_instance_id a) (select d) =
      (\<exists>r. res = Inr r \<and> owner_instance_id r = Some (ca_instance_id a), select d')"
proof -
  have a: "a\<lparr>ca_allow_takeover := False\<rparr> = a" using assms(2) by simp
  show ?thesis
  proof (cases "select d")
    case None
    note n = claim_attempt_insert [OF assms(1) None [unfolded assms(4)], of now]
    have "res = Inr (new_session sha uuid now a)" "select d' = Some (new_session sha uuid now a)"
      using assms(3) None n by (simp_all add: claim_session_def Let_def assms(4))
    then show ?thesis by (simp add: bridge_acquire_def a None) (simp add: new_session_def)
  next
    case (Some q)
    then have q: "get_session sha (ca_kind a) (ca_value a) (ca_scope a) d = Some q" by (simp add: assms(4))
    have "(res, d') = (case claim_existing now a q of None \<Rightarrow> (Inr q, d) | Some r \<Rightarrow> (Inr r, flush q r d))"
      using assms(3) by (auto simp: claim_session_def Let_def q claim_attempt_def split: option.splits)
    then show ?thesis using Some q get_session_claimed [OF q, of now a] claim_existing_keys(6) [of now a q]
        claim_existing_None_iff [of now a q]
      by (cases "claim_existing now a q") (simp_all add: bridge_acquire_def a assms(4))
  qed
qed

section \<open>Aliases\<close>

lemma get_session_by_id_flush: "get_session_by_id sid (flush r r' d) =
     map_option (\<lambda>q. if bs_id q = bs_id r then flush_row r r' q else q) (get_session_by_id sid d)"
  unfolding get_session_by_id_def sessions_flush by (rule find_map_key) simp

lemma get_session_by_id_SomeD: "get_session_by_id sid d = Some r \<Longrightarrow> bs_id r = sid"
  by (auto simp: get_session_by_id_def dest: find_SomeD)

lemma upsert_alias_find:
  assumes "key = (\<lambda>a. alias_kind a = kind \<and> alias_hash a = sha value \<and> alias_scope a = scope)"
  shows "\<exists>a. find key (aliases (upsert_alias sha sid kind value scope d)) = Some a \<and> alias_session_id a = sid"
proof (cases "find key (aliases d)")
  case None
  then have "\<not> list_ex key (aliases d)" by (auto simp: find_None_iff list_ex_iff)
  then have "aliases (upsert_alias sha sid kind value scope d) = aliases d @ [\<lparr>alias_session_id = sid, alias_kind = kind,
      alias_value = value, alias_hash = sha value, alias_scope = scope\<rparr>]"
    unfolding upsert_alias_def Let_def assms [symmetric] by simp
  with None show ?thesis by (simp add: find_append_none) (simp add: assms)
next
  case (Some a)
  let ?f = "\<lambda>a. if key a then a\<lparr>alias_session_id := sid, alias_value := value\<rparr> else a"
  from Some have "list_ex key (aliases d)" "key a" by (auto simp: list_ex_iff dest: find_SomeD)
  then have "aliases (upsert_alias sha sid kind value scope d) = map ?f (aliases d)"
    unfolding upsert_alias_def Let_def assms [symmetric] by simp
  moreover have "key (?f x) = key x" for x by (simp add: assms)
  ultimately show ?thesis using Some \<open>key a\<close> by (simp add: find_map_key [of key ?f])
qed

lemma upsert_alias_resolves:
  assumes "get_session_by_id sid d' = Some r" "aliases d' = aliases (upsert_alias sha sid kind value scope d)"
  shows "resolve_alias sha kind value scope d' = Some r"
  using upsert_alias_find [OF refl, of kind sha "value" scope sid d] assms
  by (auto simp: resolve_alias_def)

lemma renew_session_id:
  assumes "get_session_by_id sid d = Some r"
  shows "\<exists>r'. get_session_by_id sid (snd (renew_session sid iid epoch now ttl turn resp st d)) = Some r' \<and> bs_id r' = sid \<and>
    (owned iid epoch r \<longrightarrow> r' = renewed now ttl turn resp st r)"
proof (cases "owned iid epoch r")
  case True
  have "flush_row r (renewed now ttl turn resp st r) r = renewed now ttl turn resp st r"
    by (rule flush_row_self) (simp_all add: renewed_def)
  with True get_session_by_id_SomeD [OF assms] show ?thesis
    by (simp add: renew_session_def assms get_session_by_id_flush Let_def) (simp add: renewed_def)
next
  case False
  with get_session_by_id_SomeD [OF assms] show ?thesis by (simp add: renew_session_def assms)
qed

lemma aliases_renew: "aliases (snd (renew_session sid iid epoch now ttl turn resp st d)) = aliases d"
  by (simp add: renew_session_def flush_def Let_def split: option.splits)

text \<open>
  C21. A turn state leads back to its session: once an instance has registered it, a request that
  carries it is directed to that session, whatever else the request carries, and if the instance still
  owned the session, the lookup shows the new turn state and the extended lease.
\<close>

theorem turn_state_leads_back:
  assumes "get_session_by_id sid d = Some r"
    and "d' = register_turn_state sha sid api_key_id iid epoch turn ttl now d"
  shows "\<exists>l. lookup_request_targets sha kind value api_key_id (Some turn) hdr prev d' = Some l \<and> lk_session_id l = sid \<and>
    (owned iid epoch r \<longrightarrow> lk_latest_turn_state l = Some turn \<and> lk_lease_expires_at l = Some (lease_end now ttl))"
proof -
  let ?scope = "durable_bridge_api_key_scope api_key_id"
  let ?u = "upsert_alias sha sid ''turn_state'' turn ?scope d"
  have u: "get_session_by_id sid ?u = Some r" using assms(1) by (simp add: get_session_by_id_def upsert_alias_def Let_def)
  from renew_session_id [OF u, of iid epoch now ttl "Some turn" None None] obtain r' where
    r': "get_session_by_id sid d' = Some r'" "bs_id r' = sid" "owned iid epoch r \<longrightarrow> r' = renewed now ttl (Some turn) None None r"
    unfolding assms(2) register_turn_state_def by blast
  have "aliases d' = aliases ?u" by (simp add: assms(2) register_turn_state_def aliases_renew)
  from upsert_alias_resolves [OF r'(1) this] have "resolve_alias sha ''turn_state'' turn ?scope d' = Some r'" .
  then show ?thesis using r'(2,3) by (auto simp: lookup_request_targets_def to_lookup_def renewed_def or_keep_def)
qed

theorem turn_state_leads_back_witness:
  "\<exists>l. lookup_request_targets (\<lambda>v. v) ''k'' ''other'' (Some ''s'') (Some ''ts'') None None
      (register_turn_state (\<lambda>v. v) ''u'' (Some ''s'') ''a'' 1 ''ts'' 1 0 (bdb (sample_bridge (Some ''a'') 1 1000000 {}))) = Some l \<and>
    lk_latest_turn_state l = Some ''ts''"
proof -
  have "get_session_by_id ''u'' (bdb (sample_bridge (Some ''a'') 1 1000000 {})) = Some (sample_session (Some ''a'') 1 1000000)"
    by (simp add: get_session_by_id_def sample_bridge_def sample_session_def)
  from turn_state_leads_back [OF this refl, of "\<lambda>v. v" "''k''" "''other''" "Some ''s''" "''ts''" None None "''a''" 1 1 0]
  show ?thesis by (auto simp: owned_def sample_session_def)
qed

section \<open>A release that overlaps a claim\<close>


end
