(* ===== verification/Sticky_Sessions.thy ===== *)
theory Sticky_Sessions
  imports Prelude "HOL-Library.List_Lexorder" "HOL-Library.Char_ord"
begin

text \<open>
  The mappings that keep a conversation on one account: \<open>app/modules/proxy/sticky_repository.py\<close>,
  \<open>app/modules/sticky_sessions/service.py\<close> and the cleanup of \<open>cleanup_scheduler.py\<close>. The table is a list
  of rows with the key and the kind as primary key; \<open>utcnow()\<close> and the clock of the database are
  arguments; the accounts a query joins are given as pairs of id and e-mail.

  The lemmas show that the table keeps one row for a key and a kind, that a mapping is found until it
  is older than its maximal age, and that a cleanup never changes what a lookup returns.
\<close>

section \<open>The table\<close>

datatype sticky_kind = CODEX_SESSION | STICKY_THREAD | PROMPT_CACHE

record sticky_row =
  st_key :: string
  st_kind :: sticky_kind
  st_account_id :: string
  st_created_at :: datetime
  st_updated_at :: datetime

definition is_entry :: "string \<Rightarrow> sticky_kind \<Rightarrow> sticky_row \<Rightarrow> bool" where
  [py_eval]: "is_entry key kind r = (st_key r = key \<and> st_kind r = kind)"

definition get_entry :: "string \<Rightarrow> sticky_kind \<Rightarrow> sticky_row list \<Rightarrow> sticky_row option" where
  [py_eval]: "get_entry key kind rows = (if key = [] then None else find (is_entry key kind) rows)"

definition sticky_delete :: "string \<Rightarrow> sticky_kind \<Rightarrow> sticky_row list \<Rightarrow> bool \<times> sticky_row list" where
  [py_eval]: "sticky_delete key kind rows =
     (if key = [] then (False, rows)
      else (list_ex (is_entry key kind) rows, filter (\<lambda>r. \<not> is_entry key kind r) rows))"

definition get_account_id :: "datetime \<Rightarrow> string \<Rightarrow> sticky_kind \<Rightarrow> int option \<Rightarrow> sticky_row list \<Rightarrow> string option \<times> sticky_row list" where
  [py_eval]: "get_account_id utcnow key kind max_age_seconds rows =
     (if key = [] then (None, rows)
      else case get_entry key kind rows of
        None \<Rightarrow> (None, rows)
      | Some row \<Rightarrow>
          if (case max_age_seconds of None \<Rightarrow> False | Some age \<Rightarrow> st_updated_at row < utcnow - timedelta_seconds age)
          then (None, snd (sticky_delete key kind rows))
          else (Some (st_account_id row), rows))"

text \<open>\<open>INSERT ... ON CONFLICT DO UPDATE\<close>; \<open>None\<close> is the \<open>RuntimeError\<close> when the row is not found afterwards.\<close>

definition upsert_rows :: "datetime \<Rightarrow> string \<Rightarrow> string \<Rightarrow> sticky_kind \<Rightarrow> sticky_row list \<Rightarrow> sticky_row list" where
  [py_eval]: "upsert_rows now key acc kind rows =
     (if list_ex (is_entry key kind) rows
      then map (\<lambda>r. if is_entry key kind r then r\<lparr>st_account_id := acc, st_updated_at := now\<rparr> else r) rows
      else rows @ [\<lparr>st_key = key, st_kind = kind, st_account_id = acc, st_created_at = now, st_updated_at = now\<rparr>])"

definition sticky_upsert :: "datetime \<Rightarrow> string \<Rightarrow> string \<Rightarrow> sticky_kind \<Rightarrow> sticky_row list \<Rightarrow> sticky_row option \<times> sticky_row list" where
  [py_eval]: "sticky_upsert now key acc kind rows =
     (let rows = upsert_rows now key acc kind rows in (get_entry key kind rows, rows))"

definition delete_entries :: "(string \<times> sticky_kind) list \<Rightarrow> sticky_row list \<Rightarrow> (string \<times> sticky_kind) list \<times> sticky_row list" where
  [py_eval]: "delete_entries entries rows =
     (let targets = filter (\<lambda>t. fst t \<noteq> []) entries;
          hit = (\<lambda>r. (st_key r, st_kind r) \<in> set targets)
      in if targets = [] then ([], rows)
         else (map (\<lambda>r. (st_key r, st_kind r)) (filter hit rows), filter (\<lambda>r. \<not> hit r) rows))"

text \<open>\<open>LIKE\<close>: a percent sign matches any text and an underscore any character.\<close>

fun sql_like :: "string \<Rightarrow> string \<Rightarrow> bool" where
  "sql_like [] s = (s = [])"
| "sql_like (p # ps) [] = (p = CHR ''%'' \<and> sql_like ps [])"
| "sql_like (p # ps) (c # s) =
     (if p = CHR ''%'' then sql_like ps (c # s) \<or> sql_like (p # ps) s
      else (p = CHR ''_'' \<or> p = c) \<and> sql_like ps s)"

definition sql_contains :: "string \<Rightarrow> string \<Rightarrow> bool" where
  [py_eval]: "sql_contains q s = sql_like (''%'' @ py_lower q @ ''%'') (py_lower s)"

record sticky_filter =
  sf_kind :: "sticky_kind option"
  sf_updated_before :: "datetime option"
  sf_account_query :: "string option"
  sf_key_query :: "string option"

definition row_matches :: "sticky_filter \<Rightarrow> sticky_row \<Rightarrow> bool" where
  [py_eval]: "row_matches f r =
     ((case sf_kind f of None \<Rightarrow> True | Some k \<Rightarrow> st_kind r = k)
      \<and> (case sf_updated_before f of None \<Rightarrow> True | Some t \<Rightarrow> st_updated_at r < t)
      \<and> (truthy_str (sf_key_query f) \<longrightarrow> sql_contains (the (sf_key_query f)) (st_key r)))"

definition delete_matching_entries :: "(string \<times> string) list \<Rightarrow> sticky_filter \<Rightarrow> sticky_row list \<Rightarrow> int \<times> sticky_row list" where
  [py_eval]: "delete_matching_entries emails f rows =
     (let hit = (\<lambda>r. row_matches f r \<and> (truthy_str (sf_account_query f) \<longrightarrow>
            st_account_id r \<in> set (map fst (filter (\<lambda>a. sql_contains (the (sf_account_query f)) (snd a)) emails))))
      in (int (length (filter hit rows)), filter (\<lambda>r. \<not> hit r) rows))"

text \<open>The rows joined with the e-mail of their account; a row without an account is left out.\<close>

definition joined :: "(string \<times> string) list \<Rightarrow> sticky_filter \<Rightarrow> sticky_row list \<Rightarrow> (sticky_row \<times> string) list" where
  [py_eval]: "joined emails f rows = filter (\<lambda>(r, email). row_matches f r \<and>
       (truthy_str (sf_account_query f) \<longrightarrow> sql_contains (the (sf_account_query f)) email))
     (List.map_filter (\<lambda>r. map_option (Pair r) (map_of emails (st_account_id r))) rows)"

datatype sort_by = By_Updated_At | By_Created_At | By_Account | By_Key
datatype sort_dir = Asc | Desc

text \<open>Ordering by several columns: a stable sort by each, the first column last.\<close>

definition order_rows :: "sort_dir \<Rightarrow> ('a \<Rightarrow> 'k :: linorder) \<Rightarrow> 'a list \<Rightarrow> 'a list" where
  [py_eval]: "order_rows d f xs = (case d of Asc \<Rightarrow> sort_key f xs | Desc \<Rightarrow> rev (sort_key f (rev xs)))"

definition build_order_by :: "sort_by \<Rightarrow> sort_dir \<Rightarrow> (sticky_row \<times> string) list \<Rightarrow> (sticky_row \<times> string) list" where
  [py_eval]: "build_order_by by d xs =
     (let created = order_rows Desc (\<lambda>p. st_created_at (fst p)); updated = order_rows Desc (\<lambda>p. st_updated_at (fst p));
          key = order_rows Asc (\<lambda>p. st_key (fst p))
      in case by of
        By_Updated_At \<Rightarrow> order_rows d (\<lambda>p. st_updated_at (fst p)) (created (key xs))
      | By_Created_At \<Rightarrow> order_rows d (\<lambda>p. st_created_at (fst p)) (updated (key xs))
      | By_Account \<Rightarrow> order_rows d snd (updated (key xs))
      | By_Key \<Rightarrow> order_rows d (\<lambda>p. st_key (fst p)) (updated (created xs)))"

definition list_entry_identifiers :: "(string \<times> string) list \<Rightarrow> sticky_filter \<Rightarrow> sticky_row list \<Rightarrow> (string \<times> sticky_kind) list" where
  [py_eval]: "list_entry_identifiers emails f rows =
     map (\<lambda>p. (st_key (fst p), st_kind (fst p))) (build_order_by By_Updated_At Desc (joined emails f rows))"

definition list_entries :: "(string \<times> string) list \<Rightarrow> sticky_filter \<Rightarrow> sort_by \<Rightarrow> sort_dir \<Rightarrow> int \<Rightarrow> int option \<Rightarrow> sticky_row list
    \<Rightarrow> (sticky_row \<times> string) list" where
  [py_eval]: "list_entries emails f by d offset limit rows =
     (let ordered = build_order_by by d (joined emails f rows);
          shifted = (if offset > 0 then drop (nat offset) ordered else ordered)
      in case limit of None \<Rightarrow> shifted | Some n \<Rightarrow> take (nat n) shifted)"

definition count_entries :: "(string \<times> string) list \<Rightarrow> sticky_filter \<Rightarrow> sticky_row list \<Rightarrow> int" where
  [py_eval]: "count_entries emails f rows = int (length (joined emails f rows))"

definition purge_before :: "datetime \<Rightarrow> sticky_kind option \<Rightarrow> sticky_row list \<Rightarrow> int \<times> sticky_row list" where
  [py_eval]: "purge_before cutoff kind rows =
     (let hit = (\<lambda>r. st_updated_at r < cutoff \<and> (case kind of None \<Rightarrow> True | Some k \<Rightarrow> st_kind r = k))
      in (int (length (filter hit rows)), filter (\<lambda>r. \<not> hit r) rows))"

definition purge_prompt_cache_before :: "datetime \<Rightarrow> sticky_row list \<Rightarrow> int \<times> sticky_row list" where
  [py_eval]: "purge_prompt_cache_before cutoff rows = purge_before cutoff (Some PROMPT_CACHE) rows"

section \<open>The service\<close>

text \<open>\<open>ttl\<close> is the setting \<open>openai_cache_affinity_max_age_seconds\<close>; the entries of a page read the clock one by one.\<close>

record sticky_entry =
  se_key :: string
  se_display_name :: string
  se_kind :: sticky_kind
  se_created_at :: datetime
  se_updated_at :: datetime
  se_expires_at :: "datetime option"
  se_is_stale :: bool

definition to_entry :: "datetime \<Rightarrow> int \<Rightarrow> sticky_row \<times> string \<Rightarrow> sticky_entry" where
  [py_eval]: "to_entry utcnow ttl p = (case p of (r, display_name) \<Rightarrow>
     (let expires = st_updated_at r + timedelta_seconds ttl
      in \<lparr>se_key = st_key r, se_display_name = display_name, se_kind = st_kind r, se_created_at = st_created_at r,
          se_updated_at = st_updated_at r, se_expires_at = (if st_kind r = PROMPT_CACHE then Some expires else None),
          se_is_stale = (st_kind r = PROMPT_CACHE \<and> expires \<le> utcnow)\<rparr>))"

definition count_stale_prompt_cache_entries :: "(string \<times> string) list \<Rightarrow> sticky_kind option \<Rightarrow> datetime \<Rightarrow> sticky_row list \<Rightarrow> int" where
  [py_eval]: "count_stale_prompt_cache_entries emails kind stale_cutoff rows =
     (if kind \<notin> {None, Some PROMPT_CACHE} then 0
      else count_entries emails \<lparr>sf_kind = Some PROMPT_CACHE, sf_updated_before = Some stale_cutoff, sf_account_query = None, sf_key_query = None\<rparr> rows)"

definition strip_query :: "string option \<Rightarrow> string option" where
  [py_eval]: "strip_query q = (if truthy_str q then Some (strip (the q)) else None)"

record sticky_list =
  sl_entries :: "sticky_entry list"
  sl_stale_prompt_cache_count :: int
  sl_total :: int
  sl_has_more :: bool

definition service_list_entries :: "datetime \<Rightarrow> (nat \<Rightarrow> datetime) \<Rightarrow> int \<Rightarrow> (string \<times> string) list \<Rightarrow> sticky_kind option \<Rightarrow> bool \<Rightarrow> string option \<Rightarrow> string option
    \<Rightarrow> sort_by \<Rightarrow> sort_dir \<Rightarrow> int \<Rightarrow> int \<Rightarrow> sticky_row list \<Rightarrow> sticky_list" where
  [py_eval]: "service_list_entries utcnow row_now ttl emails kind stale_only account_query key_query by d offset limit rows =
     (let stale_cutoff = utcnow - timedelta_seconds ttl;
          stale_count = count_stale_prompt_cache_entries emails kind stale_cutoff rows
      in if stale_only \<and> kind \<notin> {None, Some PROMPT_CACHE}
         then \<lparr>sl_entries = [], sl_stale_prompt_cache_count = stale_count, sl_total = 0, sl_has_more = False\<rparr>
         else (let f = \<lparr>sf_kind = (if stale_only then Some PROMPT_CACHE else kind),
                       sf_updated_before = (if stale_only then Some stale_cutoff else None),
                       sf_account_query = strip_query account_query, sf_key_query = strip_query key_query\<rparr>;
                   total = count_entries emails f rows;
                   rows = list_entries emails f by d offset (Some limit) rows;
                   entries = map (\<lambda>i. to_entry (row_now i) ttl (rows ! i)) [0..<length rows]
               in \<lparr>sl_entries = entries, sl_stale_prompt_cache_count = stale_count, sl_total = total,
                   sl_has_more = (offset + int (length entries) < total)\<rparr>))"

text \<open>The targets are the entries with a key, each once; those not deleted are reported.\<close>

fun unique_targets :: "(string \<times> sticky_kind) list \<Rightarrow> (string \<times> sticky_kind) list \<Rightarrow> (string \<times> sticky_kind) list" where
  "unique_targets [] seen = []"
| "unique_targets (t # ts) seen =
     (if fst t = [] \<or> t \<in> set seen then unique_targets ts seen else t # unique_targets ts (t # seen))"

definition service_delete_entries :: "(string \<times> sticky_kind) list \<Rightarrow> sticky_row list
    \<Rightarrow> ((string \<times> sticky_kind) list \<times> (string \<times> sticky_kind \<times> string) list) \<times> sticky_row list" where
  [py_eval]: "service_delete_entries entries rows =
     (let targets = unique_targets entries []
      in case delete_entries targets rows of (deleted, rows) \<Rightarrow>
           ((deleted, map (\<lambda>(key, kind). (key, kind, ''not_found'')) (filter (\<lambda>t. t \<notin> set deleted) targets)), rows))"

definition delete_filtered_entries :: "datetime \<Rightarrow> int \<Rightarrow> (string \<times> string) list \<Rightarrow> sticky_kind option \<Rightarrow> bool \<Rightarrow> string option \<Rightarrow> string option
    \<Rightarrow> sticky_row list \<Rightarrow> int \<times> sticky_row list" where
  [py_eval]: "delete_filtered_entries utcnow ttl emails kind stale_only account_query key_query rows =
     (let stale_cutoff = utcnow - timedelta_seconds ttl
      in if stale_only \<and> kind \<notin> {None, Some PROMPT_CACHE} then (0, rows)
         else delete_matching_entries emails \<lparr>sf_kind = (if stale_only then Some PROMPT_CACHE else kind),
                sf_updated_before = (if stale_only then Some stale_cutoff else None),
                sf_account_query = strip_query account_query, sf_key_query = strip_query key_query\<rparr> rows)"

definition purge_entries :: "datetime \<Rightarrow> int \<Rightarrow> sticky_row list \<Rightarrow> int \<times> sticky_row list" where
  [py_eval]: "purge_entries utcnow ttl rows = purge_prompt_cache_before (utcnow - timedelta_seconds ttl) rows"

text \<open>One round of the scheduler: only the leader purges; a failing session leaves the table as it is.\<close>

definition cleanup_once :: "bool \<Rightarrow> bool \<Rightarrow> datetime \<Rightarrow> int \<Rightarrow> sticky_row list \<Rightarrow> sticky_row list" where
  [py_eval]: "cleanup_once leader session_fails utcnow ttl rows =
     (if \<not> leader \<or> session_fails then rows else snd (purge_prompt_cache_before (utcnow - timedelta_seconds ttl) rows))"

section \<open>Lookups, cleanups and deletions\<close>

definition table_ok :: "sticky_row list \<Rightarrow> bool" where
  "table_ok rows \<longleftrightarrow> distinct (map (\<lambda>r. (st_key r, st_kind r)) rows)"

lemma find_upsert_map:
  "find (is_entry key' kind') (map (\<lambda>r. if is_entry key kind r then r\<lparr>st_account_id := acc, st_updated_at := now\<rparr> else r) rows) =
     (if key' = key \<and> kind' = kind then map_option (\<lambda>r. r\<lparr>st_account_id := acc, st_updated_at := now\<rparr>) (find (is_entry key kind) rows)
      else find (is_entry key' kind') rows)"
  by (induction rows) (auto simp: is_entry_def [abs_def])

lemma list_ex_find: "list_ex P xs \<longleftrightarrow> find P xs \<noteq> None"
  by (auto simp: find_None_iff list_ex_iff)

lemma find_filter_other: "(\<And>r. P r \<Longrightarrow> Q r) \<Longrightarrow> find P (filter Q rows) = find P rows"
  by (induction rows) auto

lemma upsert_find:
  "find (is_entry key' kind') (upsert_rows now key acc kind rows) =
     (if key' = key \<and> kind' = kind
      then Some (case find (is_entry key kind) rows of
          Some r \<Rightarrow> r\<lparr>st_account_id := acc, st_updated_at := now\<rparr>
        | None \<Rightarrow> \<lparr>st_key = key, st_kind = kind, st_account_id = acc, st_created_at = now, st_updated_at = now\<rparr>)
      else find (is_entry key' kind') rows)"
proof (cases "find (is_entry key kind) rows")
  case None
  then have "upsert_rows now key acc kind rows =
      rows @ [\<lparr>st_key = key, st_kind = kind, st_account_id = acc, st_created_at = now, st_updated_at = now\<rparr>]"
    by (simp add: upsert_rows_def list_ex_find)
  with None show ?thesis by (auto simp: find_append is_entry_def [abs_def] split: option.splits)
next
  case (Some r)
  then show ?thesis by (simp add: upsert_rows_def list_ex_find find_upsert_map)
qed

lemma upsert_get:
  "key \<noteq> [] \<Longrightarrow> \<exists>r. get_entry key kind (upsert_rows now key acc kind rows) = Some r \<and> st_account_id r = acc \<and> st_updated_at r = now"
  by (auto simp: get_entry_def upsert_find split: option.splits)

lemma upsert_get_other: "(key', kind') \<noteq> (key, kind) \<Longrightarrow> get_entry key' kind' (upsert_rows now key acc kind rows) = get_entry key' kind' rows"
  by (auto simp: get_entry_def upsert_find)

lemma table_ok_filter: "table_ok rows \<Longrightarrow> table_ok (filter P rows)"
  by (simp add: table_ok_def distinct_map_filter)

lemma table_ok_upsert: "table_ok rows \<Longrightarrow> table_ok (upsert_rows now key acc kind rows)"
proof (cases "list_ex (is_entry key kind) rows")
  case True
  moreover have "map (\<lambda>r. (st_key r, st_kind r)) (map (\<lambda>r. if is_entry key kind r then r\<lparr>st_account_id := acc, st_updated_at := now\<rparr> else r) rows)
      = map (\<lambda>r. (st_key r, st_kind r)) rows" by (induction rows) auto
  moreover assume "table_ok rows"
  ultimately show ?thesis by (simp only: table_ok_def upsert_rows_def if_True)
next
  case False
  moreover assume "table_ok rows"
  ultimately show ?thesis by (auto simp: table_ok_def upsert_rows_def list_ex_iff is_entry_def)
qed

lemma delete_get:
  "get_entry key' kind' (snd (sticky_delete key kind rows)) =
     (if key' = key \<and> kind' = kind then None else get_entry key' kind' rows)"
  by (auto simp: sticky_delete_def get_entry_def find_None_iff intro!: find_filter_other) (auto simp: is_entry_def)

text \<open>What a table routes: the account of a key and a kind under a maximal age.\<close>

definition routes :: "datetime \<Rightarrow> int option \<Rightarrow> sticky_row list \<Rightarrow> string \<Rightarrow> sticky_kind \<Rightarrow> string option" where
  "routes utcnow max_age rows key kind = fst (get_account_id utcnow key kind max_age rows)"

lemma find_purge:
  assumes "table_ok rows"
  shows "find (is_entry key kind) (filter Q rows) =
    (case find (is_entry key kind) rows of None \<Rightarrow> None | Some r \<Rightarrow> if Q r then Some r else None)"
  using assms
proof (induction rows)
  case (Cons r rows)
  have "find (is_entry key kind) rows = None" if "is_entry key kind r"
    using that Cons.prems by (auto simp: table_ok_def find_None_iff is_entry_def image_iff)
  with Cons show ?case by (cases "is_entry key kind r") (auto simp: table_ok_def find_None_iff)
qed simp

lemma routes_iff:
  "routes utcnow max_age rows key kind =
     (case get_entry key kind rows of None \<Rightarrow> None
      | Some r \<Rightarrow> if (case max_age of None \<Rightarrow> False | Some age \<Rightarrow> st_updated_at r < utcnow - timedelta_seconds age) then None
                 else Some (st_account_id r))"
  by (simp add: routes_def get_account_id_def get_entry_def split: option.splits)

lemma lookup_deletes_only_expired:
  "get_entry key' kind' (snd (get_account_id utcnow key kind max_age rows)) =
     (if key' = key \<and> kind' = kind \<and> routes utcnow max_age rows key kind = None then None else get_entry key' kind' rows)"
  by (cases "get_entry key kind rows") (auto simp: routes_iff get_account_id_def delete_get split: option.splits, auto simp: get_entry_def)

text \<open>
  C38. Cleanup is invisible to routing. After a cleanup round at \<open>utcnow\<close>, by any replica and whether or
  not it is the leader, every later lookup under the same maximal age returns the account it would
  have returned without it; lookups of other kinds are unchanged under every maximal age.
\<close>

theorem cleanup_keeps_routes:
  assumes "table_ok rows" and "utcnow \<le> later"
  shows "routes later (Some ttl) (cleanup_once leader fails utcnow ttl rows) key PROMPT_CACHE = routes later (Some ttl) rows key PROMPT_CACHE
    \<and> (kind \<noteq> PROMPT_CACHE \<longrightarrow> routes later age (cleanup_once leader fails utcnow ttl rows) key kind = routes later age rows key kind)"
  using assms
  by (auto simp: routes_iff cleanup_once_def purge_prompt_cache_before_def purge_before_def Let_def get_entry_def find_purge
        split: option.splits dest!: find_SomeD) (auto simp: is_entry_def)

text \<open>Witness: of two prompt-cache rows and one session row the cleanup removes the old prompt-cache row, which no lookup returned any more.\<close>

definition sample_table :: "sticky_row list" where
  [py_eval]: "sample_table =
     [\<lparr>st_key = ''a'', st_kind = PROMPT_CACHE, st_account_id = ''acc1'', st_created_at = 0, st_updated_at = 0\<rparr>,
      \<lparr>st_key = ''b'', st_kind = PROMPT_CACHE, st_account_id = ''acc2'', st_created_at = 0, st_updated_at = 50000000\<rparr>,
      \<lparr>st_key = ''a'', st_kind = CODEX_SESSION, st_account_id = ''acc3'', st_created_at = 0, st_updated_at = 0\<rparr>]"

theorem cleanup_keeps_routes_witness:
  "length (cleanup_once True False 60000000 30 sample_table) = 2
   \<and> routes 61000000 (Some 30) (cleanup_once True False 60000000 30 sample_table) ''b'' PROMPT_CACHE = Some ''acc2''
   \<and> routes 61000000 (Some 30) (cleanup_once True False 60000000 30 sample_table) ''a'' PROMPT_CACHE = None
   \<and> routes 61000000 None (cleanup_once True False 60000000 30 sample_table) ''a'' CODEX_SESSION = Some ''acc3''"
proof -
  have ok: "table_ok sample_table" by (simp add: table_ok_def sample_table_def)
  have b: "routes 61000000 (Some 30) (cleanup_once True False 60000000 30 sample_table) ''b'' PROMPT_CACHE = routes 61000000 (Some 30) sample_table ''b'' PROMPT_CACHE"
    using cleanup_keeps_routes [OF ok, of 60000000 61000000 30 True False "''b''"] by simp
  have a: "routes 61000000 (Some 30) (cleanup_once True False 60000000 30 sample_table) ''a'' PROMPT_CACHE = routes 61000000 (Some 30) sample_table ''a'' PROMPT_CACHE"
    using cleanup_keeps_routes [OF ok, of 60000000 61000000 30 True False "''a''"] by simp
  have c: "routes 61000000 None (cleanup_once True False 60000000 30 sample_table) ''a'' CODEX_SESSION = routes 61000000 None sample_table ''a'' CODEX_SESSION"
    using cleanup_keeps_routes [OF ok, of 60000000 61000000 30 True False "''a''" CODEX_SESSION None] by simp
  show ?thesis unfolding a b c by (simp add: py_eval routes_iff)
qed

text \<open>
  At the very instant a row expires the service lists it as stale, while a lookup still routes it and
  neither the count of stale rows nor the cleanup includes it; at every other instant they agree.
\<close>

lemma stale_flag_boundary:
  assumes "st_kind r = PROMPT_CACHE" "find (is_entry (st_key r) PROMPT_CACHE) rows = Some r" "st_key r \<noteq> []"
  shows "se_is_stale (to_entry now ttl (r, email)) \<longleftrightarrow>
      routes now (Some ttl) rows (st_key r) PROMPT_CACHE = None \<or> st_updated_at r + timedelta_seconds ttl = now"
  using assms by (auto simp: to_entry_def Let_def routes_iff get_entry_def)

lemma set_unique_targets: "set (unique_targets ts seen) = {t \<in> set ts. fst t \<noteq> []} - set seen"
  by (induction ts seen rule: unique_targets.induct) auto

lemma delete_entries_eq:
  assumes "\<forall>t \<in> set ts. fst t \<noteq> []"
  shows "delete_entries ts rows = (map (\<lambda>r. (st_key r, st_kind r)) (filter (\<lambda>r. (st_key r, st_kind r) \<in> set ts) rows),
    filter (\<lambda>r. (st_key r, st_kind r) \<notin> set ts) rows)"
proof -
  have "filter (\<lambda>t. fst t \<noteq> []) ts = ts" using assms by simp
  then show ?thesis by (cases "ts = []") (simp_all add: delete_entries_def Let_def)
qed

lemma service_delete_spec:
  assumes "service_delete_entries entries rows = ((deleted, failed), rows')"
  defines "targets \<equiv> {t \<in> set entries. fst t \<noteq> []}"
  shows "rows' = filter (\<lambda>r. (st_key r, st_kind r) \<notin> targets) rows"
    and "set deleted = targets \<inter> (\<lambda>r. (st_key r, st_kind r)) ` set rows"
    and "set failed = (\<lambda>(key, kind). (key, kind, ''not_found'')) ` (targets - set deleted)"
proof -
  have t: "set (unique_targets entries []) = targets" by (simp add: set_unique_targets targets_def)
  then have e: "delete_entries (unique_targets entries []) rows =
      (map (\<lambda>r. (st_key r, st_kind r)) (filter (\<lambda>r. (st_key r, st_kind r) \<in> targets) rows),
       filter (\<lambda>r. (st_key r, st_kind r) \<notin> targets) rows)"
    by (simp add: delete_entries_eq targets_def)
  from assms(1) have d: "rows' = filter (\<lambda>r. (st_key r, st_kind r) \<notin> targets) rows"
      "deleted = map (\<lambda>r. (st_key r, st_kind r)) (filter (\<lambda>r. (st_key r, st_kind r) \<in> targets) rows)"
      "failed = map (\<lambda>(key, kind). (key, kind, ''not_found'')) (filter (\<lambda>t. t \<notin> set deleted) (unique_targets entries []))"
    by (auto simp: service_delete_entries_def Let_def e simp del: filter_set)
  show "rows' = filter (\<lambda>r. (st_key r, st_kind r) \<notin> targets) rows" by (rule d(1))
  show "set deleted = targets \<inter> (\<lambda>r. (st_key r, st_kind r)) ` set rows" by (auto simp: d(2))
  have "set (filter (\<lambda>t. t \<notin> set deleted) (unique_targets entries [])) = targets - set deleted" by (auto simp: t)
  then show "set failed = (\<lambda>(key, kind). (key, kind, ''not_found'')) ` (targets - set deleted)" by (simp only: d(3) set_map)
qed

end
