(* ===== verification/Quota_Keys.thy ===== *)
theory Quota_Keys
  imports Prelude
begin

text \<open>
  The registry of additional quotas (\<open>app/modules/usage/additional_quota_keys.py\<close> and
  \<open>app/modules/proxy/additional_model_limits.py\<close>) and the registry of upstream models
  (\<open>app/core/openai/model_registry.py\<close>). A frozenset is a list without repetition whose order is the order
  the loops visit it in; a registry file is the list of its parsed entries.

  The lemmas show that the maps of a registry are consistent with each other, that resolving a quota
  name is idempotent, that every alias of a quota leads to its key, and what a refresh of the model
  registry keeps.
\<close>

section \<open>Identifiers\<close>

definition is_ident :: "char \<Rightarrow> bool" where
  [py_eval]: "is_ident c = (let n = (of_char c :: nat) in (97 \<le> n \<and> n \<le> 122) \<or> (48 \<le> n \<and> n \<le> 57))"

text \<open>\<open>re.sub\<close> of every run of other characters by one underscore; the flag says that a run has begun.\<close>

fun sub_runs :: "bool \<Rightarrow> string \<Rightarrow> string" where
  "sub_runs run [] = []"
| "sub_runs run (c # cs) =
     (if is_ident c then c # sub_runs False cs
      else if run then sub_runs True cs else CHR ''_'' # sub_runs True cs)"

definition strip_underscores :: "string \<Rightarrow> string" where
  [py_eval]: "strip_underscores s =
     rev (dropWhile (\<lambda>c. c = CHR ''_'') (rev (dropWhile (\<lambda>c. c = CHR ''_'') s)))"

definition normalize_identifier :: "string option \<Rightarrow> string option" where
  [py_eval]: "normalize_identifier value = (case value of None \<Rightarrow> None
     | Some v \<Rightarrow> (let n = strip_underscores (sub_runs False (py_lower (strip v))) in if n = [] then None else Some n))"

section \<open>The quota registry\<close>

record quota_entry =
  qe_quota_key :: "string option"
  qe_display_label :: "string option"
  qe_model_ids :: "string list"
  qe_quota_key_aliases :: "string list"
  qe_limit_name_aliases :: "string list"
  qe_metered_feature_aliases :: "string list"

record quota_definition =
  qd_quota_key :: string
  qd_display_label :: string
  qd_model_ids :: "string list"
  qd_quota_key_aliases :: "string list"
  qd_limit_name_aliases :: "string list"
  qd_metered_feature_aliases :: "string list"
  qd_raw_limit_name_aliases :: "string list"
  qd_raw_metered_feature_aliases :: "string list"

datatype registry_error =
    MissingField
  | InvalidQuotaKey string
  | DuplicateQuotaKey string
  | DuplicateKeyAlias string string string
  | DuplicateModel string string string
  | DuplicateAlias string string string

definition normalized_set :: "string list \<Rightarrow> string list" where
  [py_eval]: "normalized_set vs = remdups (List.map_filter (\<lambda>v. normalize_identifier (Some v)) vs)"

definition raw_set :: "string list \<Rightarrow> string list" where
  [py_eval]: "raw_set vs = remdups (filter (\<lambda>v. v \<noteq> []) (map strip vs))"

definition definition_from_json :: "quota_entry \<Rightarrow> registry_error + quota_definition" where
  [py_eval]: "definition_from_json item = (case qe_quota_key item of
     None \<Rightarrow> Inl MissingField
   | Some raw \<Rightarrow> (case normalize_identifier (Some (strip raw)) of
       None \<Rightarrow> Inl (InvalidQuotaKey (strip raw))
     | Some key \<Rightarrow> (case qe_display_label item of
         None \<Rightarrow> Inl MissingField
       | Some label \<Rightarrow> Inr \<lparr>qd_quota_key = key, qd_display_label = strip label,
           qd_model_ids = normalized_set (qe_model_ids item),
           qd_quota_key_aliases = filter (\<lambda>a. a \<noteq> key) (normalized_set (qe_quota_key_aliases item)),
           qd_limit_name_aliases = normalized_set (qe_limit_name_aliases item),
           qd_metered_feature_aliases = normalized_set (qe_metered_feature_aliases item),
           qd_raw_limit_name_aliases = raw_set (qe_limit_name_aliases item),
           qd_raw_metered_feature_aliases = raw_set (qe_metered_feature_aliases item)\<rparr>)))"

fun definitions_for_path :: "quota_entry list \<Rightarrow> registry_error + quota_definition list" where
  "definitions_for_path [] = Inr []"
| "definitions_for_path (item # items) =
     bind_sum (definition_from_json item) (\<lambda>d. bind_sum (definitions_for_path items) (\<lambda>ds. Inr (d # ds)))"

record quota_maps =
  by_quota_key :: "(string \<times> quota_definition) list"
  model_to_quota_key :: "(string \<times> string) list"
  model_to_definition :: "(string \<times> quota_definition) list"
  alias_to_quota_key :: "(string \<times> string) list"
  quota_key_alias_to_quota_key :: "(string \<times> string) list"

definition empty_maps :: quota_maps where
  [py_eval]: "empty_maps = \<lparr>by_quota_key = [], model_to_quota_key = [], model_to_definition = [], alias_to_quota_key = [],
     quota_key_alias_to_quota_key = []\<rparr>"

text \<open>A loop that maps each name to the key and refuses a name that another key has taken.\<close>

fun claim_names :: "(string \<Rightarrow> string \<Rightarrow> string \<Rightarrow> registry_error) \<Rightarrow> string \<Rightarrow> string list \<Rightarrow> (string \<times> string) list
    \<Rightarrow> registry_error + (string \<times> string) list" where
  "claim_names err key [] d = Inr d"
| "claim_names err key (n # ns) d = (case map_of d n of
     Some previous \<Rightarrow> if previous \<noteq> key then Inl (err n previous key) else claim_names err key ns (dict_set n key d)
   | None \<Rightarrow> claim_names err key ns (dict_set n key d))"

definition add_definition :: "quota_definition \<Rightarrow> quota_maps \<Rightarrow> registry_error + quota_maps" where
  [py_eval]: "add_definition d m =
     (let key = qd_quota_key d in
      if map_of (by_quota_key m) key \<noteq> None then Inl (DuplicateQuotaKey key)
      else bind_sum (claim_names DuplicateKeyAlias key [key] (quota_key_alias_to_quota_key m)) (\<lambda>keys.
        bind_sum (claim_names DuplicateModel key (qd_model_ids d) (model_to_quota_key m)) (\<lambda>models.
        bind_sum (claim_names DuplicateAlias key (qd_limit_name_aliases d @ qd_metered_feature_aliases d) (alias_to_quota_key m)) (\<lambda>aliases.
        bind_sum (claim_names DuplicateKeyAlias key (qd_quota_key_aliases d) keys) (\<lambda>keys.
          Inr \<lparr>by_quota_key = dict_set key d (by_quota_key m), model_to_quota_key = models,
               model_to_definition = fold (\<lambda>model. dict_set model d) (qd_model_ids d) (model_to_definition m),
               alias_to_quota_key = aliases, quota_key_alias_to_quota_key = keys\<rparr>)))))"

fun add_definitions :: "quota_definition list \<Rightarrow> quota_maps \<Rightarrow> registry_error + quota_maps" where
  "add_definitions [] m = Inr m"
| "add_definitions (d # ds) m = bind_sum (add_definition d m) (add_definitions ds)"

definition definition_maps_for_path :: "quota_entry list \<Rightarrow> registry_error + quota_maps" where
  [py_eval]: "definition_maps_for_path items = bind_sum (definitions_for_path items) (\<lambda>ds. add_definitions ds empty_maps)"

text \<open>The file is read once; a reload drops the cache and reads it again.\<close>

type_synonym registry_cache = "(quota_definition list \<times> quota_maps) option"

definition load_registry :: "quota_entry list \<Rightarrow> registry_cache \<Rightarrow> registry_error + (quota_definition list \<times> quota_maps) \<times> registry_cache" where
  [py_eval]: "load_registry file c = (case c of
     Some x \<Rightarrow> Inr (x, c)
   | None \<Rightarrow> bind_sum (definitions_for_path file) (\<lambda>ds. bind_sum (add_definitions ds empty_maps) (\<lambda>m. Inr ((ds, m), Some (ds, m)))))"

definition reload_additional_quota_registry :: "quota_entry list \<Rightarrow> registry_cache \<Rightarrow> registry_error + int \<times> registry_cache" where
  [py_eval]: "reload_additional_quota_registry file c = bind_sum (load_registry file None) (\<lambda>(x, c). Inr (int (length (fst x)), c))"

text \<open>The entry of the default file \<open>config/additional_quota_registry.json\<close>.\<close>

definition default_registry :: "quota_entry list" where
  [py_eval]: "default_registry = [\<lparr>qe_quota_key = Some ''codex_spark'', qe_display_label = Some ''GPT-5.3-Codex-Spark'',
     qe_model_ids = [''gpt-5.3-codex-spark''], qe_quota_key_aliases = [],
     qe_limit_name_aliases = [''codex_other'', ''GPT-5.3-Codex-Spark'', ''gpt-5.3-codex-spark''],
     qe_metered_feature_aliases = [''codex_bengalfox'']\<rparr>]"

section \<open>Lookups\<close>

definition lookup_norm :: "(string \<times> 'a) list \<Rightarrow> string option \<Rightarrow> 'a option" where
  [py_eval]: "lookup_norm d v = (case normalize_identifier v of None \<Rightarrow> None | Some n \<Rightarrow> map_of d n)"

fun first_some :: "'a option list \<Rightarrow> 'a option" where
  "first_some [] = None"
| "first_some (x # xs) = (case x of Some y \<Rightarrow> Some y | None \<Rightarrow> first_some xs)"

definition canonicalize_additional_quota_key :: "quota_maps \<Rightarrow> string option \<Rightarrow> string option \<Rightarrow> string option \<Rightarrow> string option \<Rightarrow> string option" where
  [py_eval]: "canonicalize_additional_quota_key m model quota_key limit_name metered_feature =
     first_some [lookup_norm (model_to_quota_key m) model, lookup_norm (quota_key_alias_to_quota_key m) quota_key,
       lookup_norm (alias_to_quota_key m) limit_name, lookup_norm (alias_to_quota_key m) metered_feature,
       normalize_identifier limit_name, normalize_identifier metered_feature, normalize_identifier quota_key]"

definition get_additional_quota_lookup_keys :: "quota_maps \<Rightarrow> string option \<Rightarrow> string option \<Rightarrow> string option \<Rightarrow> string list option" where
  [py_eval]: "get_additional_quota_lookup_keys m quota_key limit_name metered_feature =
     (case canonicalize_additional_quota_key m None quota_key limit_name metered_feature of
        None \<Rightarrow> None
      | Some key \<Rightarrow> (case map_of (by_quota_key m) key of
          None \<Rightarrow> Some [key] | Some d \<Rightarrow> Some (remdups (key # qd_quota_key_aliases d))))"

definition get_additional_quota_key_for_model :: "quota_maps \<Rightarrow> string option \<Rightarrow> string option" where
  [py_eval]: "get_additional_quota_key_for_model m model = canonicalize_additional_quota_key m model None None None"

definition get_additional_quota_definition_for_model :: "quota_maps \<Rightarrow> string option \<Rightarrow> quota_definition option" where
  [py_eval]: "get_additional_quota_definition_for_model m model = lookup_norm (model_to_definition m) model"

definition get_additional_quota_definition :: "quota_maps \<Rightarrow> string option \<Rightarrow> quota_definition option" where
  [py_eval]: "get_additional_quota_definition m quota_key =
     (case canonicalize_additional_quota_key m None quota_key None None of
        None \<Rightarrow> None | Some key \<Rightarrow> map_of (by_quota_key m) key)"

record query_scope =
  qs_quota_key :: string
  qs_quota_key_match_values :: "string list"
  qs_limit_name_match_values :: "string list"
  qs_metered_feature_match_values :: "string list"

definition get_additional_quota_query_scope :: "quota_maps \<Rightarrow> string option \<Rightarrow> string option \<Rightarrow> string option \<Rightarrow> query_scope option" where
  [py_eval]: "get_additional_quota_query_scope m quota_key limit_name metered_feature =
     (let candidate = (case quota_key of Some q \<Rightarrow> Some q | None \<Rightarrow> limit_name)
      in case canonicalize_additional_quota_key m None quota_key candidate metered_feature of
        None \<Rightarrow> None
      | Some resolved \<Rightarrow> (case get_additional_quota_definition m (Some resolved) of
          None \<Rightarrow> Some \<lparr>qs_quota_key = resolved, qs_quota_key_match_values = [resolved],
                    qs_limit_name_match_values = [], qs_metered_feature_match_values = []\<rparr>
        | Some d \<Rightarrow> Some \<lparr>qs_quota_key = resolved, qs_quota_key_match_values = remdups (resolved # qd_quota_key_aliases d),
                    qs_limit_name_match_values = remdups (map py_lower (qd_raw_limit_name_aliases d) @ qd_limit_name_aliases d),
                    qs_metered_feature_match_values = remdups (map py_lower (qd_raw_metered_feature_aliases d) @ qd_metered_feature_aliases d)\<rparr>))"

definition get_additional_display_label_for_quota_key :: "quota_maps \<Rightarrow> string option \<Rightarrow> string option" where
  [py_eval]: "get_additional_display_label_for_quota_key m quota_key = map_option qd_display_label (get_additional_quota_definition m quota_key)"

definition get_additional_display_label :: "quota_maps \<Rightarrow> string option \<Rightarrow> string option \<Rightarrow> string option \<Rightarrow> string option" where
  [py_eval]: "get_additional_display_label m quota_key limit_name metered_feature =
     (let resolved = canonicalize_additional_quota_key m None None limit_name metered_feature
      in get_additional_display_label_for_quota_key m (if truthy_str quota_key then quota_key else resolved))"

record additional_model_limit =
  aml_model :: string
  aml_quota_key :: string
  aml_display_label :: string

definition get_additional_model_limit :: "quota_maps \<Rightarrow> string option \<Rightarrow> additional_model_limit option" where
  [py_eval]: "get_additional_model_limit m model = (case (get_additional_quota_definition_for_model m model, model) of
     (Some d, Some s) \<Rightarrow> Some \<lparr>aml_model = py_lower (strip s), aml_quota_key = qd_quota_key d, aml_display_label = qd_display_label d\<rparr>
   | _ \<Rightarrow> None)"

definition get_additional_quota_key_for_model_id :: "quota_maps \<Rightarrow> string option \<Rightarrow> string option" where
  [py_eval]: "get_additional_quota_key_for_model_id m model = map_option aml_quota_key (get_additional_model_limit m model)"

definition get_additional_display_label_for_model :: "quota_maps \<Rightarrow> string option \<Rightarrow> string option" where
  [py_eval]: "get_additional_display_label_for_model m model =
     get_additional_display_label_for_quota_key m (get_additional_quota_key_for_model m model)"

section \<open>The model registry\<close>

record upstream_model =
  um_slug :: string
  um_display_name :: string
  um_description :: string
  um_context_window :: int
  um_input_modalities :: "string list"
  um_supported_reasoning_levels :: "(string \<times> string) list"
  um_default_reasoning_level :: "string option"
  um_supports_reasoning_summaries :: bool
  um_support_verbosity :: bool
  um_default_verbosity :: "string option"
  um_prefer_websockets :: bool
  um_supports_parallel_tool_calls :: bool
  um_supported_in_api :: bool
  um_minimal_client_version :: "string option"
  um_priority :: int
  um_available_in_plans :: "string list"
  um_base_instructions :: string

record model_snapshot =
  ms_models :: "(string \<times> upstream_model) list"
  ms_model_plans :: "(string \<times> string list) list"
  ms_plan_models :: "(string \<times> string list) list"
  ms_fetched_at :: pyfloat

record model_registry =
  mr_ttl_seconds :: pyfloat
  mr_snapshot :: "model_snapshot option"
  mr_bootstrap_models :: "(string \<times> upstream_model) list"

text \<open>\<open>d.setdefault(k, set()).add(x)\<close>\<close>

definition add_to :: "'k \<Rightarrow> 'a \<Rightarrow> ('k \<times> 'a list) list \<Rightarrow> ('k \<times> 'a list) list" where
  [py_eval]: "add_to k x d = (let xs = (case map_of d k of Some xs \<Rightarrow> xs | None \<Rightarrow> []) in dict_set k (List.insert x xs) d)"

definition ModelRegistry :: "pyfloat \<Rightarrow> model_registry option" where
  [py_eval]: "ModelRegistry ttl = (if ttl \<le> 0 then None else Some \<lparr>mr_ttl_seconds = ttl, mr_snapshot = None, mr_bootstrap_models = []\<rparr>)"

definition get_models_with_fallback :: "model_registry \<Rightarrow> (string \<times> upstream_model) list" where
  [py_eval]: "get_models_with_fallback r = (case mr_snapshot r of Some s \<Rightarrow> ms_models s | None \<Rightarrow> mr_bootstrap_models r)"

definition plan_types_for_model :: "model_registry \<Rightarrow> string \<Rightarrow> string list option" where
  [py_eval]: "plan_types_for_model r slug = (case mr_snapshot r of None \<Rightarrow> None
     | Some s \<Rightarrow> Some (case map_of (ms_model_plans s) slug of Some ps \<Rightarrow> ps | None \<Rightarrow> []))"

fun fnmatch :: "string \<Rightarrow> string \<Rightarrow> bool" where
  "fnmatch s [] = (s = [])"
| "fnmatch [] (p # ps) = (p = CHR ''*'' \<and> fnmatch [] ps)"
| "fnmatch (c # s) (p # ps) =
     (if p = CHR ''*'' then fnmatch (c # s) ps \<or> fnmatch s (p # ps) else c = p \<and> fnmatch s ps)"

definition websocket_preferred_patterns :: "string list" where
  [py_eval]: "websocket_preferred_patterns = [''gpt-5.5'', ''gpt-5.5-*'', ''gpt-5.4'', ''gpt-5.4-*'']"

definition prefers_websockets :: "model_registry \<Rightarrow> string option \<Rightarrow> bool" where
  [py_eval]: "prefers_websockets r slug = (case slug of None \<Rightarrow> False | Some slug \<Rightarrow>
     (let n = py_lower (strip slug) in
      if n = [] then False
      else case (case mr_snapshot r of None \<Rightarrow> None
                 | Some s \<Rightarrow> first_some [map_of (ms_models s) slug, map_of (ms_models s) n]) of
             Some model \<Rightarrow> um_prefer_websockets model
           | None \<Rightarrow> list_ex (fnmatch n) websocket_preferred_patterns))"

definition needs_refresh :: "pyfloat \<Rightarrow> model_registry \<Rightarrow> bool" where
  [py_eval]: "needs_refresh monotonic r = (case mr_snapshot r of None \<Rightarrow> True
     | Some s \<Rightarrow> monotonic - ms_fetched_at s \<ge> mr_ttl_seconds r)"

type_synonym model_maps = "(string \<times> upstream_model) list \<times> (string \<times> string list) list"

definition carry_slug :: "model_snapshot \<Rightarrow> string \<Rightarrow> string \<Rightarrow> model_maps \<Rightarrow> model_maps" where
  [py_eval]: "carry_slug previous plan slug mm = (case mm of (models, model_plans) \<Rightarrow>
     (case (map_of models slug, map_of (ms_models previous) slug) of
        (None, Some old) \<Rightarrow> dict_set slug old models | _ \<Rightarrow> models,
      add_to slug plan model_plans))"

definition carry_over :: "model_snapshot option \<Rightarrow> string list \<Rightarrow> model_maps" where
  [py_eval]: "carry_over previous refreshed = (case previous of None \<Rightarrow> ([], [])
     | Some s \<Rightarrow> fold (\<lambda>plan. fold (carry_slug s plan) (case map_of (ms_plan_models s) plan of Some xs \<Rightarrow> xs | None \<Rightarrow> []))
         (filter (\<lambda>p. p \<notin> set refreshed) (map fst (ms_plan_models s))) ([], []))"

definition merge_plan :: "string \<times> upstream_model list \<Rightarrow> model_maps \<Rightarrow> model_maps" where
  [py_eval]: "merge_plan pr mm = (case pr of (plan, ms) \<Rightarrow>
     fold (\<lambda>model (models, model_plans). (dict_set (um_slug model) model models, add_to (um_slug model) plan model_plans)) ms mm)"

definition reverse_index :: "(string \<times> string list) list \<Rightarrow> (string \<times> string list) list" where
  [py_eval]: "reverse_index model_plans = fold (\<lambda>(slug, plans). fold (\<lambda>plan. add_to plan slug) plans) model_plans []"

definition update_registry :: "pyfloat \<Rightarrow> (string \<times> upstream_model list) list \<Rightarrow> model_registry \<Rightarrow> model_registry" where
  [py_eval]: "update_registry monotonic per_plan_results r =
     (if per_plan_results = [] then r
      else case fold merge_plan per_plan_results (carry_over (mr_snapshot r) (map fst per_plan_results)) of
        (models, model_plans) \<Rightarrow>
          r\<lparr>mr_snapshot := Some \<lparr>ms_models = models, ms_model_plans = model_plans, ms_plan_models = reverse_index model_plans,
              ms_fetched_at = monotonic\<rparr>\<rparr>)"

definition is_public_model :: "upstream_model \<Rightarrow> string list option \<Rightarrow> bool" where
  [py_eval]: "is_public_model model allowed = (case allowed of None \<Rightarrow> True | Some xs \<Rightarrow> um_slug model \<in> set xs)"

section \<open>Normalised identifiers\<close>

fun ident_form :: "bool \<Rightarrow> string \<Rightarrow> bool" where
  "ident_form run [] = True"
| "ident_form run (c # cs) = (if is_ident c then ident_form False cs else c = CHR ''_'' \<and> \<not> run \<and> ident_form True cs)"

lemma is_ident_facts: "\<not> is_ident CHR ''_''" "is_ident c \<Longrightarrow> \<not> is_space c \<and> lower_char c = c"
  by (auto simp: is_ident_def is_space_def lower_char_def Let_def)

lemma underscore_facts: "\<not> is_space CHR ''_''" "lower_char CHR ''_'' = CHR ''_''"
  by (simp_all add: is_space_def lower_char_def)

lemma ident_form_sub_runs: "ident_form run (sub_runs run s)"
  by (induction run s rule: sub_runs.induct) (auto simp: is_ident_facts)

lemma sub_runs_id: "ident_form run s \<Longrightarrow> sub_runs run s = s"
  by (induction run s rule: ident_form.induct) (auto split: if_splits)

lemma ident_form_False: "ident_form True s \<Longrightarrow> ident_form False s"
  by (cases s) (auto split: if_splits)

lemma ident_form_append: "ident_form run (xs @ ys) \<Longrightarrow> ident_form run xs"
  by (induction run xs rule: ident_form.induct) (auto split: if_splits)

lemma ident_form_dropWhile: "ident_form run s \<Longrightarrow> ident_form False (dropWhile P s)"
proof (induction run s rule: ident_form.induct)
  case (2 run c cs)
  then show ?case using ident_form_False [of cs] by (cases run) (auto split: if_splits)
qed simp

lemma ident_form_strip:
  assumes "ident_form False s"
  shows "ident_form False (strip_underscores s)"
proof -
  let ?d = "dropWhile (\<lambda>c. c = CHR ''_'')"
  have "?d s = rev (?d (rev (?d s))) @ rev (takeWhile (\<lambda>c. c = CHR ''_'') (rev (?d s)))"
    by (metis rev_append rev_rev_ident takeWhile_dropWhile_id)
  with ident_form_dropWhile [OF assms] show ?thesis
    unfolding strip_underscores_def by (metis ident_form_append)
qed

lemma strip_underscores_idem: "strip_underscores (strip_underscores s) = strip_underscores s"
  using dropWhile_rev_dropWhile_rev [OF dropWhile_idem, of "\<lambda>c. c = CHR ''_''" s]
  by (simp add: strip_underscores_def dropWhile_idem)

lemma ident_form_chars: "ident_form run s \<Longrightarrow> c \<in> set s \<Longrightarrow> \<not> is_space c \<and> lower_char c = c"
proof (induction run s rule: ident_form.induct)
  case (2 run c' cs)
  then show ?case by (cases "is_ident c'") (auto simp: is_ident_facts underscore_facts)
qed simp

lemma strip_no_space:
  assumes "\<forall>c \<in> set s. \<not> is_space c"
  shows "strip s = s"
proof -
  have "dropWhile is_space xs = xs" if "set xs \<subseteq> set s" for xs
    using that assms by (cases xs) auto
  then show ?thesis by (simp add: strip_def rstrip_def)
qed

lemma normalize_identifier_idem: "normalize_identifier v = Some n \<Longrightarrow> normalize_identifier (Some n) = Some n"
proof -
  assume n: "normalize_identifier v = Some n"
  then obtain x where x: "n = strip_underscores (sub_runs False x)" "n \<noteq> []"
    by (auto simp: normalize_identifier_def Let_def split: option.splits if_splits)
  have f: "ident_form False n" unfolding x(1) by (intro ident_form_strip ident_form_sub_runs)
  have "strip n = n" using ident_form_chars [OF f] by (intro strip_no_space) blast
  moreover have "py_lower n = n" using ident_form_chars [OF f] unfolding py_lower_def by (intro map_idI) blast
  moreover have "strip_underscores n = n" unfolding x(1) by (rule strip_underscores_idem)
  ultimately show ?thesis using x(2) sub_runs_id [OF f] by (simp add: normalize_identifier_def)
qed

section \<open>The maps of a registry\<close>

definition alias_names :: "quota_definition \<Rightarrow> string set" where
  "alias_names d = set (qd_limit_name_aliases d) \<union> set (qd_metered_feature_aliases d)"

definition key_names :: "quota_definition \<Rightarrow> string set" where
  "key_names d = insert (qd_quota_key d) (set (qd_quota_key_aliases d))"

definition names_map :: "quota_definition set \<Rightarrow> (quota_definition \<Rightarrow> string set) \<Rightarrow> (string \<times> string) list \<Rightarrow> bool" where
  "names_map D f m \<longleftrightarrow> (\<forall>n k. map_of m n = Some k \<longleftrightarrow> (\<exists>d \<in> D. qd_quota_key d = k \<and> n \<in> f d))"

definition registers :: "quota_definition set \<Rightarrow> quota_maps \<Rightarrow> bool" where
  "registers D m \<longleftrightarrow>
     (\<forall>k d. map_of (by_quota_key m) k = Some d \<longleftrightarrow> d \<in> D \<and> qd_quota_key d = k)
     \<and> names_map D key_names (quota_key_alias_to_quota_key m)
     \<and> names_map D alias_names (alias_to_quota_key m)
     \<and> names_map D (\<lambda>d. set (qd_model_ids d)) (model_to_quota_key m)
     \<and> (\<forall>n d. map_of (model_to_definition m) n = Some d \<longleftrightarrow> d \<in> D \<and> n \<in> set (qd_model_ids d))"

lemma claim_names_spec:
  "claim_names err key ns d = Inr d' \<Longrightarrow>
     (\<forall>n. map_of d' n = (if n \<in> set ns then Some key else map_of d n)) \<and> (\<forall>n \<in> set ns. map_of d n \<in> {None, Some key})"
proof (induction err key ns d rule: claim_names.induct)
  case (2 err key n ns d)
  then show ?case by (cases "map_of d n") (auto split: if_splits)
qed simp

lemma claim_names_map:
  assumes "claim_names err (qd_quota_key d) ns m = Inr m'" and "names_map D f m" and "set ns = f d"
  shows "names_map (insert d D) f m'"
proof -
  note s = claim_names_spec [OF assms(1)]
  show ?thesis unfolding names_map_def
  proof (intro allI)
    fix n k
    show "map_of m' n = Some k \<longleftrightarrow> (\<exists>d \<in> insert d D. qd_quota_key d = k \<and> n \<in> f d)"
    proof (cases "n \<in> f d")
      case True
      have "k = qd_quota_key d" if "d' \<in> D" "qd_quota_key d' = k" "n \<in> f d'" for d'
      proof -
        have "map_of m n = Some k" using that assms(2) by (auto simp: names_map_def)
        then show ?thesis using s True assms(3) by auto
      qed
      then show ?thesis using s True assms(3) by auto
    next
      case False
      then show ?thesis using s assms(2,3) by (auto simp: names_map_def)
    qed
  qed
qed

lemma map_of_fold_dict_set: "map_of (fold (\<lambda>n. dict_set n v) ns m) n = (if n \<in> set ns then Some v else map_of m n)"
  by (induction ns arbitrary: m) auto

lemma add_definition_registers:
  assumes "registers D m" and "add_definition d m = Inr m'"
  shows "registers (insert d D) m' \<and> (\<forall>d' \<in> D. qd_quota_key d' \<noteq> qd_quota_key d)"
proof -
  let ?k = "qd_quota_key d"
  from assms(2) obtain keys models aliases keys' where
      new: "map_of (by_quota_key m) ?k = None"
      and k1: "claim_names DuplicateKeyAlias ?k [?k] (quota_key_alias_to_quota_key m) = Inr keys"
      and mo: "claim_names DuplicateModel ?k (qd_model_ids d) (model_to_quota_key m) = Inr models"
      and al: "claim_names DuplicateAlias ?k (qd_limit_name_aliases d @ qd_metered_feature_aliases d) (alias_to_quota_key m) = Inr aliases"
      and k2: "claim_names DuplicateKeyAlias ?k (qd_quota_key_aliases d) keys = Inr keys'"
      and m': "m' = \<lparr>by_quota_key = dict_set ?k d (by_quota_key m), model_to_quota_key = models,
               model_to_definition = fold (\<lambda>model. dict_set model d) (qd_model_ids d) (model_to_definition m),
               alias_to_quota_key = aliases, quota_key_alias_to_quota_key = keys'\<rparr>"
    by (auto simp: add_definition_def Let_def split: if_splits)
  from assms(1) have r: "\<And>k d. map_of (by_quota_key m) k = Some d \<longleftrightarrow> d \<in> D \<and> qd_quota_key d = k"
      "names_map D key_names (quota_key_alias_to_quota_key m)" "names_map D alias_names (alias_to_quota_key m)"
      "names_map D (\<lambda>d. set (qd_model_ids d)) (model_to_quota_key m)"
      "\<And>n d. map_of (model_to_definition m) n = Some d \<longleftrightarrow> d \<in> D \<and> n \<in> set (qd_model_ids d)"
    by (simp_all add: registers_def)
  have fresh: "qd_quota_key d' \<noteq> ?k" if "d' \<in> D" for d' using r(1) [of ?k d'] new that by auto
  have "claim_names DuplicateKeyAlias ?k (?k # qd_quota_key_aliases d) (quota_key_alias_to_quota_key m) = Inr keys'"
    using k1 k2 by (auto split: option.splits if_splits)
  then have keys: "names_map (insert d D) key_names keys'" using r(2) by (rule claim_names_map) (simp add: key_names_def)
  have aliases: "names_map (insert d D) alias_names aliases" using al r(3) by (rule claim_names_map) (simp add: alias_names_def)
  have models: "names_map (insert d D) (\<lambda>d. set (qd_model_ids d)) models" using mo r(4) by (rule claim_names_map) simp
  have "d' = d" if "d' \<in> D" "n \<in> set (qd_model_ids d')" "n \<in> set (qd_model_ids d)" for n d'
  proof -
    have "map_of (model_to_quota_key m) n = Some (qd_quota_key d')" using r(4) that(1,2) by (auto simp: names_map_def)
    with claim_names_spec [OF mo] that(3) have "qd_quota_key d' = ?k" by auto
    with fresh that(1) show ?thesis by blast
  qed
  then have defs: "map_of (model_to_definition m') n = Some d' \<longleftrightarrow> d' \<in> insert d D \<and> n \<in> set (qd_model_ids d')" for n d'
    by (auto simp: m' map_of_fold_dict_set r(5))
  have "map_of (by_quota_key m') k = Some d' \<longleftrightarrow> d' \<in> insert d D \<and> qd_quota_key d' = k" for k d'
    using fresh by (auto simp: m' r(1))
  with keys aliases models defs fresh show ?thesis by (simp add: registers_def m')
qed

lemma add_definitions_registers:
  "registers D m \<Longrightarrow> add_definitions ds m = Inr m' \<Longrightarrow> registers (set ds \<union> D) m'"
proof (induction ds arbitrary: D m)
  case (Cons d ds)
  then obtain m1 where "add_definition d m = Inr m1" "add_definitions ds m1 = Inr m'" by auto
  with Cons.IH add_definition_registers [OF Cons.prems(1)] have "registers (set ds \<union> insert d D) m'" by blast
  then show ?case by simp
qed simp

lemma definition_maps_registers:
  assumes "definition_maps_for_path items = Inr m"
  obtains ds where "definitions_for_path items = Inr ds" "registers (set ds) m"
proof -
  from assms obtain ds where ds: "definitions_for_path items = Inr ds" "add_definitions ds empty_maps = Inr m"
    by (auto simp: definition_maps_for_path_def)
  have "registers {} empty_maps" by (simp add: registers_def names_map_def empty_maps_def)
  from add_definitions_registers [OF this ds(2)] ds(1) that show thesis by auto
qed

lemma names_map_get: "names_map D f m \<Longrightarrow> d \<in> D \<Longrightarrow> n \<in> f d \<Longrightarrow> map_of m n = Some (qd_quota_key d)"
  by (auto simp: names_map_def)

lemma names_map_registered: "names_map D f m \<Longrightarrow> map_of m n = Some k \<Longrightarrow> \<exists>d \<in> D. qd_quota_key d = k"
  by (auto simp: names_map_def)

lemma definition_key_normal: "definition_from_json item = Inr d \<Longrightarrow> normalize_identifier (Some (qd_quota_key d)) = Some (qd_quota_key d)"
  by (auto simp: definition_from_json_def split: option.splits intro: normalize_identifier_idem)

lemma definitions_key_normal:
  "definitions_for_path items = Inr ds \<Longrightarrow> d \<in> set ds \<Longrightarrow> normalize_identifier (Some (qd_quota_key d)) = Some (qd_quota_key d)"
  by (induction items arbitrary: ds) (auto dest: definition_key_normal)

lemma canonicalize_registered:
  assumes "definition_maps_for_path items = Inr m" and "map_of (by_quota_key m) r \<noteq> None"
  shows "canonicalize_additional_quota_key m None (Some r) l f = Some r"
proof -
  from assms(1) obtain ds where ds: "definitions_for_path items = Inr ds" "registers (set ds) m" by (rule definition_maps_registers)
  with assms(2) obtain d where d: "d \<in> set ds" "qd_quota_key d = r" by (auto simp: registers_def)
  have "names_map (set ds) key_names (quota_key_alias_to_quota_key m)" using ds(2) by (simp add: registers_def)
  from names_map_get [OF this d(1), of r] d(2) have "map_of (quota_key_alias_to_quota_key m) r = Some r" by (simp add: key_names_def)
  with definitions_key_normal [OF ds(1) d(1)] d(2) show ?thesis
    by (simp add: canonicalize_additional_quota_key_def lookup_norm_def normalize_identifier_def)
qed

text \<open>
  C39. Resolving quota names is idempotent, and an alias leads to its quota. Over every registry file that
  loads, a name used as quota key and limit name, as the queries of the load balancer use it,
  resolves to a key that resolves to itself; and every normalised alias of a definition, as quota
  key, limit name or metered feature, resolves to that definition's key.
\<close>

theorem quota_names_resolve:
  assumes "definition_maps_for_path items = Inr m"
  shows "(canonicalize_additional_quota_key m None (Some x) (Some x) None = Some r \<longrightarrow>
        canonicalize_additional_quota_key m None (Some r) (Some r) None = Some r)
    \<and> (definitions_for_path items = Inr ds \<and> d \<in> set ds \<and> normalize_identifier (Some x) = Some n \<longrightarrow>
        (n \<in> key_names d \<longrightarrow> canonicalize_additional_quota_key m None (Some x) l f = Some (qd_quota_key d))
      \<and> (n \<in> alias_names d \<longrightarrow> canonicalize_additional_quota_key m None None (Some x) f = Some (qd_quota_key d)
           \<and> canonicalize_additional_quota_key m None None None (Some x) = Some (qd_quota_key d)))"
proof -
  from assms obtain ds' where ds: "definitions_for_path items = Inr ds'" "registers (set ds') m" by (rule definition_maps_registers)
  then have maps: "names_map (set ds') key_names (quota_key_alias_to_quota_key m)" "names_map (set ds') alias_names (alias_to_quota_key m)"
    by (simp_all add: registers_def)
  have reg: "canonicalize_additional_quota_key m None (Some k) l f = Some k" if "\<exists>d \<in> set ds'. qd_quota_key d = k" for k l f
    using that ds(2) by (intro canonicalize_registered [OF assms]) (auto simp: registers_def)
  have none: "normalize_identifier None = None" by (simp add: normalize_identifier_def)
  have idem: "canonicalize_additional_quota_key m None (Some r) (Some r) None = Some r"
    if r: "canonicalize_additional_quota_key m None (Some x) (Some x) None = Some r"
  proof (cases "normalize_identifier (Some x)")
    case None
    with r show ?thesis by (simp add: canonicalize_additional_quota_key_def lookup_norm_def none)
  next
    case (Some n)
    show ?thesis
    proof (cases "map_of (quota_key_alias_to_quota_key m) n = None \<and> map_of (alias_to_quota_key m) n = None")
      case True
      with r Some have "r = n" by (simp add: canonicalize_additional_quota_key_def lookup_norm_def none)
      with True normalize_identifier_idem [OF Some] show ?thesis
        by (simp add: canonicalize_additional_quota_key_def lookup_norm_def none)
    next
      case False
      with r Some have "map_of (quota_key_alias_to_quota_key m) n = Some r \<or> map_of (alias_to_quota_key m) n = Some r"
        by (auto simp: canonicalize_additional_quota_key_def lookup_norm_def none split: option.splits)
      with maps [THEN names_map_registered] show ?thesis by (intro reg) blast
    qed
  qed
  have "canonicalize_additional_quota_key m None (Some x) l f = Some (qd_quota_key d)"
    if "d \<in> set ds'" "normalize_identifier (Some x) = Some n" "n \<in> key_names d"
    using names_map_get [OF maps(1) that(1,3)] that(2) by (simp add: canonicalize_additional_quota_key_def lookup_norm_def none)
  moreover have "canonicalize_additional_quota_key m None None (Some x) f = Some (qd_quota_key d)
      \<and> canonicalize_additional_quota_key m None None None (Some x) = Some (qd_quota_key d)"
    if "d \<in> set ds'" "normalize_identifier (Some x) = Some n" "n \<in> alias_names d"
    using names_map_get [OF maps(2) that(1,3)] that(2) by (simp add: canonicalize_additional_quota_key_def lookup_norm_def none)
  ultimately show ?thesis using idem ds(1) by auto
qed

text \<open>Witness: the registry file the repository ships.\<close>

definition default_maps :: quota_maps where
  [py_eval]: "default_maps = projr (definition_maps_for_path default_registry)"

lemma default_maps_load: "definition_maps_for_path default_registry = Inr default_maps"
  by code_simp

theorem quota_names_resolve_witness:
  "canonicalize_additional_quota_key default_maps None None (Some ''GPT-5.3-Codex-Spark'') None = Some ''codex_spark''
   \<and> canonicalize_additional_quota_key default_maps None (Some ''codex_spark'') (Some ''codex_spark'') None = Some ''codex_spark''"
proof -
  let ?ds = "projr (definitions_for_path default_registry)"
  have ds: "definitions_for_path default_registry = Inr ?ds" by code_simp
  have d: "hd ?ds \<in> set ?ds" by code_simp
  have n: "normalize_identifier (Some ''GPT-5.3-Codex-Spark'') = Some ''gpt_5_3_codex_spark''" by code_simp
  have a: "''gpt_5_3_codex_spark'' \<in> alias_names (hd ?ds)" unfolding alias_names_def by code_simp
  have k: "qd_quota_key (hd ?ds) = ''codex_spark''" by code_simp
  have c: "canonicalize_additional_quota_key default_maps None (Some ''Codex_Spark'') (Some ''Codex_Spark'') None = Some ''codex_spark''" by code_simp
  show ?thesis
    using quota_names_resolve [OF default_maps_load, of "''GPT-5.3-Codex-Spark''" _ ?ds "hd ?ds" _ _ None] ds d n a k
      quota_names_resolve [OF default_maps_load, of "''Codex_Spark''" "''codex_spark''"] c by auto
qed

text \<open>A model that is gated leads to a quota the registry defines.\<close>

lemma gated_model_quota:
  assumes "definition_maps_for_path items = Inr m" and "get_additional_quota_key_for_model_id m model = Some k"
  shows "\<exists>d. map_of (by_quota_key m) k = Some d \<and> get_additional_quota_key_for_model m model = Some k"
proof -
  from assms(1) obtain ds where ds: "registers (set ds) m" by (rule definition_maps_registers)
  from assms(2) obtain d n where d: "normalize_identifier model = Some n" "map_of (model_to_definition m) n = Some d" "qd_quota_key d = k"
    by (auto simp: get_additional_quota_key_for_model_id_def get_additional_model_limit_def lookup_norm_def
          get_additional_quota_definition_for_model_def split: option.splits)
  with ds have "d \<in> set ds" "n \<in> set (qd_model_ids d)" by (auto simp: registers_def)
  with ds d(3) have "map_of (by_quota_key m) k = Some d" "map_of (model_to_quota_key m) n = Some k" by (auto simp: registers_def names_map_def)
  with d(1) show ?thesis by (simp add: get_additional_quota_key_for_model_def canonicalize_additional_quota_key_def lookup_norm_def)
qed

section \<open>Refreshing the model registry\<close>

definition members :: "('k \<times> 'a list) list \<Rightarrow> 'k \<Rightarrow> 'a set" where
  "members d k = (case map_of d k of None \<Rightarrow> {} | Some xs \<Rightarrow> set xs)"

lemma members_add_to: "members (add_to k x d) k' = (if k' = k then insert x (members d k) else members d k')"
  by (auto simp: members_def add_to_def Let_def split: option.splits)

lemma members_fold_add: "members (fold (\<lambda>x. add_to x v) ks d) k = members d k \<union> (if k \<in> set ks then {v} else {})"
  by (induction ks arbitrary: d) (auto simp: members_add_to)

definition snapshot_ok :: "model_snapshot \<Rightarrow> bool" where
  "snapshot_ok s \<longleftrightarrow> distinct (map fst (ms_model_plans s)) \<and> distinct (map fst (ms_plan_models s))
     \<and> (\<forall>plan slug. slug \<in> members (ms_plan_models s) plan \<longleftrightarrow> plan \<in> members (ms_model_plans s) slug)
     \<and> (\<forall>slug. map_of (ms_models s) slug = None \<longrightarrow> members (ms_model_plans s) slug = {})"

text \<open>Two maps of models and plans: the keys are distinct and every model with a plan is known.\<close>

definition model_maps_ok :: "model_maps \<Rightarrow> bool" where
  "model_maps_ok mm \<longleftrightarrow> distinct (map fst (snd mm)) \<and> (\<forall>slug. map_of (fst mm) slug = None \<longrightarrow> members (snd mm) slug = {})"

lemma distinct_add_to: "distinct (map fst d) \<Longrightarrow> distinct (map fst (add_to k x d))"
  by (simp add: add_to_def Let_def distinct_dict_set)

lemma carry_slug_members: "members (snd (carry_slug s plan slug mm)) slug' = (if slug' = slug then insert plan (members (snd mm) slug) else members (snd mm) slug')"
  by (simp add: carry_slug_def members_add_to split: prod.splits)

lemma carry_slug_ok: "map_of (ms_models s) slug \<noteq> None \<Longrightarrow> model_maps_ok mm \<Longrightarrow> model_maps_ok (carry_slug s plan slug mm)"
  by (auto simp: carry_slug_def model_maps_ok_def distinct_add_to members_add_to split: prod.splits option.splits if_splits)

lemma carry_slugs:
  "model_maps_ok mm \<Longrightarrow> \<forall>slug \<in> set slugs. map_of (ms_models s) slug \<noteq> None \<Longrightarrow>
   model_maps_ok (fold (carry_slug s plan) slugs mm) \<and>
   members (snd (fold (carry_slug s plan) slugs mm)) slug = members (snd mm) slug \<union> (if slug \<in> set slugs then {plan} else {})"
  by (induction slugs arbitrary: mm) (auto simp: carry_slug_ok carry_slug_members)

lemma carry_plans:
  assumes "snapshot_ok s" and "model_maps_ok mm"
  shows "model_maps_ok (fold (\<lambda>plan. fold (carry_slug s plan) (case map_of (ms_plan_models s) plan of Some xs \<Rightarrow> xs | None \<Rightarrow> [])) plans mm) \<and>
    members (snd (fold (\<lambda>plan. fold (carry_slug s plan) (case map_of (ms_plan_models s) plan of Some xs \<Rightarrow> xs | None \<Rightarrow> [])) plans mm)) slug =
      members (snd mm) slug \<union> {plan \<in> set plans. slug \<in> members (ms_plan_models s) plan}"
  using assms(2)
proof (induction plans arbitrary: mm)
  case (Cons plan plans)
  let ?xs = "case map_of (ms_plan_models s) plan of Some xs \<Rightarrow> xs | None \<Rightarrow> []"
  have m: "set ?xs = members (ms_plan_models s) plan" by (simp add: members_def split: option.splits)
  with assms(1) have "\<forall>slug \<in> set ?xs. map_of (ms_models s) slug \<noteq> None" unfolding snapshot_ok_def by (metis empty_iff)
  note c = carry_slugs [OF Cons.prems this]
  from Cons.IH [OF c [THEN conjunct1]] show ?case by (auto simp: c m)
qed simp

lemma carry_over_spec:
  assumes "\<And>s. previous = Some s \<Longrightarrow> snapshot_ok s"
  shows "model_maps_ok (carry_over previous refreshed) \<and> members (snd (carry_over previous refreshed)) slug =
    (case previous of None \<Rightarrow> {} | Some s \<Rightarrow> {plan. plan \<notin> set refreshed \<and> slug \<in> members (ms_plan_models s) plan})"
proof (cases previous)
  case None
  then show ?thesis by (simp add: carry_over_def model_maps_ok_def members_def)
next
  case (Some s)
  have k: "plan \<in> fst ` set (ms_plan_models s)" if "slug \<in> members (ms_plan_models s) plan" for plan
    using that by (auto simp: members_def split: option.splits dest!: map_of_SomeD intro: rev_image_eqI)
  have e: "model_maps_ok ([], [])" by (simp add: model_maps_ok_def members_def)
  show ?thesis using carry_plans [OF assms [OF Some] e, of "filter (\<lambda>p. p \<notin> set refreshed) (map fst (ms_plan_models s))" slug] k
    by (auto simp: carry_over_def Some members_def [of "[]"])
qed

lemma merge_models:
  "model_maps_ok mm \<Longrightarrow> model_maps_ok (merge_plan (plan, ms) mm) \<and>
     members (snd (merge_plan (plan, ms) mm)) slug = members (snd mm) slug \<union> (if slug \<in> um_slug ` set ms then {plan} else {})"
proof (induction ms arbitrary: mm)
  case (Cons m ms)
  let ?mm = "(dict_set (um_slug m) m (fst mm), add_to (um_slug m) plan (snd mm))"
  have "model_maps_ok ?mm" using Cons.prems by (auto simp: model_maps_ok_def distinct_add_to members_add_to split: if_splits)
  from Cons.IH [OF this] show ?case by (auto simp: merge_plan_def members_add_to split_def)
qed (simp add: merge_plan_def)

lemma merge_plans:
  "model_maps_ok mm \<Longrightarrow> model_maps_ok (fold merge_plan rs mm) \<and>
     members (snd (fold merge_plan rs mm)) slug = members (snd mm) slug \<union> {plan. \<exists>ms. (plan, ms) \<in> set rs \<and> slug \<in> um_slug ` set ms}"
proof (induction rs arbitrary: mm)
  case (Cons r rs)
  obtain plan ms where r: "r = (plan, ms)" by (cases r)
  note m = merge_models [OF Cons.prems, of plan ms]
  from Cons.IH [OF m [THEN conjunct1]] show ?case by (auto simp: r m)
qed simp

lemma reverse_index_fold:
  "distinct (map fst d) \<Longrightarrow> members (fold (\<lambda>(slug, plans). fold (\<lambda>plan. add_to plan slug) plans) d acc) plan =
     members acc plan \<union> {slug. plan \<in> members d slug}"
proof (induction d arbitrary: acc)
  case (Cons p d)
  obtain slug plans where p: "p = (slug, plans)" by (cases p)
  have "map_of d slug = None" using Cons.prems by (auto simp: p map_of_eq_None_iff)
  then have "members d slug = {}" by (simp add: members_def)
  with Cons.IH Cons.prems show ?case by (auto simp: p members_fold_add members_def [of "(slug, plans) # d"] members_def [of d, symmetric] split: if_splits)
qed (simp add: members_def)

lemma distinct_fold_add_to: "distinct (map fst d) \<Longrightarrow> distinct (map fst (fold (\<lambda>x. add_to x v) ks d))"
  by (induction ks arbitrary: d) (auto simp: distinct_add_to)

lemma distinct_reverse_index: "distinct (map fst acc) \<Longrightarrow> distinct (map fst (fold (\<lambda>(slug, plans). fold (\<lambda>plan. add_to plan slug) plans) d acc))"
  by (induction d arbitrary: acc) (auto simp: distinct_fold_add_to split: prod.splits)

text \<open>
  What a refresh of the model registry keeps. A refresh with results for some plans replaces exactly
  what is known of those plans: afterwards a model is offered by a refreshed plan if the plan's result
  lists it, and by another plan if it was before. The two indexes agree and every model with a plan
  is known; a refresh without results changes nothing.
\<close>

theorem registry_update_spec:
  assumes "pred_option snapshot_ok (mr_snapshot r)" and "rs \<noteq> []" and "distinct (map fst rs)"
  shows "\<exists>s'. mr_snapshot (update_registry now rs r) = Some s' \<and> snapshot_ok s' \<and> update_registry now [] r = r \<and>
    (\<forall>plan slug. slug \<in> members (ms_plan_models s') plan \<longleftrightarrow>
       (case map_of rs plan of Some ms \<Rightarrow> slug \<in> um_slug ` set ms
        | None \<Rightarrow> (case mr_snapshot r of None \<Rightarrow> False | Some s \<Rightarrow> slug \<in> members (ms_plan_models s) plan)))"
proof -
  let ?c = "carry_over (mr_snapshot r) (map fst rs)"
  obtain models plans where f: "fold merge_plan rs ?c = (models, plans)" by (cases "fold merge_plan rs ?c")
  have c: "model_maps_ok ?c \<and> members (snd ?c) slug = (case mr_snapshot r of None \<Rightarrow> {}
      | Some s \<Rightarrow> {plan. plan \<notin> set (map fst rs) \<and> slug \<in> members (ms_plan_models s) plan})" for slug
    by (rule carry_over_spec) (use assms(1) in \<open>simp add: option.pred_set\<close>)
  have m: "model_maps_ok (models, plans) \<and> members plans slug = members (snd ?c) slug \<union> {plan. \<exists>ms. (plan, ms) \<in> set rs \<and> slug \<in> um_slug ` set ms}" for slug
    using merge_plans [of ?c rs slug] c f by simp
  let ?s = "\<lparr>ms_models = models, ms_model_plans = plans, ms_plan_models = reverse_index plans, ms_fetched_at = now\<rparr>"
  have d: "distinct (map fst plans)" using m by (simp add: model_maps_ok_def)
  have rev: "members (reverse_index plans) plan = {slug. plan \<in> members plans slug}" for plan
    using reverse_index_fold [OF d, of "[]" plan] by (simp add: reverse_index_def members_def [of "[]"])
  have "model_maps_ok (models, plans)" using m by blast
  then have "snapshot_ok ?s" using d distinct_reverse_index [of "[]" plans]
    by (simp add: snapshot_ok_def rev model_maps_ok_def reverse_index_def [symmetric])
  moreover have "slug \<in> members (reverse_index plans) plan \<longleftrightarrow>
       (case map_of rs plan of Some ms \<Rightarrow> slug \<in> um_slug ` set ms
        | None \<Rightarrow> (case mr_snapshot r of None \<Rightarrow> False | Some s \<Rightarrow> slug \<in> members (ms_plan_models s) plan))" for plan slug
  proof (cases "map_of rs plan")
    case None
    then have "plan \<notin> fst ` set rs" by (simp add: map_of_eq_None_iff)
    then show ?thesis using None by (auto simp: rev m c image_iff split: option.splits)
  next
    case (Some ms)
    then have i: "(plan, ms) \<in> set rs" "plan \<in> set (map fst rs)" by (force dest: map_of_SomeD)+
    have "(plan, ms') \<in> set rs \<longleftrightarrow> ms' = ms" for ms' using i(1) Some assms(3) by (metis map_of_is_SomeI option.inject)
    then have "plan \<in> members plans slug \<longleftrightarrow> plan \<in> members (snd ?c) slug \<or> slug \<in> um_slug ` set ms" by (simp add: m)
    moreover have "plan \<notin> members (snd ?c) slug" using i(2) by (simp add: c split: option.splits)
    ultimately have "plan \<in> members plans slug \<longleftrightarrow> slug \<in> um_slug ` set ms" by blast
    then show ?thesis using Some by (simp add: rev)
  qed
  ultimately show ?thesis using assms(2) f by (simp add: update_registry_def)
qed

text \<open>Witness: a registry that knows two plans refreshes one of them; the other keeps its model.\<close>

definition sample_model :: "string \<Rightarrow> upstream_model" where
  [py_eval]: "sample_model slug = \<lparr>um_slug = slug, um_display_name = slug, um_description = [], um_context_window = 1000, um_input_modalities = [],
     um_supported_reasoning_levels = [], um_default_reasoning_level = None, um_supports_reasoning_summaries = False, um_support_verbosity = False,
     um_default_verbosity = None, um_prefer_websockets = False, um_supports_parallel_tool_calls = False, um_supported_in_api = True,
     um_minimal_client_version = None, um_priority = 0, um_available_in_plans = [], um_base_instructions = []\<rparr>"

definition sample_registry :: model_registry where
  [py_eval]: "sample_registry = update_registry 0 [(''free'', [sample_model ''m1'']), (''plus'', [sample_model ''m1'', sample_model ''m2''])]
     \<lparr>mr_ttl_seconds = 300, mr_snapshot = None, mr_bootstrap_models = []\<rparr>"

theorem registry_update_spec_witness:
  "\<exists>s'. mr_snapshot (update_registry 9 [(''plus'', [sample_model ''m3''])] sample_registry) = Some s' \<and> snapshot_ok s'
     \<and> members (ms_plan_models s') ''plus'' = {''m3''} \<and> members (ms_plan_models s') ''free'' = {''m1''}"
proof -
  let ?r0 = "\<lparr>mr_ttl_seconds = 300, mr_snapshot = None, mr_bootstrap_models = []\<rparr>"
  let ?rs0 = "[(''free'', [sample_model ''m1'']), (''plus'', [sample_model ''m1'', sample_model ''m2''])]"
  have "pred_option snapshot_ok (mr_snapshot ?r0)" by simp
  from registry_update_spec [OF this, of ?rs0 0] obtain s where s: "mr_snapshot sample_registry = Some s" "snapshot_ok s"
      "\<forall>plan slug. slug \<in> members (ms_plan_models s) plan \<longleftrightarrow> (case map_of ?rs0 plan of Some ms \<Rightarrow> slug \<in> um_slug ` set ms | None \<Rightarrow> False)"
    by (auto simp: sample_registry_def)
  then have "pred_option snapshot_ok (mr_snapshot sample_registry)" by simp
  from registry_update_spec [OF this, of "[(''plus'', [sample_model ''m3''])]" 9] obtain s' where
      s': "mr_snapshot (update_registry 9 [(''plus'', [sample_model ''m3''])] sample_registry) = Some s'" "snapshot_ok s'"
      "\<forall>plan slug. slug \<in> members (ms_plan_models s') plan \<longleftrightarrow> (case map_of [(''plus'', [sample_model ''m3''])] plan of Some ms \<Rightarrow> slug \<in> um_slug ` set ms
        | None \<Rightarrow> slug \<in> members (ms_plan_models s) plan)"
    by (auto simp: s(1))
  have "members (ms_plan_models s') ''plus'' = {''m3''}" "members (ms_plan_models s') ''free'' = {''m1''}"
    by (auto simp: set_eq_iff s'(3) s(3) sample_model_def)
  with s' show ?thesis by blast
qed

end
