(* ===== verification/Usage_Store.thy ===== *)
theory Usage_Store
  imports Plan_Usage Quota_Keys "HOL-Library.List_Lexorder" "HOL-Library.Char_ord" "HOL-Library.Product_Lexorder"
begin

text \<open>
  The usage tables (\<open>app/modules/usage/repository.py\<close>): the history of the account windows and of the
  additional quotas. A table is the list of its rows; \<open>utcnow()\<close> and the id the database gives are
  arguments, and the rows of a query without an order are in the order of the table.

  The lemmas show that the latest row of an account is the one a window query returns, that an
  additional entry is found again under its quota key and under each of its aliases, and that the
  two dialects group the same buckets.
\<close>

section \<open>Account windows\<close>

record usage_history =
  uh_id :: int
  uh_account_id :: string
  uh_recorded_at :: datetime
  uh_window :: "string option"
  uh_used_percent :: pyfloat
  uh_input_tokens :: "int option"
  uh_output_tokens :: "int option"
  uh_reset_at :: "int option"
  uh_window_minutes :: "int option"
  uh_credits_has :: "bool option"
  uh_credits_unlimited :: "bool option"
  uh_credits_balance :: "pyfloat option"

definition normalized_window :: "usage_history \<Rightarrow> string" where
  [py_eval]: "normalized_window r = (case uh_window r of Some w \<Rightarrow> w | None \<Rightarrow> ''primary'')"

definition window_clause :: "string option \<Rightarrow> usage_history \<Rightarrow> bool" where
  [py_eval]: "window_clause window r =
     (if \<not> truthy_str window \<or> window = Some ''primary'' then normalized_window r = ''primary'' else uh_window r = window)"

text \<open>The first row when ordered by the recording time and the id, both descending.\<close>

definition newest :: "('a \<Rightarrow> datetime \<times> int) \<Rightarrow> 'a list \<Rightarrow> 'a option" where
  [py_eval]: "newest key rows = (case rows of [] \<Rightarrow> None | r # rs \<Rightarrow> Some (max_from key r rs))"

text \<open>The newest row of each account, as a dict.\<close>

definition newest_by :: "('a \<Rightarrow> string) \<Rightarrow> ('a \<Rightarrow> datetime \<times> int) \<Rightarrow> 'a list \<Rightarrow> (string \<times> 'a) list" where
  [py_eval]: "newest_by acc key rows =
     List.map_filter (\<lambda>a. map_option (Pair a) (newest key (filter (\<lambda>r. acc r = a) rows))) (remdups (map acc rows))"

definition uh_order :: "usage_history \<Rightarrow> datetime \<times> int" where
  [py_eval]: "uh_order r = (uh_recorded_at r, uh_id r)"

definition latest_entry_for_account :: "string \<Rightarrow> string option \<Rightarrow> usage_history list \<Rightarrow> usage_history option" where
  [py_eval]: "latest_entry_for_account a window rows =
     newest uh_order (filter (\<lambda>r. uh_account_id r = a \<and> window_clause window r) rows)"

definition usage_add_entry :: "datetime \<Rightarrow> int \<Rightarrow> usage_history \<Rightarrow> datetime option \<Rightarrow> usage_history list \<Rightarrow> usage_history \<times> usage_history list" where
  [py_eval]: "usage_add_entry utcnow new_id values recorded_at rows =
     (let entry = values\<lparr>uh_id := new_id, uh_recorded_at := (case recorded_at of Some t \<Rightarrow> t | None \<Rightarrow> utcnow)\<rparr>
      in (entry, rows @ [entry]))"

record usage_aggregate =
  ua_account_id :: string
  ua_used_percent_avg :: "pyfloat option"
  ua_input_tokens_sum :: "int option"
  ua_output_tokens_sum :: "int option"
  ua_samples :: int
  ua_last_recorded_at :: "datetime option"
  ua_reset_at_max :: "int option"
  ua_window_minutes_max :: "int option"

text \<open>The aggregate functions skip \<open>NULL\<close> and return it for no value.\<close>

definition sql_sum :: "int option list \<Rightarrow> int option" where
  [py_eval]: "sql_sum vs = (let xs = List.map_filter id vs in if xs = [] then None else Some (sum_list xs))"

definition sql_max :: "'a :: linorder option list \<Rightarrow> 'a option" where
  [py_eval]: "sql_max vs = (case List.map_filter id vs of [] \<Rightarrow> None | x # xs \<Rightarrow> Some (max_from id x xs))"

definition sql_avg :: "pyfloat list \<Rightarrow> pyfloat option" where
  [py_eval]: "sql_avg xs = (if xs = [] then None else Some (sum_list xs / of_nat (length xs)))"

definition aggregate_since :: "datetime \<Rightarrow> string option \<Rightarrow> usage_history list \<Rightarrow> usage_aggregate list" where
  [py_eval]: "aggregate_since since window rows =
     (let sel = filter (\<lambda>r. uh_recorded_at r \<ge> since \<and> (truthy_str window \<longrightarrow> window_clause window r)) rows
      in map (\<lambda>a. let rs = filter (\<lambda>r. uh_account_id r = a) sel
                 in \<lparr>ua_account_id = a, ua_used_percent_avg = sql_avg (map uh_used_percent rs),
                     ua_input_tokens_sum = sql_sum (map uh_input_tokens rs), ua_output_tokens_sum = sql_sum (map uh_output_tokens rs),
                     ua_samples = int (length rs), ua_last_recorded_at = sql_max (map (\<lambda>r. Some (uh_recorded_at r)) rs),
                     ua_reset_at_max = sql_max (map uh_reset_at rs), ua_window_minutes_max = sql_max (map uh_window_minutes rs)\<rparr>)
           (remdups (map uh_account_id sel)))"

text \<open>The query for PostgreSQL goes over the accounts, the one for SQLite over the rows.\<close>

datatype dialect = Postgresql | Sqlite

definition latest_by_account :: "dialect \<Rightarrow> string list \<Rightarrow> string option \<Rightarrow> usage_history list \<Rightarrow> (string \<times> usage_history) list" where
  [py_eval]: "latest_by_account dia accounts window rows = (case dia of
     Postgresql \<Rightarrow> List.map_filter (\<lambda>a. map_option (Pair a) (latest_entry_for_account a window rows)) accounts
   | Sqlite \<Rightarrow> newest_by uh_account_id uh_order (filter (window_clause window) rows))"

definition history_since :: "string \<Rightarrow> string \<Rightarrow> datetime \<Rightarrow> usage_history list \<Rightarrow> usage_history list" where
  [py_eval]: "history_since a window since rows =
     sort_key uh_recorded_at (filter (\<lambda>r. uh_account_id r = a \<and> window_clause (Some window) r \<and> uh_recorded_at r \<ge> since) rows)"

text \<open>The rows come ordered by account and time; the loop appends each to its account's list.\<close>

definition group_rows :: "usage_history list \<Rightarrow> (string \<times> usage_history list) list" where
  [py_eval]: "group_rows rows = fold (\<lambda>r d. dict_set (uh_account_id r) ((case map_of d (uh_account_id r) of Some rs \<Rightarrow> rs | None \<Rightarrow> []) @ [r]) d) rows []"

definition bulk_history_since :: "string list \<Rightarrow> string \<Rightarrow> datetime \<Rightarrow> usage_history list \<Rightarrow> (string \<times> usage_history list) list" where
  [py_eval]: "bulk_history_since account_ids window since rows =
     (if account_ids = [] then []
      else group_rows (concat (map (\<lambda>a. history_since a window since rows)
             (sort (remdups (filter (\<lambda>a. a \<in> uh_account_id ` set rows) account_ids))))))"

section \<open>Trends\<close>

record usage_trend =
  ut_bucket_epoch :: int
  ut_account_id :: string
  ut_window :: string
  ut_avg_used_percent :: pyfloat
  ut_samples :: int

text \<open>\<open>extract(epoch)\<close> has the fraction of a second, \<open>strftime('%s')\<close> has not; casting to an integer truncates.\<close>

definition bucket_epoch :: "dialect \<Rightarrow> int \<Rightarrow> datetime \<Rightarrow> int" where
  [py_eval]: "bucket_epoch dia bucket_seconds t = (case dia of
     Postgresql \<Rightarrow> \<lfloor>of_int t / 1000000 / (of_int bucket_seconds :: pyfloat)\<rfloor> * bucket_seconds
   | Sqlite \<Rightarrow> py_int (of_int (t div 1000000) / of_int bucket_seconds) * bucket_seconds)"

definition trends_by_bucket :: "dialect \<Rightarrow> datetime \<Rightarrow> int \<Rightarrow> string option \<Rightarrow> string option \<Rightarrow> usage_history list \<Rightarrow> usage_trend list" where
  [py_eval]: "trends_by_bucket dia since bucket_seconds window a rows =
     (let sel = filter (\<lambda>r. uh_recorded_at r \<ge> since \<and> (truthy_str window \<longrightarrow> window_clause window r) \<and> (truthy_str a \<longrightarrow> Some (uh_account_id r) = a)) rows;
          key = (\<lambda>r. (bucket_epoch dia bucket_seconds (uh_recorded_at r), uh_account_id r, normalized_window r))
      in sort_key ut_bucket_epoch (map (\<lambda>k. let rs = filter (\<lambda>r. key r = k) sel
            in \<lparr>ut_bucket_epoch = fst k, ut_account_id = fst (snd k), ut_window = snd (snd k),
                ut_avg_used_percent = or_zero (sql_avg (map uh_used_percent rs)), ut_samples = int (length rs)\<rparr>)
          (remdups (map key sel))))"

definition latest_window_minutes :: "string \<Rightarrow> usage_history list \<Rightarrow> int option" where
  [py_eval]: "latest_window_minutes window rows = sql_max (map uh_window_minutes (filter (window_clause (Some window)) rows))"

section \<open>Additional quotas\<close>

record additional_usage =
  au_id :: int
  au_account_id :: string
  au_quota_key :: string
  au_limit_name :: string
  au_metered_feature :: string
  au_window :: string
  au_used_percent :: pyfloat
  au_reset_at :: "int option"
  au_window_minutes :: "int option"
  au_recorded_at :: datetime

definition resolve_additional_quota_key :: "quota_maps \<Rightarrow> string option \<Rightarrow> string option \<Rightarrow> string option \<Rightarrow> string option" where
  [py_eval]: "resolve_additional_quota_key m quota_key limit_name metered_feature =
     (let candidate = (case quota_key of Some q \<Rightarrow> Some q | None \<Rightarrow> limit_name)
      in if candidate = None \<and> metered_feature = None then None
         else canonicalize_additional_quota_key m None quota_key candidate metered_feature)"

definition additional_quota_match_clause :: "query_scope \<Rightarrow> additional_usage \<Rightarrow> bool" where
  [py_eval]: "additional_quota_match_clause scope r =
     (au_quota_key r \<in> set (if qs_quota_key_match_values scope = [] then [qs_quota_key scope] else qs_quota_key_match_values scope)
      \<or> py_lower (au_limit_name r) \<in> set (qs_limit_name_match_values scope)
      \<or> py_lower (au_metered_feature r) \<in> set (qs_metered_feature_match_values scope))"

definition additional_add_entry :: "quota_maps \<Rightarrow> datetime \<Rightarrow> int \<Rightarrow> string \<Rightarrow> string \<Rightarrow> string \<Rightarrow> string \<Rightarrow> pyfloat \<Rightarrow> int option \<Rightarrow> int option
    \<Rightarrow> datetime option \<Rightarrow> string option \<Rightarrow> additional_usage list \<Rightarrow> py_error + additional_usage list" where
  [py_eval]: "additional_add_entry m utcnow new_id a limit_name metered_feature window used reset_at window_minutes recorded_at quota_key rows =
     (case resolve_additional_quota_key m quota_key (Some limit_name) (Some metered_feature) of
        None \<Rightarrow> Inl ValueError
      | Some key \<Rightarrow> Inr (rows @ [\<lparr>au_id = new_id, au_account_id = a, au_quota_key = key, au_limit_name = limit_name,
          au_metered_feature = metered_feature, au_window = window, au_used_percent = used, au_reset_at = reset_at,
          au_window_minutes = window_minutes, au_recorded_at = (case recorded_at of Some t \<Rightarrow> t | None \<Rightarrow> utcnow)\<rparr>]))"

definition delete_for_account :: "string \<Rightarrow> additional_usage list \<Rightarrow> additional_usage list" where
  [py_eval]: "delete_for_account a rows = filter (\<lambda>r. au_account_id r \<noteq> a) rows"

definition delete_for_account_and_quota_key :: "quota_maps \<Rightarrow> string \<Rightarrow> string \<Rightarrow> additional_usage list \<Rightarrow> py_error + additional_usage list" where
  [py_eval]: "delete_for_account_and_quota_key m a quota_key rows =
     (case get_additional_quota_query_scope m (Some quota_key) None None of
        None \<Rightarrow> Inl ValueError
      | Some scope \<Rightarrow> Inr (filter (\<lambda>r. \<not> (au_account_id r = a \<and> additional_quota_match_clause scope r)) rows))"

definition delete_for_account_quota_key_window :: "quota_maps \<Rightarrow> string \<Rightarrow> string \<Rightarrow> string \<Rightarrow> additional_usage list \<Rightarrow> py_error + additional_usage list" where
  [py_eval]: "delete_for_account_quota_key_window m a quota_key window rows =
     (case get_additional_quota_query_scope m (Some quota_key) None None of
        None \<Rightarrow> Inl ValueError
      | Some scope \<Rightarrow> Inr (filter (\<lambda>r. \<not> (au_account_id r = a \<and> additional_quota_match_clause scope r \<and> au_window r = window)) rows))"

definition au_order :: "additional_usage \<Rightarrow> datetime \<times> int" where
  [py_eval]: "au_order r = (au_recorded_at r, au_id r)"

definition additional_latest_by_account :: "quota_maps \<Rightarrow> string option \<Rightarrow> string option \<Rightarrow> string option \<Rightarrow> string list option \<Rightarrow> datetime option
    \<Rightarrow> additional_usage list \<Rightarrow> py_error + (string \<times> additional_usage) list" where
  [py_eval]: "additional_latest_by_account m quota_key window limit_name account_ids since rows =
     (case (get_additional_quota_query_scope m quota_key limit_name None, window) of
        (Some scope, Some w) \<Rightarrow> Inr (newest_by au_account_id au_order (filter (\<lambda>r. additional_quota_match_clause scope r \<and> au_window r = w
            \<and> (case account_ids of None \<Rightarrow> True | Some ids \<Rightarrow> au_account_id r \<in> set ids)
            \<and> (case since of None \<Rightarrow> True | Some t \<Rightarrow> au_recorded_at r \<ge> t)) rows))
      | _ \<Rightarrow> Inl ValueError)"

definition latest_by_quota_key :: "quota_maps \<Rightarrow> string \<Rightarrow> string \<Rightarrow> string list option \<Rightarrow> datetime option \<Rightarrow> additional_usage list
    \<Rightarrow> py_error + (string \<times> additional_usage) list" where
  [py_eval]: "latest_by_quota_key m quota_key window account_ids since rows =
     additional_latest_by_account m (Some quota_key) (Some window) None account_ids since rows"

definition list_quota_keys :: "quota_maps \<Rightarrow> string list option \<Rightarrow> datetime option \<Rightarrow> additional_usage list \<Rightarrow> string list" where
  [py_eval]: "list_quota_keys m account_ids since rows =
     sort (remdups (List.map_filter (\<lambda>r. canonicalize_additional_quota_key m None (Some (au_quota_key r)) (Some (au_limit_name r)) (Some (au_metered_feature r)))
       (filter (\<lambda>r. (case account_ids of None \<Rightarrow> True | Some ids \<Rightarrow> au_account_id r \<in> set ids)
          \<and> (case since of None \<Rightarrow> True | Some t \<Rightarrow> au_recorded_at r \<ge> t)) rows)))"

definition additional_history_since :: "quota_maps \<Rightarrow> string \<Rightarrow> string option \<Rightarrow> string option \<Rightarrow> datetime option \<Rightarrow> string option
    \<Rightarrow> additional_usage list \<Rightarrow> py_error + additional_usage list" where
  [py_eval]: "additional_history_since m a quota_key window since limit_name rows =
     (case (get_additional_quota_query_scope m quota_key limit_name None, window, since) of
        (Some scope, Some w, Some t) \<Rightarrow> Inr (sort_key au_recorded_at (filter (\<lambda>r. au_account_id r = a
            \<and> additional_quota_match_clause scope r \<and> au_window r = w \<and> au_recorded_at r \<ge> t) rows))
      | _ \<Rightarrow> Inl ValueError)"

definition latest_recorded_at_for_account :: "string \<Rightarrow> additional_usage list \<Rightarrow> datetime option" where
  [py_eval]: "latest_recorded_at_for_account a rows = sql_max (map (\<lambda>r. Some (au_recorded_at r)) (filter (\<lambda>r. au_account_id r = a) rows))"

definition latest_recorded_at :: "additional_usage list \<Rightarrow> datetime option" where
  [py_eval]: "latest_recorded_at rows = sql_max (map (\<lambda>r. Some (au_recorded_at r)) rows)"

section \<open>The newest rows\<close>

lemma newest_None [simp]: "newest key rows = None \<longleftrightarrow> rows = []"
  by (simp add: newest_def split: list.splits)

lemma newest_spec: "newest key rows = Some r \<Longrightarrow> r \<in> set rows \<and> (\<forall>x \<in> set rows. key x \<le> key r)"
  using max_from_in max_from_ge by (fastforce simp: newest_def split: list.splits)

lemma newest_append: "\<forall>x \<in> set rows. key x < key r \<Longrightarrow> newest key (rows @ [r]) = Some r"
  using newest_spec [of key "rows @ [r]"] by (cases "newest key (rows @ [r])") (auto simp: not_less [symmetric])

lemma map_of_map_filter_Pair:
  "map_of (List.map_filter (\<lambda>a. map_option (Pair a) (f a)) as) a = (if a \<in> set as then f a else None)"
  by (induction as) (auto simp: map_filter_simps split: option.splits)

lemma map_of_newest_by: "map_of (newest_by acc key rows) a = newest key (filter (\<lambda>r. acc r = a) rows)"
proof (cases "a \<in> acc ` set rows")
  case False
  then have "filter (\<lambda>r. acc r = a) rows = []" by (auto simp: filter_empty_conv)
  then show ?thesis using False by (simp add: newest_by_def map_of_map_filter_Pair newest_def image_iff)
qed (simp add: newest_by_def map_of_map_filter_Pair)

text \<open>Both dialects return the same row for an account of the table.\<close>

lemma latest_by_account_dialects:
  assumes "set (map uh_account_id rows) \<subseteq> set accounts"
  shows "map_of (latest_by_account dia accounts window rows) a = latest_entry_for_account a window rows"
proof (cases dia)
  case Postgresql
  have "filter (\<lambda>r. uh_account_id r = a \<and> window_clause window r) rows = []" if "a \<notin> set accounts"
    using that assms by (auto simp: filter_empty_conv)
  then show ?thesis using Postgresql
    by (auto simp: latest_by_account_def map_of_map_filter_Pair latest_entry_for_account_def newest_def)
next
  case Sqlite
  then show ?thesis by (simp add: latest_by_account_def map_of_newest_by latest_entry_for_account_def conj_commute)
qed

lemma bucket_dialects: "0 \<le> t \<Longrightarrow> 0 < b \<Longrightarrow> bucket_epoch Postgresql b t = bucket_epoch Sqlite b t"
proof -
  assume t: "0 \<le> t" and b: "0 < b"
  have "\<lfloor>of_int t / 1000000 / (of_int b :: pyfloat)\<rfloor> = \<lfloor>(of_int t / of_int (1000000 * b) :: pyfloat)\<rfloor>" by simp
  also have "\<dots> = t div (1000000 * b)" by (rule floor_divide_of_int_eq)
  also have "\<dots> = t div 1000000 div b" using b by (simp add: zdiv_zmult2_eq)
  also have "\<dots> = \<lfloor>(of_int (t div 1000000) / of_int b :: pyfloat)\<rfloor>" by (rule floor_divide_of_int_eq [symmetric])
  also have "\<dots> = py_int (of_int (t div 1000000) / of_int b)" using t b by (simp add: py_int_def)
  finally show ?thesis by (simp add: bucket_epoch_def)
qed

section \<open>Entries are found again\<close>

lemma normalize_None [simp]: "normalize_identifier None = None"
  by (simp add: normalize_identifier_def)

lemma first_some_Some: "first_some xs = Some y \<Longrightarrow> Some y \<in> set xs"
  by (induction xs) (auto split: option.splits)

lemma lookup_norm_registered: "names_map D f m \<Longrightarrow> lookup_norm m v = Some k \<Longrightarrow> \<exists>d \<in> D. qd_quota_key d = k"
  by (auto simp: lookup_norm_def names_map_registered split: option.splits)

text \<open>A stored key is a key of the registry, or a normalised name the registry does not list as an alias.\<close>

lemma stored_key_cases:
  assumes "registers D m" and "resolve_additional_quota_key m q l f = Some key"
  shows "(\<exists>d \<in> D. qd_quota_key d = key) \<or> (normalize_identifier (Some key) = Some key \<and> map_of (alias_to_quota_key m) key = None)"
proof -
  let ?c = "case q of Some q \<Rightarrow> Some q | None \<Rightarrow> l"
  from assms(1) have maps: "names_map D key_names (quota_key_alias_to_quota_key m)" "names_map D alias_names (alias_to_quota_key m)"
    by (simp_all add: registers_def)
  have "first_some [lookup_norm (quota_key_alias_to_quota_key m) q, lookup_norm (alias_to_quota_key m) ?c, lookup_norm (alias_to_quota_key m) f,
      normalize_identifier ?c, normalize_identifier f, normalize_identifier q] = Some key"
    using assms(2) by (simp add: resolve_additional_quota_key_def Let_def canonicalize_additional_quota_key_def
        lookup_norm_def [of "model_to_quota_key m"] split: if_splits del: first_some.simps(1))
  moreover have "normalize_identifier q = None" if "normalize_identifier ?c = None" using that by (cases q) auto
  ultimately consider "lookup_norm (quota_key_alias_to_quota_key m) q = Some key" | "lookup_norm (alias_to_quota_key m) ?c = Some key"
    | "lookup_norm (alias_to_quota_key m) f = Some key"
    | v where "normalize_identifier v = Some key" "lookup_norm (alias_to_quota_key m) v = None"
    by (auto split: option.splits)
  then show ?thesis
  proof cases
    case 4
    then show ?thesis using normalize_identifier_idem by (auto simp: lookup_norm_def)
  qed (use maps [THEN lookup_norm_registered] in blast)+
qed

lemma stored_key_scope:
  assumes "definition_maps_for_path items = Inr m" and "resolve_additional_quota_key m q l f = Some key"
  shows "\<exists>scope. get_additional_quota_query_scope m (Some key) None None = Some scope \<and> key \<in> set (qs_quota_key_match_values scope)"
proof -
  from assms(1) obtain ds where ds: "definitions_for_path items = Inr ds" "registers (set ds) m" by (rule definition_maps_registers)
  then have maps: "names_map (set ds) key_names (quota_key_alias_to_quota_key m)" by (simp add: registers_def)
  from stored_key_cases [OF ds(2) assms(2)] have norm: "normalize_identifier (Some key) = Some key"
    using definitions_key_normal [OF ds(1)] by blast
  show ?thesis
  proof (cases "map_of (quota_key_alias_to_quota_key m) key")
    case (Some k)
    then obtain d where d: "d \<in> set ds" "qd_quota_key d = k" "key \<in> key_names d" using maps by (auto simp: names_map_def)
    have "canonicalize_additional_quota_key m None (Some key) (Some key) None = Some k"
      using Some norm by (simp add: canonicalize_additional_quota_key_def lookup_norm_def)
    moreover have "map_of (by_quota_key m) k = Some d" using ds(2) d by (auto simp: registers_def)
    moreover from this have "get_additional_quota_definition m (Some k) = Some d"
      using canonicalize_registered [OF assms(1), of k] by (simp add: get_additional_quota_definition_def)
    ultimately show ?thesis using d by (auto simp: get_additional_quota_query_scope_def key_names_def)
  next
    case None
    then have "\<not> (\<exists>d \<in> set ds. qd_quota_key d = key)" using names_map_get [OF maps, of _ key] by (auto simp: key_names_def)
    with stored_key_cases [OF ds(2) assms(2)] ds(2) have a: "map_of (alias_to_quota_key m) key = None" "map_of (by_quota_key m) key = None"
      by (auto simp: registers_def) (metis option.exhaust)
    then show ?thesis using None norm
      by (simp add: get_additional_quota_query_scope_def get_additional_quota_definition_def canonicalize_additional_quota_key_def lookup_norm_def)
  qed
qed

text \<open>
  C40. An additional usage entry is found again. Over every registry file that loads, an entry stored for an
  account, whatever names its key was resolved from, is what the query for the stored key and its window
  returns for the account, if the entry is newer than the rows of the table and the query's limits
  admit it.
\<close>

theorem additional_entry_roundtrip:
  assumes "definition_maps_for_path items = Inr m"
    and "additional_add_entry m utcnow new_id a lname mf window used reset minutes recorded q rows = Inr rows'"
    and "\<forall>r \<in> set rows. au_order r < au_order (last rows')"
    and "pred_option (\<lambda>ids. a \<in> set ids) account_ids" and "pred_option (\<lambda>t. t \<le> au_recorded_at (last rows')) since"
  shows "au_used_percent (last rows') = used \<and>
    (\<exists>d. latest_by_quota_key m (au_quota_key (last rows')) window account_ids since rows' = Inr d \<and> map_of d a = Some (last rows'))"
proof -
  from assms(2) obtain key new where k: "resolve_additional_quota_key m q (Some lname) (Some mf) = Some key" and rows': "rows' = rows @ [new]"
      and new: "au_account_id new = a" "au_quota_key new = key" "au_window new = window" "au_used_percent new = used"
    by (auto simp: additional_add_entry_def split: option.splits)
  from stored_key_scope [OF assms(1) k] obtain scope where
      s: "get_additional_quota_query_scope m (Some key) None None = Some scope" "key \<in> set (qs_quota_key_match_values scope)" by blast
  let ?P = "\<lambda>r. additional_quota_match_clause scope r \<and> au_window r = window \<and> (case account_ids of None \<Rightarrow> True | Some ids \<Rightarrow> au_account_id r \<in> set ids)
      \<and> (case since of None \<Rightarrow> True | Some t \<Rightarrow> au_recorded_at r \<ge> t)"
  have "?P new" using s(2) new assms(4,5) by (auto simp: additional_quota_match_clause_def rows' split: option.splits)
  then have "newest au_order (filter (\<lambda>r. au_account_id r = a) (filter ?P rows')) = Some new"
    using newest_append [of "filter (\<lambda>r. au_account_id r = a) (filter ?P rows)" au_order new] assms(3) new(1) by (simp add: rows')
  then show ?thesis using s(1) new
    by (simp add: latest_by_quota_key_def additional_latest_by_account_def map_of_newest_by rows')
qed

text \<open>Witness: an entry stored under its metered feature is found under the key of the shipped registry.\<close>

theorem additional_entry_roundtrip_witness:
  "\<exists>rows' d. additional_add_entry default_maps 5 1 ''acc'' ''Other Limit'' ''codex_bengalfox'' ''primary'' 40 None None None None [] = Inr rows'
     \<and> au_quota_key (last rows') = ''codex_spark''
     \<and> latest_by_quota_key default_maps ''codex_spark'' ''primary'' (Some [''acc'']) (Some 5) rows' = Inr d \<and> map_of d ''acc'' = Some (last rows')
     \<and> au_used_percent (last rows') = 40"
proof -
  let ?r = "additional_add_entry default_maps 5 1 ''acc'' ''Other Limit'' ''codex_bengalfox'' ''primary'' 40 None None None None []"
  have r: "?r = Inr (projr ?r)" by code_simp
  have key: "au_quota_key (last (projr ?r)) = ''codex_spark''" by code_simp
  have t: "au_recorded_at (last (projr ?r)) = 5" by code_simp
  show ?thesis using additional_entry_roundtrip [OF default_maps_load r, of "Some [''acc'']" "Some 5"] r key t by auto
qed

end
