(* ===== verification/Load_Balancer.thy ===== *)
theory Load_Balancer
  imports Balancer Circuit_Breaker Key_Cache Sticky_Sessions Usage_Store
begin

text \<open>
  The load balancer of the proxy (\<open>app/modules/proxy/load_balancer.py\<close>, \<open>account_cache.py\<close>, and
  \<open>update_status\<close> and \<open>update_status_if_current\<close> of \<open>app/modules/accounts/repository.py\<close>): how the
  account of a request is chosen, the runtime state it keeps, and what it writes to the accounts table.
  Of an account the columns are modelled that the balancer reads or writes.

  The world holds the tables, the runtime states, the cache of selection inputs and the degradation
  flag. The environment gives the clock, the random numbers and the registries, each reading labelled
  by the place that makes it, and the interference of the other tasks: a function on the world that
  applies wherever the code awaits. Everything is shown for every environment.

  The lemmas show that a selection ends after at most four rounds, that what it writes is a
  compare-and-swap, where a sticky mapping points afterwards, and that cached selection inputs are
  never older than the last invalidation.
\<close>

section \<open>State\<close>

record runtime_state =
  rt_reset_at :: "pyfloat option"
  rt_cooldown_until :: "pyfloat option"
  rt_last_error_at :: "pyfloat option"
  rt_last_selected_at :: "pyfloat option"
  rt_error_count :: int
  rt_version :: int
  rt_blocked_at :: "pyfloat option"
  rt_health_tier :: int
  rt_drain_entered_at :: "pyfloat option"
  rt_probe_success_streak :: int

definition RuntimeState :: runtime_state where
  [py_eval]: "RuntimeState = \<lparr>rt_reset_at = None, rt_cooldown_until = None, rt_last_error_at = None, rt_last_selected_at = None,
     rt_error_count = 0, rt_version = 0, rt_blocked_at = None, rt_health_tier = 0, rt_drain_entered_at = None, rt_probe_success_streak = 0\<rparr>"

record acct =
  ac_id :: string
  ac_plan_type :: string
  ac_status :: account_status
  ac_deactivation_reason :: "string option"
  ac_reset_at :: "int option"
  ac_blocked_at :: "int option"

record account_selection =
  as_account :: "acct option"
  as_error_message :: "string option"
  as_error_code :: "string option"

record selection_inputs =
  si_accounts :: "acct list"
  si_latest_primary :: "(string \<times> usage_history) list"
  si_latest_secondary :: "(string \<times> usage_history) list"
  si_runtime_accounts :: "acct list option"
  si_error_message :: "string option"
  si_error_code :: "string option"

type_synonym cache_key = "string option \<times> string option \<times> string list option"
type_synonym runtime_map = "(string \<times> runtime_state) list"

record selection_cache =
  sc_ttl_seconds :: int
  sc_cache :: "(cache_key \<times> selection_inputs \<times> pyfloat) list"
  sc_generation :: int

record lb_settings =
  ls_soft_drain_enabled :: bool
  ls_drain :: drain_config
  ls_usage_refresh_interval_seconds :: int
  ls_circuit_breaker_enabled :: bool

record lb_world =
  lw_accounts :: "acct list"
  lw_usage :: "usage_history list"
  lw_additional :: "additional_usage list"
  lw_sticky :: "sticky_row list"
  lw_runtime :: runtime_map
  lw_cache :: selection_cache
  lw_degradation :: degradation_manager

record lb_env =
  le_settings :: lb_settings
  le_quotas :: quota_maps
  le_models :: "nat list \<Rightarrow> model_registry"
  le_breakers :: "(string \<times> breaker) list"
  le_dialect :: dialect
  le_time :: "nat list \<Rightarrow> pyfloat"
  le_monotonic :: "nat list \<Rightarrow> pyfloat"
  le_utcnow :: "nat list \<Rightarrow> datetime"
  le_random :: "nat list \<Rightarrow> pyfloat"
  le_tasks :: "nat list \<Rightarrow> lb_world \<Rightarrow> lb_world"

text \<open>The environment as the step with label \<open>k\<close> sees it.\<close>

definition sub :: "lb_env \<Rightarrow> nat \<Rightarrow> lb_env" where
  [py_eval]: "sub e k = e\<lparr>le_models := (\<lambda>p. le_models e (k # p)), le_time := (\<lambda>p. le_time e (k # p)), le_monotonic := (\<lambda>p. le_monotonic e (k # p)),
     le_utcnow := (\<lambda>p. le_utcnow e (k # p)), le_random := (\<lambda>p. le_random e (k # p)), le_tasks := (\<lambda>p. le_tasks e (k # p))\<rparr>"

section \<open>The cache of selection inputs\<close>

definition AccountSelectionCache :: "int \<Rightarrow> py_error + selection_cache" where
  [py_eval]: "AccountSelectionCache ttl = (if ttl < 0 then Inl ValueError else Inr \<lparr>sc_ttl_seconds = ttl, sc_cache = [], sc_generation = 0\<rparr>)"

definition inputs_cache_get :: "pyfloat \<Rightarrow> cache_key \<Rightarrow> selection_cache \<Rightarrow> selection_inputs option" where
  [py_eval]: "inputs_cache_get monotonic key c =
     (if sc_ttl_seconds c = 0 then None
      else case map_of (sc_cache c) key of
        None \<Rightarrow> None
      | Some (data, expires_at) \<Rightarrow> if monotonic \<ge> expires_at then None else Some data)"

definition inputs_cache_set :: "pyfloat \<Rightarrow> selection_inputs \<Rightarrow> cache_key \<Rightarrow> int option \<Rightarrow> selection_cache \<Rightarrow> selection_cache" where
  [py_eval]: "inputs_cache_set monotonic data key generation c =
     (if generation \<noteq> None \<and> generation \<noteq> Some (sc_generation c) then c
      else c\<lparr>sc_cache := dict_set key (data, monotonic + of_int (sc_ttl_seconds c)) (sc_cache c)\<rparr>)"

definition inputs_cache_invalidate :: "selection_cache \<Rightarrow> selection_cache" where
  [py_eval]: "inputs_cache_invalidate c = c\<lparr>sc_generation := sc_generation c + 1, sc_cache := []\<rparr>"

section \<open>The accounts table\<close>

definition update_status :: "string \<Rightarrow> account_status \<Rightarrow> string option \<Rightarrow> int option \<Rightarrow> int option \<Rightarrow> acct list \<Rightarrow> bool \<times> acct list" where
  [py_eval]: "update_status i st r reset blocked rows =
     (list_ex (\<lambda>a. ac_id a = i) rows,
      map (\<lambda>a. if ac_id a = i then a\<lparr>ac_status := st, ac_deactivation_reason := r, ac_reset_at := reset, ac_blocked_at := blocked\<rparr> else a) rows)"

definition is_current :: "acct \<Rightarrow> acct \<Rightarrow> bool" where
  [py_eval]: "is_current expected a = (ac_id a = ac_id expected \<and> ac_status a = ac_status expected
     \<and> ac_deactivation_reason a = ac_deactivation_reason expected \<and> ac_reset_at a = ac_reset_at expected \<and> ac_blocked_at a = ac_blocked_at expected)"

definition update_status_if_current :: "acct \<Rightarrow> account_status \<Rightarrow> string option \<Rightarrow> int option \<Rightarrow> int option \<Rightarrow> acct list \<Rightarrow> bool \<times> acct list" where
  [py_eval]: "update_status_if_current expected st r reset blocked rows =
     (list_ex (is_current expected) rows,
      map (\<lambda>a. if is_current expected a then a\<lparr>ac_status := st, ac_deactivation_reason := r, ac_reset_at := reset, ac_blocked_at := blocked\<rparr> else a) rows)"

definition int_or_none :: "pyfloat option \<Rightarrow> int option" where
  [py_eval]: "int_or_none v = (if truthy_num v then Some (py_int (the v)) else None)"

text \<open>The account as the state would have it stored.\<close>

definition stored_as :: "account_state \<Rightarrow> acct \<Rightarrow> acct" where
  [py_eval]: "stored_as s a = a\<lparr>ac_status := status s, ac_deactivation_reason := deactivation_reason s,
     ac_reset_at := int_or_none (reset_at s), ac_blocked_at := int_or_none (blocked_at s)\<rparr>"

definition persist_state :: "acct \<Rightarrow> account_state \<Rightarrow> lb_world \<Rightarrow> acct \<times> lb_world" where
  [py_eval]: "persist_state a s w =
     (if stored_as s a = a then (a, w)
      else (stored_as s a, w\<lparr>lw_accounts := snd (update_status (ac_id a) (status s) (deactivation_reason s)
              (int_or_none (reset_at s)) (int_or_none (blocked_at s)) (lw_accounts w))\<rparr>))"

definition persist_state_if_current :: "(lb_world \<Rightarrow> lb_world) \<Rightarrow> acct \<Rightarrow> account_state \<Rightarrow> lb_world \<Rightarrow> (bool \<times> acct) \<times> lb_world" where
  [py_eval]: "persist_state_if_current tasks a s w =
     (if stored_as s a = a then ((True, a), w)
      else (let w = tasks w in
        case update_status_if_current a (status s) (deactivation_reason s) (int_or_none (reset_at s)) (int_or_none (blocked_at s)) (lw_accounts w) of
          (updated, rows) \<Rightarrow> ((updated, if updated then stored_as s a else a), w\<lparr>lw_accounts := rows\<rparr>)))"

fun persist_selection_state :: "lb_env \<Rightarrow> nat \<Rightarrow> (string \<times> acct) list \<Rightarrow> account_state list \<Rightarrow> lb_world \<Rightarrow> string list \<times> lb_world" where
  "persist_selection_state e i amap [] w = ([], w)"
| "persist_selection_state e i amap (s # ss) w = (case map_of amap (account_id s) of
     None \<Rightarrow> persist_selection_state e (Suc i) amap ss w
   | Some a \<Rightarrow> (case persist_state_if_current (le_tasks e [i]) a s w of
       ((ok, a'), w) \<Rightarrow> (case persist_selection_state e (Suc i) amap ss w of
         (stale, w) \<Rightarrow> (if ok then stale else ac_id a # stale, w))))"

section \<open>States of the accounts\<close>

definition runtime_of :: "runtime_map \<Rightarrow> string \<Rightarrow> runtime_state" where
  [py_eval]: "runtime_of rt i = (case map_of rt i of Some r \<Rightarrow> r | None \<Rightarrow> RuntimeState)"

definition prune_runtime :: "acct list \<Rightarrow> runtime_map \<Rightarrow> runtime_map" where
  [py_eval]: "prune_runtime accounts rt = filter (\<lambda>p. fst p \<in> set (map ac_id accounts)) rt"

definition usage_entry_to_window_row :: "usage_history \<Rightarrow> usage_window_row" where
  [py_eval]: "usage_entry_to_window_row u = \<lparr>row_account_id = uh_account_id u, row_used_percent = Some (uh_used_percent u),
     row_reset_at = uh_reset_at u, row_window_minutes = uh_window_minutes u, row_recorded_at = Some (PyDatetime (uh_recorded_at u) None)\<rparr>"

definition fresh_interval :: "lb_settings \<Rightarrow> datetime" where
  [py_eval]: "fresh_interval s = timedelta_seconds (max (ls_usage_refresh_interval_seconds s * 2) 180)"

definition usage_entry_is_recent_enough :: "lb_settings \<Rightarrow> datetime \<Rightarrow> datetime \<Rightarrow> bool" where
  [py_eval]: "usage_entry_is_recent_enough s utcnow recorded_at = (recorded_at \<ge> utcnow - fresh_interval s)"

text \<open>The secondary entry the balancer uses: the weekly primary row where it stands for the secondary window.\<close>

definition effective_secondary :: "usage_history option \<Rightarrow> usage_history option \<Rightarrow> usage_history option" where
  [py_eval]: "effective_secondary primary secondary =
     (if (case primary of None \<Rightarrow> False
          | Some p \<Rightarrow> should_use_weekly_primary (usage_entry_to_window_row p) (map_option usage_entry_to_window_row secondary))
      then primary else secondary)"

text \<open>
  When the reset an account is blocked until is dropped: for a quota without a block marker when a
  recent row has a later reset, otherwise after the cooldown when a row was recorded after the block.
\<close>

definition reset_superseded :: "lb_env \<Rightarrow> acct \<Rightarrow> pyfloat option \<Rightarrow> pyfloat option \<Rightarrow> usage_history option \<Rightarrow> bool" where
  [py_eval]: "reset_superseded e a reset blocked sec =
     (ac_status a = QUOTA_EXCEEDED \<and> blocked = None \<and>
      (case (reset, sec) of
         (Some r, Some u) \<Rightarrow> r > le_time e [0] \<and> usage_entry_is_recent_enough (le_settings e) (le_utcnow e [0]) (uh_recorded_at u)
             \<and> uh_used_percent u < 100 \<and> (case uh_reset_at u of None \<Rightarrow> False | Some u_reset \<Rightarrow> of_int u_reset > r)
       | _ \<Rightarrow> False))"

definition cooldown_ready :: "lb_env \<Rightarrow> acct \<Rightarrow> runtime_state \<Rightarrow> pyfloat option \<Rightarrow> bool" where
  [py_eval]: "cooldown_ready e a rt blocked =
     (if ac_status a = QUOTA_EXCEEDED
      then (case blocked of None \<Rightarrow> False | Some b \<Rightarrow> le_time e [1] \<ge> b + QUOTA_EXCEEDED_COOLDOWN_SECONDS)
      else (case rt_cooldown_until rt of None \<Rightarrow> False | Some c \<Rightarrow> c \<le> le_time e [1] \<and> rt_blocked_at rt \<noteq> None))"

definition refreshed_after_block :: "lb_env \<Rightarrow> acct \<Rightarrow> runtime_state \<Rightarrow> pyfloat option \<Rightarrow> usage_history option \<Rightarrow> usage_history option \<Rightarrow> bool" where
  [py_eval]: "refreshed_after_block e a rt blocked primary sec =
     (cooldown_ready e a rt blocked \<and>
      (case (blocked, if ac_status a = QUOTA_EXCEEDED then sec else if ac_status a = RATE_LIMITED then primary else None) of
         (Some b, Some u) \<Rightarrow> of_int (uh_recorded_at u) / 1000000 > b
       | _ \<Rightarrow> False))"

text \<open>The health tier of the account and what it leaves in the runtime state.\<close>

definition update_health :: "lb_env \<Rightarrow> account_state \<Rightarrow> runtime_state \<Rightarrow> int \<times> runtime_state" where
  [py_eval]: "update_health e s rt =
     (if \<not> ls_soft_drain_enabled (le_settings e)
      then (HEALTH_TIER_HEALTHY, rt\<lparr>rt_drain_entered_at := None, rt_probe_success_streak := 0, rt_health_tier := HEALTH_TIER_HEALTHY\<rparr>)
      else (let tier = evaluate_health_tier (ls_drain (le_settings e)) (le_time e [5]) s (Some (le_time e [4])) (rt_drain_entered_at rt) (rt_probe_success_streak rt);
                rt = (if tier = HEALTH_TIER_DRAINING \<and> rt_health_tier rt \<noteq> HEALTH_TIER_DRAINING
                      then rt\<lparr>rt_drain_entered_at := Some (le_time e [6]), rt_probe_success_streak := 0\<rparr> else rt);
                rt = (if tier = HEALTH_TIER_HEALTHY then rt\<lparr>rt_drain_entered_at := None, rt_probe_success_streak := 0\<rparr> else rt)
            in (tier, rt\<lparr>rt_health_tier := tier\<rparr>)))"

definition state_from_account :: "lb_env \<Rightarrow> acct \<Rightarrow> usage_history option \<Rightarrow> usage_history option \<Rightarrow> runtime_state \<Rightarrow> account_state \<times> runtime_state" where
  [py_eval]: "state_from_account e a primary secondary rt =
     (let sec = effective_secondary primary secondary;
          secondary_used = map_option uh_used_percent sec;
          secondary_reset = Option.bind sec uh_reset_at;
          reset = (if truthy_num (ac_reset_at a) then map_option of_int (ac_reset_at a) else rt_reset_at rt);
          blocked = (case ac_blocked_at a of Some b \<Rightarrow> Some (of_int b) | None \<Rightarrow> rt_blocked_at rt);
          reset = (if reset_superseded e a reset blocked sec then None else reset);
          reset = (if refreshed_after_block e a rt blocked primary sec then None else reset)
      in case apply_usage_quota (le_time e [2]) (le_time e [3]) (ac_status a) (map_option uh_used_percent primary) (Option.bind primary uh_reset_at)
                (Option.bind primary uh_window_minutes) reset secondary_used secondary_reset of
          (st, used, reset) \<Rightarrow>
            (let s = \<lparr>account_id = ac_id a, status = st, used_percent = used, reset_at = reset,
                      blocked_at = (if st \<in> {QUOTA_EXCEEDED, RATE_LIMITED} then blocked else None),
                      cooldown_until = rt_cooldown_until rt, secondary_used_percent = secondary_used, secondary_reset_at = secondary_reset,
                      last_error_at = rt_last_error_at rt, last_selected_at = rt_last_selected_at rt, error_count = rt_error_count rt,
                      deactivation_reason = ac_deactivation_reason a, plan_type = Some (ac_plan_type a),
                      capacity_credits = capacity_for_plan (Some (ac_plan_type a)) ''secondary'', health_tier = rt_health_tier rt\<rparr>
             in case update_health e s rt of (tier, rt) \<Rightarrow> (s\<lparr>health_tier := tier\<rparr>, rt)))"

fun build_states :: "lb_env \<Rightarrow> nat \<Rightarrow> acct list \<Rightarrow> (string \<times> usage_history) list \<Rightarrow> (string \<times> usage_history) list \<Rightarrow> runtime_map
    \<Rightarrow> account_state list \<times> runtime_map" where
  "build_states e i [] primary secondary rt = ([], rt)"
| "build_states e i (a # as) primary secondary rt =
     (case state_from_account (sub e i) a (map_of primary (ac_id a)) (map_of secondary (ac_id a)) (runtime_of rt (ac_id a)) of
        (s, r) \<Rightarrow> (case build_states e (Suc i) as primary secondary (dict_set (ac_id a) r rt) of (ss, rt) \<Rightarrow> (s # ss, rt)))"

definition account_map :: "acct list \<Rightarrow> (string \<times> acct) list" where
  [py_eval]: "account_map accounts = fold (\<lambda>a. dict_set (ac_id a) a) accounts []"

definition state_for :: "acct \<Rightarrow> runtime_map \<Rightarrow> account_state \<times> runtime_map" where
  [py_eval]: "state_for a rt =
     (let r = runtime_of rt (ac_id a)
      in (\<lparr>account_id = ac_id a, status = ac_status a, used_percent = None, reset_at = rt_reset_at r,
           blocked_at = (case ac_blocked_at a of Some b \<Rightarrow> Some (of_int b) | None \<Rightarrow> rt_blocked_at r),
           cooldown_until = rt_cooldown_until r, secondary_used_percent = None, secondary_reset_at = None,
           last_error_at = rt_last_error_at r, last_selected_at = rt_last_selected_at r, error_count = rt_error_count r,
           deactivation_reason = ac_deactivation_reason a, plan_type = Some (ac_plan_type a),
           capacity_credits = capacity_for_plan (Some (ac_plan_type a)) ''secondary'', health_tier = 0\<rparr>,
          dict_set (ac_id a) r rt))"

definition sync_runtime_state :: "pyfloat \<Rightarrow> acct \<Rightarrow> account_state \<Rightarrow> bool \<Rightarrow> int option \<Rightarrow> runtime_map \<Rightarrow> bool \<times> runtime_map" where
  [py_eval]: "sync_runtime_state now a s selected expected_version rt =
     (let r = runtime_of rt (ac_id a) in
      if expected_version \<noteq> None \<and> expected_version \<noteq> Some (rt_version r)
      then (False, dict_set (ac_id a) (if selected then r\<lparr>rt_last_selected_at := Some now, rt_version := rt_version r + 1\<rparr> else r) rt)
      else (let dirty = (rt_reset_at r \<noteq> reset_at s \<or> rt_cooldown_until r \<noteq> cooldown_until s \<or> rt_blocked_at r \<noteq> blocked_at s
                  \<or> rt_last_error_at r \<noteq> last_error_at s \<or> rt_error_count r \<noteq> error_count s
                  \<or> ac_status a \<noteq> status s \<or> ac_deactivation_reason a \<noteq> deactivation_reason s \<or> selected);
                r' = r\<lparr>rt_reset_at := reset_at s, rt_cooldown_until := cooldown_until s, rt_blocked_at := blocked_at s,
                       rt_last_error_at := last_error_at s, rt_error_count := error_count s,
                       rt_last_selected_at := (if selected then Some now else rt_last_selected_at r)\<rparr>
            in (True, dict_set (ac_id a) (if dirty then r'\<lparr>rt_version := rt_version r + 1\<rparr> else r') rt)))"

section \<open>Reported outcomes\<close>

text \<open>Each runs under the lock of its account; \<open>tasks\<close> is what the others do while it waits for the database.\<close>

definition mark_state :: "lb_env \<Rightarrow> (account_state \<Rightarrow> account_state) \<Rightarrow> acct \<Rightarrow> lb_world \<Rightarrow> acct \<times> lb_world" where
  [py_eval]: "mark_state e f a w =
     (case state_for a (lw_runtime w) of (s, rt) \<Rightarrow>
        (let s = f s;
             w = w\<lparr>lw_runtime := snd (sync_runtime_state (le_time e [9]) a s False None rt)\<rparr>
         in case persist_state a s (le_tasks e [0] w) of (a, w) \<Rightarrow> (a, w\<lparr>lw_cache := inputs_cache_invalidate (lw_cache w)\<rparr>)))"

definition mark_rate_limit :: "lb_env \<Rightarrow> acct \<Rightarrow> upstream_error \<Rightarrow> lb_world \<Rightarrow> acct \<times> lb_world" where
  [py_eval]: "mark_rate_limit e a err w = mark_state e (\<lambda>s. handle_rate_limit (\<lambda>k. le_time e [k]) (le_random e [0]) s err) a w"

definition mark_quota_exceeded :: "lb_env \<Rightarrow> acct \<Rightarrow> upstream_error \<Rightarrow> lb_world \<Rightarrow> acct \<times> lb_world" where
  [py_eval]: "mark_quota_exceeded e a err w = mark_state e (\<lambda>s. handle_quota_exceeded (\<lambda>k. le_time e [k]) s err) a w"

definition mark_permanent_failure :: "lb_env \<Rightarrow> acct \<Rightarrow> string \<Rightarrow> lb_world \<Rightarrow> acct \<times> lb_world" where
  [py_eval]: "mark_permanent_failure e a error_code w = mark_state e (\<lambda>s. handle_permanent_failure s error_code) a w"

definition record_errors :: "lb_env \<Rightarrow> acct \<Rightarrow> int \<Rightarrow> lb_world \<Rightarrow> lb_world" where
  [py_eval]: "record_errors e a n w =
     (if n < 1 then w
      else case state_for a (lw_runtime w) of (s, rt) \<Rightarrow>
        (let s = s\<lparr>error_count := error_count s + n, last_error_at := Some (le_time e [0])\<rparr>;
             rt = snd (sync_runtime_state (le_time e [9]) a s False None rt);
             r = runtime_of rt (ac_id a);
             rt = (if rt_health_tier r = HEALTH_TIER_PROBING then dict_set (ac_id a) (r\<lparr>rt_probe_success_streak := 0\<rparr>) rt else rt)
         in snd (persist_state_if_current (le_tasks e [0]) a s (w\<lparr>lw_runtime := rt\<rparr>))))"

definition record_error :: "lb_env \<Rightarrow> acct \<Rightarrow> lb_world \<Rightarrow> lb_world" where
  [py_eval]: "record_error e a w = record_errors e a 1 w"

definition lb_record_success :: "acct \<Rightarrow> lb_world \<Rightarrow> lb_world" where
  [py_eval]: "lb_record_success a w = (case map_of (lw_runtime w) (ac_id a) of
     None \<Rightarrow> w
   | Some r \<Rightarrow>
       (let r = (if rt_error_count r > 0 then r\<lparr>rt_error_count := 0, rt_last_error_at := None, rt_version := rt_version r + 1\<rparr> else r);
            r = (if rt_health_tier r = HEALTH_TIER_PROBING
                 then r\<lparr>rt_probe_success_streak := rt_probe_success_streak r + 1, rt_version := rt_version r + 1\<rparr> else r)
        in w\<lparr>lw_runtime := dict_set (ac_id a) r (lw_runtime w)\<rparr>))"

section \<open>Sticky selection\<close>

record sticky_request =
  rq_sticky_key :: "string option"
  rq_sticky_kind :: "sticky_kind option"
  rq_reallocate_sticky :: bool
  rq_sticky_max_age :: "int option"
  rq_prefer_earlier_reset :: bool
  rq_strategy :: routing_strategy
  rq_budget_threshold :: pyfloat

definition STICKY_GRACE_PERIOD_SECONDS :: pyfloat where
  [py_eval]: "STICKY_GRACE_PERIOD_SECONDS = 10"

definition RECOVERABLE_STATUSES :: "account_status set" where
  [py_eval]: "RECOVERABLE_STATUSES = {ACTIVE, RATE_LIMITED, QUOTA_EXCEEDED}"

text \<open>The states are shared objects: a selection over some of them changes them in the list of all.\<close>

fun put_state :: "account_state \<Rightarrow> account_state list \<Rightarrow> account_state list" where
  "put_state s [] = []"
| "put_state s (x # xs) = (if account_id x = account_id s then s # xs else x # put_state s xs)"

definition pick :: "lb_env \<Rightarrow> nat \<Rightarrow> sticky_request \<Rightarrow> pyfloat option \<Rightarrow> bool \<Rightarrow> bool \<Rightarrow> account_state list
    \<Rightarrow> py_error + account_state list \<times> selection_result" where
  [py_eval]: "pick e k rq now allow_backoff_fallback deterministic_probe states =
     select_account (le_random e [k]) (le_time e [k]) states now (rq_prefer_earlier_reset rq) (rq_strategy rq) allow_backoff_fallback deterministic_probe"

definition budget_exhausted :: "sticky_request \<Rightarrow> account_state \<Rightarrow> bool" where
  [py_eval]: "budget_exhausted rq s = (rq_sticky_kind rq = Some PROMPT_CACHE \<and> status s \<noteq> RATE_LIMITED
     \<and> (case used_percent s of None \<Rightarrow> False | Some p \<Rightarrow> p > rq_budget_threshold rq))"

definition rate_limit_far_away :: "pyfloat \<Rightarrow> sticky_request \<Rightarrow> account_state \<Rightarrow> bool" where
  [py_eval]: "rate_limit_far_away now rq s = (rq_sticky_kind rq = Some PROMPT_CACHE \<and> status s = RATE_LIMITED
     \<and> (case reset_at s of None \<Rightarrow> False | Some r \<Rightarrow> r - now \<ge> 600))"

definition sticky_put :: "lb_env \<Rightarrow> nat \<Rightarrow> string \<Rightarrow> sticky_kind \<Rightarrow> string \<Rightarrow> lb_world \<Rightarrow> lb_world" where
  [py_eval]: "sticky_put e k key kind acc w =
     (let w = le_tasks e [k] w in w\<lparr>lw_sticky := snd (sticky_upsert (le_utcnow e [k]) key acc kind (lw_sticky w))\<rparr>)"

definition sticky_drop :: "lb_env \<Rightarrow> nat \<Rightarrow> string \<Rightarrow> sticky_kind \<Rightarrow> lb_world \<Rightarrow> lb_world" where
  [py_eval]: "sticky_drop e k key kind w = (let w = le_tasks e [k] w in w\<lparr>lw_sticky := snd (sticky_delete key kind (lw_sticky w))\<rparr>)"

text \<open>Selecting the pinned account alone; a mapping with a maximal age is renewed on success.\<close>

definition try_pinned :: "lb_env \<Rightarrow> nat \<Rightarrow> sticky_request \<Rightarrow> string \<Rightarrow> sticky_kind \<Rightarrow> pyfloat option \<Rightarrow> account_state \<Rightarrow> lb_world
    \<Rightarrow> py_error + account_state \<times> selection_result option \<times> lb_world" where
  [py_eval]: "try_pinned e k rq key kind now pinned w =
     bind_sum (pick e k rq now False False [pinned]) (\<lambda>(ps, res).
       Inr (hd ps, if account res = None then None else Some res,
            if account res \<noteq> None \<and> rq_sticky_max_age rq \<noteq> None then sticky_put e k key kind (account_id pinned) w else w))"

text \<open>
  The steps with a pinned state in the pool: either a result to return, or whether to rebind the
  mapping (\<open>reallocate_sticky\<close>) and the pinned state as the steps left it.
\<close>

definition pool_also_exhausted :: "sticky_request \<Rightarrow> account_state \<Rightarrow> selection_result \<Rightarrow> bool" where
  [py_eval]: "pool_also_exhausted rq pinned res = (case account res of None \<Rightarrow> False
     | Some b \<Rightarrow> account_id b = account_id pinned \<or> (case used_percent b of None \<Rightarrow> False | Some p \<Rightarrow> p > rq_budget_threshold rq))"

definition find_state :: "string \<Rightarrow> account_state list \<Rightarrow> account_state option" where
  [py_eval]: "find_state i states = find (\<lambda>s. account_id s = i) states"

definition pinned_phase :: "lb_env \<Rightarrow> sticky_request \<Rightarrow> string \<Rightarrow> sticky_kind \<Rightarrow> account_state \<Rightarrow> account_state list \<Rightarrow> lb_world
    \<Rightarrow> py_error + (selection_result option \<times> bool) \<times> account_state \<times> account_state list \<times> lb_world" where
  [py_eval]: "pinned_phase e rq key kind pinned states w =
     (if \<not> (budget_exhausted rq pinned \<or> rate_limit_far_away (le_time e [0]) rq pinned)
      then bind_sum (try_pinned e 1 rq key kind None pinned w) (\<lambda>(p, res, w). Inr ((res, rq_reallocate_sticky rq), p, put_state p states, w))
      else if budget_exhausted rq pinned
      then bind_sum (pick e 2 rq None True True states) (\<lambda>(states, best).
             (let pinned = the (find_state (account_id pinned) states) in
              if pool_also_exhausted rq pinned best
              then bind_sum (try_pinned e 3 rq key kind None pinned w) (\<lambda>(p, res, w). Inr ((res, True), p, put_state p states, w))
              else Inr ((None, True), pinned, states, w)))
      else Inr ((None, True), pinned, states, w))"

text \<open>The grace period works on a copy of the pinned state.\<close>

definition grace_phase :: "lb_env \<Rightarrow> sticky_request \<Rightarrow> string \<Rightarrow> sticky_kind \<Rightarrow> bool \<Rightarrow> account_state \<Rightarrow> lb_world
    \<Rightarrow> py_error + selection_result option \<times> lb_world" where
  [py_eval]: "grace_phase e rq key kind reallocate pinned w =
     (if \<not> reallocate \<and> status pinned = RATE_LIMITED
      then bind_sum (try_pinned e 4 rq key kind (Some (le_time e [4] + STICKY_GRACE_PERIOD_SECONDS)) pinned w) (\<lambda>(p, res, w). Inr (res, w))
      else Inr (None, w))"

text \<open>The choice among all accounts, written to the mapping if \<open>persist_fallback\<close>.\<close>

definition choose_any :: "lb_env \<Rightarrow> sticky_request \<Rightarrow> string \<Rightarrow> sticky_kind \<Rightarrow> bool \<Rightarrow> (string \<times> acct) list \<Rightarrow> account_state list \<Rightarrow> lb_world
    \<Rightarrow> py_error + selection_result \<times> account_state list \<times> lb_world" where
  [py_eval]: "choose_any e rq key kind persist_fallback amap states w =
     bind_sum (pick e 5 rq None True False states) (\<lambda>(states, res).
       Inr (res, states, case account res of
          Some c \<Rightarrow> if persist_fallback \<and> account_id c \<in> fst ` set amap then sticky_put e 5 key kind (account_id c) w else w
        | None \<Rightarrow> w))"

text \<open>The pinned account if it can be had, otherwise one of all; the mapping is kept, rebound or dropped.\<close>

definition select_pinned :: "lb_env \<Rightarrow> sticky_request \<Rightarrow> string \<Rightarrow> sticky_kind \<Rightarrow> (string \<times> acct) list \<Rightarrow> account_state \<Rightarrow> account_state list \<Rightarrow> lb_world
    \<Rightarrow> py_error + selection_result \<times> account_state list \<times> lb_world" where
  [py_eval]: "select_pinned e rq key kind amap pinned states w =
     bind_sum (pinned_phase e rq key kind pinned states w) (\<lambda>((res, reallocate), pinned, states, w).
       case res of Some r \<Rightarrow> Inr (r, states, w)
       | None \<Rightarrow> bind_sum (grace_phase e rq key kind reallocate pinned w) (\<lambda>(res, w).
           case res of Some r \<Rightarrow> Inr (r, states, w)
           | None \<Rightarrow>
               if reallocate then choose_any e rq key kind True amap states (sticky_drop e 8 key kind w)
               else choose_any e rq key kind (status pinned \<notin> RECOVERABLE_STATUSES \<or> rq_sticky_max_age rq = None) amap states w))"

definition select_with_stickiness :: "lb_env \<Rightarrow> sticky_request \<Rightarrow> (string \<times> acct) list \<Rightarrow> account_state list \<Rightarrow> lb_world
    \<Rightarrow> py_error + selection_result \<times> account_state list \<times> lb_world" where
  [py_eval]: "select_with_stickiness e rq amap states w =
     (if \<not> truthy_str (rq_sticky_key rq)
      then bind_sum (pick e 6 rq None True False states) (\<lambda>(states, res). Inr (res, states, w))
      else case rq_sticky_kind rq of None \<Rightarrow> Inl ValueError
      | Some kind \<Rightarrow>
        (let key = the (rq_sticky_key rq); w = le_tasks e [7] w in
         case get_account_id (le_utcnow e [7]) key kind (rq_sticky_max_age rq) (lw_sticky w) of (existing, rows) \<Rightarrow>
         (let w = w\<lparr>lw_sticky := rows\<rparr> in
          if \<not> truthy_str existing then choose_any e rq key kind True amap states w
          else case find_state (the existing) states of
            None \<Rightarrow> choose_any e rq key kind True amap states (sticky_drop e 8 key kind w)
          | Some pinned \<Rightarrow> select_pinned e rq key kind amap pinned states w)))"

section \<open>Selection inputs\<close>

record load_request =
  lr_model :: "string option"
  lr_additional_limit_name :: "string option"
  lr_account_ids :: "string list option"
  lr_exclude_account_ids :: "string list"

definition NO_PLAN_SUPPORT_FOR_MODEL :: string where
  [py_eval]: "NO_PLAN_SUPPORT_FOR_MODEL = ''no_plan_support_for_model''"

definition ADDITIONAL_QUOTA_DATA_UNAVAILABLE :: string where
  [py_eval]: "ADDITIONAL_QUOTA_DATA_UNAVAILABLE = ''additional_quota_data_unavailable''"

definition NO_ADDITIONAL_QUOTA_ELIGIBLE_ACCOUNTS :: string where
  [py_eval]: "NO_ADDITIONAL_QUOTA_ELIGIBLE_ACCOUNTS = ''no_additional_quota_eligible_accounts''"

text \<open>A model name between apostrophes, as the messages show it.\<close>

definition quoted :: "string \<Rightarrow> string" where
  [py_eval]: "quoted s = [CHR 0x27] @ s @ [CHR 0x27]"

definition filter_accounts_for_model :: "model_registry \<Rightarrow> acct list \<Rightarrow> string \<Rightarrow> acct list" where
  [py_eval]: "filter_accounts_for_model reg accounts model = (case plan_types_for_model reg model of
     None \<Rightarrow> accounts | Some plans \<Rightarrow> filter (\<lambda>a. ac_plan_type a \<in> set plans) accounts)"

definition mapped_model_has_registry_entry :: "model_registry \<Rightarrow> string option \<Rightarrow> bool" where
  [py_eval]: "mapped_model_has_registry_entry reg model = (case (model, mr_snapshot reg) of
     (Some m, Some s) \<Rightarrow> py_lower (strip m) \<in> fst ` set (ms_model_plans s) | _ \<Rightarrow> False)"

definition latest_additional_by_key :: "quota_maps \<Rightarrow> string \<Rightarrow> string \<Rightarrow> string list \<Rightarrow> datetime option \<Rightarrow> additional_usage list
    \<Rightarrow> py_error + (string \<times> additional_usage) list" where
  [py_eval]: "latest_additional_by_key m quota_key window account_ids since rows =
     (case canonicalize_additional_quota_key m None (Some quota_key) (Some quota_key) None of
        None \<Rightarrow> Inr []
      | Some key \<Rightarrow> latest_by_quota_key m key window (Some account_ids) since rows)"

definition additional_usage_is_exhausted :: "pyfloat \<Rightarrow> additional_usage \<Rightarrow> bool" where
  [py_eval]: "additional_usage_is_exhausted now u =
     (if (case au_reset_at u of None \<Rightarrow> False | Some r \<Rightarrow> r \<le> py_int now) then False else au_used_percent u \<ge> 100)"

datatype eligibility = Data_Unavailable | Quota_Exhausted | Quota_Eligible

definition additional_quota_eligibility :: "pyfloat \<Rightarrow> pyfloat \<Rightarrow> additional_usage option \<Rightarrow> additional_usage option \<Rightarrow> additional_usage option
    \<Rightarrow> additional_usage option \<Rightarrow> eligibility" where
  [py_eval]: "additional_quota_eligibility now now' latest_primary latest_secondary fresh_primary fresh_secondary =
     (if latest_primary = None \<and> latest_secondary = None then Data_Unavailable
      else if latest_primary \<noteq> None \<and> fresh_primary = None then Data_Unavailable
      else if latest_secondary \<noteq> None \<and> fresh_secondary = None then Data_Unavailable
      else if (case fresh_primary of None \<Rightarrow> False | Some u \<Rightarrow> additional_usage_is_exhausted now u) then Quota_Exhausted
      else if (case fresh_secondary of None \<Rightarrow> False | Some u \<Rightarrow> additional_usage_is_exhausted now' u) then Quota_Exhausted
      else Quota_Eligible)"

text \<open>The accounts that may serve a gated model, or the code and the message of the refusal.\<close>

definition filter_accounts_for_additional_limit :: "lb_env \<Rightarrow> acct list \<Rightarrow> string option \<Rightarrow> string \<Rightarrow> lb_world
    \<Rightarrow> py_error + acct list \<times> string option \<times> string option" where
  [py_eval]: "filter_accounts_for_additional_limit e accounts model limit_name w =
     (if accounts = [] then Inr ([], None, None)
      else (let ids = map ac_id accounts; rows = lw_additional w;
                fresh_since = Some (le_utcnow e [0] - fresh_interval (le_settings e));
                latest = (\<lambda>window since. latest_additional_by_key (le_quotas e) limit_name window ids since rows);
                shown = (case model of Some m \<Rightarrow> m | None \<Rightarrow> ''None'')
            in bind_sum (latest ''primary'' None) (\<lambda>lp. bind_sum (latest ''secondary'' None) (\<lambda>ls.
               bind_sum (latest ''primary'' fresh_since) (\<lambda>fp. bind_sum (latest ''secondary'' fresh_since) (\<lambda>fs.
               (let verdicts = map (\<lambda>i. let a = ac_id (accounts ! i) in additional_quota_eligibility (le_time e [0, i]) (le_time e [1, i])
                                   (map_of lp a) (map_of ls a) (map_of fp a) (map_of fs a)) [0..<length accounts];
                    eligible = map fst (filter (\<lambda>p. snd p = Quota_Eligible) (zip accounts verdicts))
                in Inr (if eligible = [] then
                          (if Data_Unavailable \<in> set verdicts
                           then ([], Some ADDITIONAL_QUOTA_DATA_UNAVAILABLE, Some (''No fresh additional quota data available for model '' @ quoted shown))
                           else ([], Some NO_ADDITIONAL_QUOTA_ELIGIBLE_ACCOUNTS, Some (''No accounts with available additional quota for model '' @ quoted shown)))
                        else (eligible, None, None)))))))))"

definition empty_inputs :: "acct list \<Rightarrow> string option \<Rightarrow> string option \<Rightarrow> selection_inputs" where
  [py_eval]: "empty_inputs all_accounts code msg = \<lparr>si_accounts = [], si_latest_primary = [], si_latest_secondary = [],
     si_runtime_accounts = Some all_accounts, si_error_message = msg, si_error_code = code\<rparr>"

text \<open>
  What the tables give for a request. The accounts and the additional quotas are read in \<open>w\<close>, the usage
  rows after the other tasks have run once more.
\<close>

definition read_inputs :: "lb_env \<Rightarrow> load_request \<Rightarrow> lb_world \<Rightarrow> py_error + selection_inputs" where
  [py_eval]: "read_inputs e lr w =
     (let all_accounts = lw_accounts w; model = lr_model lr; reg = le_models e [0];
          limit_name = (if truthy_str (lr_additional_limit_name lr) then lr_additional_limit_name lr
                        else get_additional_quota_key_for_model_id (le_quotas e) model);
          scoped = (case lr_account_ids lr of None \<Rightarrow> all_accounts | Some ids \<Rightarrow> filter (\<lambda>a. ac_id a \<in> set ids) all_accounts);
          accounts = (if truthy_str model \<and> (limit_name = None \<or> mapped_model_has_registry_entry reg model)
                      then filter_accounts_for_model reg scoped (the model) else scoped)
      in if truthy_str model \<and> accounts = []
         then (if scoped = [] then Inr (empty_inputs all_accounts None None)
               else Inr (empty_inputs all_accounts (Some NO_PLAN_SUPPORT_FOR_MODEL) (Some (''No accounts with a plan supporting model '' @ quoted (the model)))))
         else bind_sum (if truthy_str limit_name then filter_accounts_for_additional_limit e accounts model (the limit_name) w else Inr (accounts, None, None))
           (\<lambda>(accounts, code, msg).
              if accounts = [] then Inr (empty_inputs all_accounts code msg)
              else (let w = le_tasks e [1] w; ids = map ac_id (lw_accounts w)
                    in Inr \<lparr>si_accounts = accounts, si_latest_primary = latest_by_account (le_dialect e) ids None (lw_usage w),
                            si_latest_secondary = latest_by_account (le_dialect e) ids (Some ''secondary'') (lw_usage w),
                            si_runtime_accounts = Some all_accounts, si_error_message = None, si_error_code = None\<rparr>)))"

definition load_selection_inputs :: "lb_env \<Rightarrow> load_request \<Rightarrow> lb_world \<Rightarrow> (py_error + selection_inputs) \<times> lb_world" where
  [py_eval]: "load_selection_inputs e lr w =
     (let key = (lr_model lr, lr_additional_limit_name lr, map_option (\<lambda>ids. sort (remdups ids)) (lr_account_ids lr)) in
      case inputs_cache_get (le_monotonic e [0]) key (lw_cache w) of
        Some inputs \<Rightarrow> (Inr inputs, w)
      | None \<Rightarrow>
          (let generation = sc_generation (lw_cache w); w = le_tasks e [0] w in
           case read_inputs e lr w of
             Inl err \<Rightarrow> (Inl err, w)
           | Inr inputs \<Rightarrow>
               (let w = le_tasks e [2] (le_tasks e [1] w)
                in (Inr inputs, w\<lparr>lw_cache := inputs_cache_set (le_monotonic e [1]) inputs key (Some generation) (lw_cache w)\<rparr>))))"

text \<open>The closure of \<open>select_account\<close> that also leaves out the excluded accounts.\<close>

definition load_for_request :: "lb_env \<Rightarrow> load_request \<Rightarrow> lb_world \<Rightarrow> (py_error + selection_inputs) \<times> lb_world" where
  [py_eval]: "load_for_request e lr w = (case load_selection_inputs e lr w of
     (Inl err, w) \<Rightarrow> (Inl err, w)
   | (Inr inputs, w) \<Rightarrow> (Inr (inputs\<lparr>si_accounts := filter (\<lambda>a. ac_id a \<notin> set (lr_exclude_account_ids lr)) (si_accounts inputs)\<rparr>), w))"

definition no_candidates :: "selection_inputs \<Rightarrow> bool" where
  [py_eval]: "no_candidates inputs = (si_error_code inputs \<noteq> None \<and> si_accounts inputs = [])"

section \<open>Rounds of a selection\<close>

fun sync_states :: "lb_env \<Rightarrow> nat \<Rightarrow> string option \<Rightarrow> (string \<times> acct) list \<Rightarrow> account_state list \<Rightarrow> lb_world \<Rightarrow> lb_world" where
  "sync_states e i chosen amap [] w = w"
| "sync_states e i chosen amap (s # ss) w = (case map_of amap (account_id s) of
     None \<Rightarrow> sync_states e (Suc i) chosen amap ss w
   | Some a \<Rightarrow> (let w = le_tasks e [i] w;
                   w = w\<lparr>lw_runtime := snd (sync_runtime_state (le_time e [i]) a s (chosen = Some (account_id s)) None (lw_runtime w))\<rparr>
               in sync_states e (Suc i) chosen amap ss w))"

text \<open>The snapshot of the chosen account, its state with the chosen status, and the message without a snapshot.\<close>

definition take_snapshot :: "selection_result \<Rightarrow> (string \<times> acct) list \<Rightarrow> account_state list \<Rightarrow> acct option \<times> string option \<times> account_state list" where
  [py_eval]: "take_snapshot res amap states = (case account res of
     None \<Rightarrow> (None, error_message res, states)
   | Some c \<Rightarrow> (case map_of amap (account_id c) of
       None \<Rightarrow> (None, error_message res, states)
     | Some a \<Rightarrow> (case find_state (account_id c) states of
         None \<Rightarrow> (Some (a\<lparr>ac_status := status c, ac_deactivation_reason := deactivation_reason c\<rparr>), None, states)
       | Some s \<Rightarrow> (Some (a\<lparr>ac_status := status c, ac_deactivation_reason := deactivation_reason c, ac_reset_at := int_or_none (reset_at s)\<rparr>), None,
                     put_state (s\<lparr>status := status c, deactivation_reason := deactivation_reason c\<rparr>) states))))"

definition runtime_marks :: "runtime_state \<Rightarrow> pyfloat option \<times> pyfloat option \<times> int \<times> pyfloat option" where
  [py_eval]: "runtime_marks r = (rt_reset_at r, rt_cooldown_until r, rt_error_count r, rt_last_error_at r)"

definition runtime_recovered :: "runtime_map \<Rightarrow> runtime_map \<Rightarrow> bool" where
  [py_eval]: "runtime_recovered before rt = list_ex (\<lambda>p. runtime_marks (runtime_of rt (fst p)) \<noteq> runtime_marks (snd p)) before"

record round_result =
  rr_snapshot :: "acct option"
  rr_error :: "string option"
  rr_stale :: "string list"
  rr_runtime_before :: runtime_map
  rr_generation_before :: int

text \<open>
  One round: build the states, choose, bring the runtime states up to date, persist. Without a sticky key
  the states are chosen from directly.
\<close>

definition selection_round :: "lb_env \<Rightarrow> sticky_request \<Rightarrow> selection_inputs \<Rightarrow> lb_world \<Rightarrow> (py_error + round_result) \<times> lb_world" where
  [py_eval]: "selection_round e rq inputs w =
     (let live = (case si_runtime_accounts inputs of Some (x # xs) \<Rightarrow> x # xs | _ \<Rightarrow> si_accounts inputs);
          rt = prune_runtime live (lw_runtime w); amap = account_map (si_accounts inputs)
      in case build_states (sub e 0) 0 (si_accounts inputs) (si_latest_primary inputs) (si_latest_secondary inputs) rt of (states, rt) \<Rightarrow>
        (let w = w\<lparr>lw_runtime := rt\<rparr> in
         case (if rq_sticky_key rq = None then bind_sum (pick (sub e 1) 0 rq None True False states) (\<lambda>(states, res). Inr (res, states, w))
               else select_with_stickiness (sub e 1) rq amap states w) of
           Inl err \<Rightarrow> (Inl err, w)
         | Inr (res, states, w) \<Rightarrow>
             (let selected_states = filter (\<lambda>s. account_id s \<in> fst ` set amap) states;
                  w = sync_states (sub e 2) 0 (map_option account_id (account res)) amap selected_states w
              in case take_snapshot res amap selected_states of (snapshot, error, selected_states) \<Rightarrow>
                (case persist_selection_state (sub e 3) 0 amap selected_states (le_tasks e [4] w) of (stale, w') \<Rightarrow>
                   (Inr \<lparr>rr_snapshot = snapshot, rr_error = error, rr_stale = stale, rr_runtime_before = lw_runtime w,
                         rr_generation_before = sc_generation (lw_cache w)\<rparr>, le_tasks e [5] w')))))"

definition MAX_SELECTION_ATTEMPTS :: nat where
  [py_eval]: "MAX_SELECTION_ATTEMPTS = 4"

datatype loop_result = Returned_Selection account_selection | Left_Loop "acct option" "string option"

text \<open>What a round leads to: leave the loop with a snapshot and a message, or load the inputs again.\<close>

datatype verdict_of_round = Leave "acct option" "string option" | Again

definition judge_round :: "sticky_request \<Rightarrow> nat \<Rightarrow> round_result \<Rightarrow> lb_world \<Rightarrow> verdict_of_round" where
  [py_eval]: "judge_round rq attempt r w =
     (case rr_snapshot r of
        Some a \<Rightarrow>
          if ac_id a \<in> set (rr_stale r) then (if attempt \<ge> MAX_SELECTION_ATTEMPTS then Leave None None else Again)
          else if rq_sticky_key rq = None \<and> sc_generation (lw_cache w) \<noteq> rr_generation_before r \<and> attempt < MAX_SELECTION_ATTEMPTS then Again
          else Leave (Some a) (rr_error r)
      | None \<Rightarrow>
          if rq_sticky_key rq = None \<and> rr_error r = Some ''No available accounts'' \<and> runtime_recovered (rr_runtime_before r) (lw_runtime w)
             \<and> attempt < MAX_SELECTION_ATTEMPTS then Again
          else Leave None (rr_error r))"

text \<open>The loop \<open>while True\<close>, with fuel; \<open>None\<close> is running out of it.\<close>

fun selection_loop :: "nat \<Rightarrow> lb_env \<Rightarrow> sticky_request \<Rightarrow> load_request \<Rightarrow> nat \<Rightarrow> selection_inputs \<Rightarrow> lb_world
    \<Rightarrow> ((py_error + loop_result) \<times> lb_world) option" where
  "selection_loop 0 e rq lr attempt inputs w = None"
| "selection_loop (Suc fuel) e rq lr attempt inputs w =
     (let attempt = Suc attempt in
      case selection_round (sub e attempt) rq inputs w of
        (Inl err, w) \<Rightarrow> Some (Inl err, w)
      | (Inr r, w) \<Rightarrow> (case judge_round rq attempt r w of
          Leave snapshot error \<Rightarrow> Some (Inr (Left_Loop snapshot error), w)
        | Again \<Rightarrow> (case load_for_request (sub (sub e attempt) 6) lr w of
            (Inl err, w) \<Rightarrow> Some (Inl err, w)
          | (Inr inputs, w) \<Rightarrow>
              if no_candidates inputs
              then Some (Inr (Returned_Selection \<lparr>as_account = None, as_error_message = si_error_message inputs, as_error_code = si_error_code inputs\<rparr>), w)
              else selection_loop fuel e rq lr attempt inputs w)))"

definition is_upstream_circuit_breaker_open :: "lb_env \<Rightarrow> bool" where
  [py_eval]: "is_upstream_circuit_breaker_open e =
     (ls_circuit_breaker_enabled (le_settings e) \<and> are_all_account_circuit_breakers_open (le_monotonic e [9]) (le_breakers e))"

definition format_degraded_error_message :: "string option \<Rightarrow> degradation_manager \<Rightarrow> string" where
  [py_eval]: "format_degraded_error_message msg d =
     (if truthy_str msg then the msg else ''Upstream unavailable'') @ ''. Service is operating in degraded mode: '' @
     (if truthy_str (reason d) then the (reason d) else ''upstream capacity is currently unavailable'')"

text \<open>After the loop: without a snapshot the message is returned, as degraded if no account was available.\<close>

definition finish_selection :: "loop_result \<Rightarrow> lb_world \<Rightarrow> account_selection \<times> lb_world" where
  [py_eval]: "finish_selection l w = (case l of
     Returned_Selection s \<Rightarrow> (s, w)
   | Left_Loop snapshot error \<Rightarrow>
       if snapshot \<noteq> None then (\<lparr>as_account = snapshot, as_error_message = None, as_error_code = None\<rparr>, w)
       else if error = Some ''No available accounts''
       then (let w = w\<lparr>lw_degradation := set_degraded (Some ''all upstream accounts are unavailable'') (lw_degradation w)\<rparr>
             in (\<lparr>as_account = None, as_error_message = Some (format_degraded_error_message error (lw_degradation w)), as_error_code = None\<rparr>, w))
       else (\<lparr>as_account = None, as_error_message = error, as_error_code = None\<rparr>, w))"

definition lb_select_account :: "nat \<Rightarrow> lb_env \<Rightarrow> sticky_request \<Rightarrow> load_request \<Rightarrow> lb_world \<Rightarrow> ((py_error + account_selection) \<times> lb_world) option" where
  [py_eval]: "lb_select_account fuel e rq lr w =
     (case load_for_request (sub e 0) lr w of
        (Inl err, w) \<Rightarrow> Some (Inl err, w)
      | (Inr inputs, w) \<Rightarrow>
          (let w = w\<lparr>lw_degradation := (if is_upstream_circuit_breaker_open e then set_degraded (Some ''upstream circuit breaker is open'') (lw_degradation w)
                      else if si_accounts inputs \<noteq> [] \<or> si_error_code inputs \<noteq> None then set_normal (lw_degradation w) else lw_degradation w)\<rparr>
           in if no_candidates inputs
              then Some (Inr \<lparr>as_account = None, as_error_message = si_error_message inputs, as_error_code = si_error_code inputs\<rparr>, w)
              else case selection_loop fuel e rq lr 0 inputs w of
                None \<Rightarrow> None
              | Some (Inl err, w) \<Rightarrow> Some (Inl err, w)
              | Some (Inr l, w) \<Rightarrow> (case finish_selection l w of (s, w) \<Rightarrow> Some (Inr s, w))))"

section \<open>Choosing from the states\<close>

text \<open>What a choice returns: the states as the triage leaves them, and one that was not skipped.\<close>

lemma pick_ok:
  obtains t res where "pick e k rq now fb probe states = Inr (map (snd \<circ> triage t) states, res)"
    "\<And>c. account res = Some c \<Longrightarrow> \<exists>s \<in> set states. c = snd (triage t s) \<and> fst (triage t s) \<noteq> Skipped"
    "t = effective_now now (le_time e [k])"
proof -
  let ?t = "effective_now now (le_time e [k])"
  have pool: "\<exists>st \<in> set states. s = snd (triage ?t st) \<and> fst (triage ?t st) \<noteq> Skipped"
    if "s \<in> set (effective_pool (available_states ?t states))" for s
  proof -
    have "s \<in> set (available_states ?t states)" using that effective_pool_subset by blast
    then obtain st where "st \<in> set states" "triage ?t st = (Eligible, s)" by (auto simp: available_states_in)
    then show ?thesis by (intro bexI [of _ st]) simp_all
  qed
  have fallback: "\<exists>st \<in> set states. s = snd (triage ?t st) \<and> fst (triage ?t st) \<noteq> Skipped"
    if "py_min backoff_expires_at (backoff_states ?t states) = Inr s" for s
  proof -
    have "s \<in> set (backoff_states ?t states)" by (rule py_min_in [OF that])
    then obtain st where "st \<in> set states" "triage ?t st = (InBackoff, s)" by (auto simp: backoff_states_in)
    then show ?thesis by (intro bexI [of _ st]) simp_all
  qed
  have "\<exists>res. pick e k rq now fb probe states = Inr (map (snd \<circ> triage ?t) states, res) \<and>
      (\<forall>c. account res = Some c \<longrightarrow> (\<exists>s \<in> set states. c = snd (triage ?t s) \<and> fst (triage ?t s) \<noteq> Skipped))"
  proof (cases rule: select_account_cases [of "le_random e [k]" "le_time e [k]" states now "rq_prefer_earlier_reset rq" "rq_strategy rq" fb probe])
    case (Pick s)
    then show ?thesis using pool [of s] by (simp add: pick_def)
  next
    case (Fallback s)
    then show ?thesis using fallback [of s] by (simp add: pick_def)
  next
    case Unavailable
    then show ?thesis by (simp add: pick_def)
  qed
  then show thesis using that by blast
qed

lemma pick_total: "\<exists>ss res. pick e k rq now fb probe states = Inr (ss, res)"
  by (rule pick_ok [of e k rq now fb probe states]) blast

lemma pick_not_Inl [simp]: "pick e k rq now fb probe states \<noteq> Inl err"
  using pick_total [of e k rq now fb probe states] by auto

lemma bind_sum_eq_Inl: "bind_sum m k = Inl err \<longleftrightarrow> m = Inl err \<or> (\<exists>x. m = Inr x \<and> k x = Inl err)"
  by (cases m) auto

lemma try_pinned_not_Inl [simp]: "try_pinned e k rq key kind now pinned w \<noteq> Inl err"
  by (auto simp: try_pinned_def bind_sum_eq_Inl)

lemma pinned_phase_not_Inl [simp]: "pinned_phase e rq key kind pinned states w \<noteq> Inl err"
  by (auto simp: pinned_phase_def bind_sum_eq_Inl Let_def)

lemma grace_phase_not_Inl [simp]: "grace_phase e rq key kind r pinned w \<noteq> Inl err"
  by (auto simp: grace_phase_def bind_sum_eq_Inl)

lemma choose_any_not_Inl [simp]: "choose_any e rq key kind p amap states w \<noteq> Inl err"
  by (auto simp: choose_any_def bind_sum_eq_Inl)

lemma select_pinned_not_Inl [simp]: "select_pinned e rq key kind amap pinned ss w \<noteq> Inl err"
  by (auto simp: select_pinned_def bind_sum_eq_Inl split: option.splits if_splits)

lemma select_with_stickiness_not_Inl:
  "truthy_str (rq_sticky_key rq) \<longrightarrow> rq_sticky_kind rq \<noteq> None \<Longrightarrow> select_with_stickiness e rq amap states w \<noteq> Inl err"
  by (auto simp: select_with_stickiness_def Let_def bind_sum_eq_Inl split: prod.splits option.splits if_splits)

section \<open>A selection ends\<close>

lemma judge_round_again: "judge_round rq attempt r w = Again \<Longrightarrow> attempt < MAX_SELECTION_ATTEMPTS"
  by (auto simp: judge_round_def split: option.splits if_splits)

lemma selection_loop_ends:
  "0 < fuel \<Longrightarrow> MAX_SELECTION_ATTEMPTS \<le> fuel + attempt \<Longrightarrow> \<exists>r. selection_loop fuel e rq lr attempt inputs w = Some r"
proof (induction fuel arbitrary: attempt inputs w)
  case (Suc fuel)
  have "\<exists>r. selection_loop fuel e rq lr (Suc attempt) inputs' w' = Some r" if "judge_round rq (Suc attempt) r w'' = Again" for r inputs' w' w''
    using judge_round_again [OF that] Suc.prems by (intro Suc.IH) auto
  then show ?case by (auto simp: Let_def split: prod.splits sum.splits verdict_of_round.splits)
qed simp

lemma selection_loop_more_fuel:
  "selection_loop fuel e rq lr attempt inputs w = Some r \<Longrightarrow> fuel \<le> fuel' \<Longrightarrow> selection_loop fuel' e rq lr attempt inputs w = Some r"
proof (induction fuel arbitrary: fuel' attempt inputs w)
  case (Suc fuel)
  from Suc.prems(2) obtain f where f: "fuel' = Suc f" "fuel \<le> f" by (cases fuel') auto
  show ?case using Suc.prems(1) Suc.IH [OF _ f(2)] unfolding f(1)
    by (auto simp: Let_def split: prod.splits sum.splits verdict_of_round.splits if_splits)
qed simp

definition registries_load :: "lb_env \<Rightarrow> bool" where
  "registries_load e \<longleftrightarrow> (\<exists>items. definition_maps_for_path items = Inr (le_quotas e))"

lemma registries_load_sub [simp]: "registries_load (sub e k) = registries_load e"
  by (simp add: registries_load_def sub_def)

lemma latest_additional_by_key_not_Inl:
  assumes "definition_maps_for_path items = Inr m"
  shows "latest_additional_by_key m q window ids since rows \<noteq> Inl err"
proof (cases "canonicalize_additional_quota_key m None (Some q) (Some q) None")
  case (Some key)
  then have "resolve_additional_quota_key m (Some q) None None = Some key" by (simp add: resolve_additional_quota_key_def)
  from stored_key_scope [OF assms this] Some show ?thesis
    by (auto simp: latest_additional_by_key_def latest_by_quota_key_def additional_latest_by_account_def)
qed (simp add: latest_additional_by_key_def)

lemma read_inputs_not_Inl: "registries_load e \<Longrightarrow> read_inputs e lr w \<noteq> Inl err"
  using latest_additional_by_key_not_Inl
  by (auto simp: registries_load_def read_inputs_def filter_accounts_for_additional_limit_def Let_def bind_sum_eq_Inl split: if_splits)

lemma load_for_request_not_Inl: "registries_load e \<Longrightarrow> fst (load_for_request e lr w) \<noteq> Inl err"
  using read_inputs_not_Inl [of e lr]
  by (auto simp: load_for_request_def load_selection_inputs_def Let_def split: prod.splits sum.splits option.splits)

definition request_ok :: "sticky_request \<Rightarrow> bool" where
  "request_ok rq \<longleftrightarrow> (truthy_str (rq_sticky_key rq) \<longrightarrow> rq_sticky_kind rq \<noteq> None)"

lemma selection_round_not_Inl: "request_ok rq \<Longrightarrow> fst (selection_round e rq inputs w) \<noteq> Inl err"
  using select_with_stickiness_not_Inl [of rq]
  by (auto simp: request_ok_def selection_round_def Let_def bind_sum_eq_Inl split: prod.splits sum.splits)

lemma fst_not_Inl: "(\<And>err. fst p \<noteq> Inl err) \<Longrightarrow> \<exists>x w. p = (Inr x, w)"
  by (cases p, cases "fst p") auto

lemma selection_loop_not_Inl:
  assumes "registries_load e" and "request_ok rq"
  shows "selection_loop fuel e rq lr attempt inputs w = Some r \<Longrightarrow> fst r \<noteq> Inl err"
proof (induction fuel arbitrary: attempt inputs w)
  case (Suc fuel)
  obtain rr w1 where 1: "selection_round (sub e (Suc attempt)) rq inputs w = (Inr rr, w1)"
    using fst_not_Inl [OF selection_round_not_Inl [OF assms(2)]] by blast
  show ?case
  proof (cases "judge_round rq (Suc attempt) rr w1")
    case (Leave a m)
    then show ?thesis using Suc.prems 1 by (auto simp: Let_def)
  next
    case Again
    have "registries_load (sub (sub e (Suc attempt)) 6)" using assms(1) by simp
    from fst_not_Inl [OF load_for_request_not_Inl [OF this]] obtain inputs' w2
      where "load_for_request (sub (sub e (Suc attempt)) 6) lr w1 = (Inr inputs', w2)" by blast
    with Again 1 Suc show ?thesis by (auto simp: Let_def split: if_splits)
  qed
qed simp


section \<open>Accounts that are switched off\<close>

definition OFF :: "account_status set" where
  "OFF = {PAUSED, DEACTIVATED}"

definition accounts_out :: "string \<Rightarrow> acct list \<Rightarrow> bool" where
  "accounts_out x as \<longleftrightarrow> (\<forall>a \<in> set as. ac_id a = x \<longrightarrow> ac_status a \<in> OFF)"

definition states_out :: "string \<Rightarrow> account_state list \<Rightarrow> bool" where
  "states_out x ss \<longleftrightarrow> (\<forall>s \<in> set ss. account_id s = x \<longrightarrow> status s \<in> OFF)"

text \<open>The account is off in the table and in every cached selection input.\<close>

definition held_out :: "string \<Rightarrow> lb_world \<Rightarrow> bool" where
  "held_out x w \<longleftrightarrow> accounts_out x (lw_accounts w) \<and>
     (\<forall>entry \<in> set (sc_cache (lw_cache w)). accounts_out x (si_accounts (fst (snd entry))))"

definition tasks_keep :: "(lb_world \<Rightarrow> bool) \<Rightarrow> lb_env \<Rightarrow> bool" where
  "tasks_keep P e \<longleftrightarrow> (\<forall>p w. P w \<longrightarrow> P (le_tasks e p w))"

lemma tasks_keep_sub: "tasks_keep P e \<Longrightarrow> tasks_keep P (sub e k)"
  by (simp add: tasks_keep_def sub_def)

lemma tasks_keepD: "tasks_keep P e \<Longrightarrow> P w \<Longrightarrow> P (le_tasks e p w)"
  by (simp add: tasks_keep_def)

lemma held_out_frame [simp]:
  "held_out x (w\<lparr>lw_sticky := v\<rparr>) = held_out x w" "held_out x (w\<lparr>lw_runtime := rt\<rparr>) = held_out x w"
  "held_out x (w\<lparr>lw_degradation := d\<rparr>) = held_out x w"
  by (simp_all add: held_out_def)

lemma off_triage: "status s \<in> OFF \<Longrightarrow> triage t s = (Skipped, s)"
  by (auto simp: triage_def OFF_def)

lemma off_quota: "st \<in> OFF \<Longrightarrow> apply_usage_quota t t' st pu pr pw r su sr = (st, pu, r)"
  by (auto simp: OFF_def apply_usage_quota_def Let_def)

lemma off_state:
  assumes "state_from_account e a p q rt = (s, rt')"
  shows "account_id s = ac_id a \<and> (ac_status a \<in> OFF \<longrightarrow> status s = ac_status a)"
  using assms by (cases "ac_status a \<in> OFF") (simp_all add: state_from_account_def Let_def off_quota split: prod.splits, fastforce+)

lemma build_states_out:
  "accounts_out x as \<Longrightarrow> states_out x (fst (build_states e i as p q rt))"
proof (induction as arbitrary: i rt)
  case (Cons a as)
  obtain s r where s: "state_from_account (sub e i) a (map_of p (ac_id a)) (map_of q (ac_id a)) (runtime_of rt (ac_id a)) = (s, r)"
    by fastforce
  obtain ss rt' where b: "build_states e (Suc i) as p q (dict_set (ac_id a) r rt) = (ss, rt')" by fastforce
  have "states_out x ss" using Cons.IH [of "Suc i" "dict_set (ac_id a) r rt"] Cons.prems b by (simp add: accounts_out_def)
  moreover have "account_id s = ac_id a" "ac_status a \<in> OFF \<longrightarrow> status s = ac_status a"
    using off_state [OF s] by simp_all
  ultimately show ?case using Cons.prems by (auto simp: s b states_out_def accounts_out_def)
qed (simp add: states_out_def)

lemma triage_states_out: "states_out x ss \<Longrightarrow> states_out x (map (snd \<circ> triage t) ss)"
  by (auto simp: states_out_def triage_frame off_triage)

lemma pick_out:
  assumes "states_out x ss" and "pick e k rq now fb probe ss = Inr (ss', res)"
  shows "states_out x ss' \<and> (\<forall>c. account res = Some c \<longrightarrow> account_id c \<noteq> x)"
proof (rule pick_ok [of e k rq now fb probe ss])
  fix t res'
  assume p: "pick e k rq now fb probe ss = Inr (map (snd \<circ> triage t) ss, res')"
    and c: "\<And>c. account res' = Some c \<Longrightarrow> \<exists>s \<in> set ss. c = snd (triage t s) \<and> fst (triage t s) \<noteq> Skipped"
  from p assms(2) have eq: "ss' = map (snd \<circ> triage t) ss" "res = res'" by auto
  have "account_id c \<noteq> x" if "account res = Some c" for c
  proof -
    from c that eq(2) obtain s where s: "s \<in> set ss" "c = snd (triage t s)" "fst (triage t s) \<noteq> Skipped" by blast
    then have "status s \<notin> OFF" using off_triage [of s t] by auto
    with s(1,2) assms(1) show ?thesis by (auto simp: states_out_def triage_frame)
  qed
  with triage_states_out [OF assms(1), of t] show ?thesis by (simp add: eq(1))
qed

lemma put_state_out: "states_out x ss \<Longrightarrow> states_out x [s] \<Longrightarrow> states_out x (put_state s ss)"
  by (induction s ss rule: put_state.induct) (auto simp: states_out_def)

lemma find_state_out: "states_out x ss \<Longrightarrow> find_state i ss = Some s \<Longrightarrow> states_out x [s] \<and> account_id s = i"
  by (auto simp: states_out_def find_state_def dest!: find_SomeD)

lemma sticky_put_out: "tasks_keep (held_out x) e \<Longrightarrow> held_out x w \<Longrightarrow> held_out x (sticky_put e k key kind acc w)"
  by (simp add: sticky_put_def Let_def tasks_keepD)

lemma sticky_drop_out: "tasks_keep (held_out x) e \<Longrightarrow> held_out x w \<Longrightarrow> held_out x (sticky_drop e k key kind w)"
  by (simp add: sticky_drop_def Let_def tasks_keepD)

definition result_out :: "string \<Rightarrow> selection_result \<Rightarrow> bool" where
  "result_out x res \<longleftrightarrow> (\<forall>c. account res = Some c \<longrightarrow> account_id c \<noteq> x)"

lemma try_pinned_out:
  assumes "tasks_keep (held_out x) e" "held_out x w" "states_out x [pinned]" "try_pinned e k rq key kind now pinned w = Inr (p, res, w')"
  shows "states_out x [p] \<and> held_out x w' \<and> pred_option (result_out x) res"
proof -
  from assms(4) obtain ps r where r: "pick e k rq now False False [pinned] = Inr (ps, r)" "p = hd ps"
      "res = (if account r = None then None else Some r)" "w' = w \<or> w' = sticky_put e k key kind (account_id pinned) w"
    by (auto simp: try_pinned_def split: if_splits)
  have "length ps = 1" by (rule pick_ok [of e k rq now False False "[pinned]"]) (use r(1) in simp)
  then obtain p' where "ps = [p']" by (auto simp: length_Suc_conv)
  with pick_out [OF assms(3) r(1)] r sticky_put_out [OF assms(1,2)] assms(2) show ?thesis by (auto simp: result_out_def)
qed

lemma find_state_same_ids: "map account_id ss' = map account_id ss \<Longrightarrow> find_state i ss = Some s \<Longrightarrow> \<exists>s'. find_state i ss' = Some s'"
proof (induction ss arbitrary: ss')
  case (Cons y ys)
  then show ?case by (cases ss') (auto simp: find_state_def split: if_splits)
qed (simp add: find_state_def)

lemma pinned_phase_out:
  assumes "tasks_keep (held_out x) e" "held_out x w" "states_out x ss" "states_out x [pinned]"
    and "find_state (account_id pinned) ss = Some pinned"
    and "pinned_phase e rq key kind pinned ss w = Inr ((res, r), p, ss', w')"
  shows "states_out x ss' \<and> states_out x [p] \<and> held_out x w' \<and> pred_option (result_out x) res"
proof (cases "budget_exhausted rq pinned \<or> rate_limit_far_away (le_time e [0]) rq pinned")
  case False
  with assms(6) obtain res1 p1 w1 where t: "try_pinned e 1 rq key kind None pinned w = Inr (p1, res1, w1)"
      and eq: "res = res1" "p = p1" "ss' = put_state p1 ss" "w' = w1"
    by (auto simp: pinned_phase_def simp del: One_nat_def)
  from try_pinned_out [OF assms(1,2,4) t] put_state_out [OF assms(3)] eq show ?thesis by simp
next
  case True
  show ?thesis
  proof (cases "budget_exhausted rq pinned")
    case False
    with True assms(2-4,6) show ?thesis by (auto simp: pinned_phase_def)
  next
    case budget: True
    obtain ss1 best where b: "pick e 2 rq None True True ss = Inr (ss1, best)" using pick_total by blast
    note out = pick_out [OF assms(3) b]
    have "map account_id ss1 = map account_id ss"
      by (rule pick_ok [of e 2 rq None True True ss]) (use b in \<open>simp add: triage_frame\<close>)
    then obtain q where q: "find_state (account_id pinned) ss1 = Some q" using find_state_same_ids [OF _ assms(5)] by blast
    then have qo: "states_out x [q]" using find_state_out out by blast
    show ?thesis
    proof (cases "pool_also_exhausted rq q best")
      case False
      with budget assms(2,6) b q qo out show ?thesis by (auto simp: pinned_phase_def Let_def)
    next
      case True
      with budget assms(6) b q obtain res1 p1 w1 where t: "try_pinned e 3 rq key kind None q w = Inr (p1, res1, w1)"
          and eq: "res = res1" "p = p1" "ss' = put_state p1 ss1" "w' = w1"
        by (auto simp: pinned_phase_def Let_def)
      from try_pinned_out [OF assms(1,2) qo t] put_state_out [OF out [THEN conjunct1]] eq show ?thesis by simp
    qed
  qed
qed

lemma grace_phase_out:
  assumes "tasks_keep (held_out x) e" "held_out x w" "states_out x [pinned]" "grace_phase e rq key kind r pinned w = Inr (res, w')"
  shows "held_out x w' \<and> pred_option (result_out x) res"
proof (cases "\<not> r \<and> status pinned = RATE_LIMITED")
  case True
  with assms(4) obtain p where "try_pinned e 4 rq key kind (Some (le_time e [4] + STICKY_GRACE_PERIOD_SECONDS)) pinned w = Inr (p, res, w')"
    by (auto simp: grace_phase_def)
  from try_pinned_out [OF assms(1-3) this] show ?thesis by blast
next
  case False
  with assms(2,4) show ?thesis by (auto simp: grace_phase_def)
qed

lemma choose_any_out:
  assumes "tasks_keep (held_out x) e" "held_out x w" "states_out x ss" "choose_any e rq key kind p amap ss w = Inr (res, ss', w')"
  shows "states_out x ss' \<and> result_out x res \<and> held_out x w'"
proof -
  from assms(4) have "pick e 5 rq None True False ss = Inr (ss', res)" "w' = w \<or> (\<exists>acc. w' = sticky_put e 5 key kind acc w)"
    by (auto simp: choose_any_def split: option.splits if_splits)
  with pick_out [OF assms(3)] assms(2) sticky_put_out [OF assms(1,2)] show ?thesis by (auto simp: result_out_def)
qed

lemma select_pinned_out:
  assumes "tasks_keep (held_out x) e" "held_out x w" "states_out x ss" "find_state i ss = Some pinned"
    and "select_pinned e rq key kind amap pinned ss w = Inr (res, ss', w')"
  shows "states_out x ss' \<and> result_out x res \<and> held_out x w'"
proof -
  obtain res1 r p ss1 w2 where ph: "pinned_phase e rq key kind pinned ss w = Inr ((res1, r), p, ss1, w2)"
    using pinned_phase_not_Inl by (metis surj_pair sum.exhaust)
  note po = find_state_out [OF assms(3,4)]
  have po1: "states_out x ss1" "states_out x [p]" "held_out x w2" "pred_option (result_out x) res1"
    using pinned_phase_out [OF assms(1-3) _ _ ph] po assms(4) by auto
  show ?thesis
  proof (cases res1)
    case (Some y)
    with assms(5) ph po1 show ?thesis by (auto simp: select_pinned_def)
  next
    case None
    obtain res2 w3 where gr: "grace_phase e rq key kind r p w2 = Inr (res2, w3)" using grace_phase_not_Inl by (metis surj_pair sum.exhaust)
    note po2 = grace_phase_out [OF assms(1) po1(3,2) gr]
    then have ho: "held_out x w3" by blast
    show ?thesis using assms(5) None ph gr po1(1) po2 choose_any_out [OF assms(1) ho po1(1)] choose_any_out [OF assms(1) sticky_drop_out [OF assms(1) ho] po1(1)]
      by (cases res2) (auto simp: select_pinned_def split: if_splits)
  qed
qed

lemma select_with_stickiness_out:
  assumes "tasks_keep (held_out x) e" "held_out x w" "states_out x ss" "select_with_stickiness e rq amap ss w = Inr (res, ss', w')"
  shows "states_out x ss' \<and> result_out x res \<and> held_out x w'"
proof (cases "truthy_str (rq_sticky_key rq)")
  case False
  with assms(4) have "pick e 6 rq None True False ss = Inr (ss', res)" "w' = w" by (auto simp: select_with_stickiness_def)
  with pick_out [OF assms(3)] assms(2) show ?thesis by (auto simp: result_out_def)
next
  case True
  let ?key = "the (rq_sticky_key rq)"
  have w1: "held_out x ((le_tasks e [7] w)\<lparr>lw_sticky := rows\<rparr>)" for rows using assms(1,2) by (simp add: tasks_keepD)
  from True assms(4) consider (any) kind rows where "choose_any e rq ?key kind True amap ss ((le_tasks e [7] w)\<lparr>lw_sticky := rows\<rparr>) = Inr (res, ss', w')"
    | (gone) kind rows where "choose_any e rq ?key kind True amap ss (sticky_drop e 8 ?key kind ((le_tasks e [7] w)\<lparr>lw_sticky := rows\<rparr>)) = Inr (res, ss', w')"
    | (pinned) i kind pinned rows where "find_state i ss = Some pinned"
        "select_pinned e rq ?key kind amap pinned ss ((le_tasks e [7] w)\<lparr>lw_sticky := rows\<rparr>) = Inr (res, ss', w')"
    by (auto simp: select_with_stickiness_def Let_def split: option.splits prod.splits if_splits)
  then show ?thesis
  proof cases
    case any
    then show ?thesis by (rule choose_any_out [OF assms(1) w1 assms(3)])
  next
    case gone
    then show ?thesis by (rule choose_any_out [OF assms(1) sticky_drop_out [OF assms(1) w1] assms(3)])
  next
    case pinned
    then show ?thesis by (rule select_pinned_out [OF assms(1) w1 assms(3)])
  qed
qed

lemma sync_states_out: "tasks_keep (held_out x) e \<Longrightarrow> held_out x w \<Longrightarrow> held_out x (sync_states e i c amap ss w)"
  by (induction e i c amap ss w rule: sync_states.induct) (auto simp: Let_def tasks_keepD split: option.splits)

lemma account_map_of: "map_of (account_map as) i = Some a \<Longrightarrow> a \<in> set as \<and> ac_id a = i"
proof -
  have "map_of (fold (\<lambda>a. dict_set (ac_id a) a) as d) i = Some a \<Longrightarrow> a \<in> set as \<and> ac_id a = i \<or> map_of d i = Some a" for d
    by (induction as arbitrary: d) (fastforce split: if_splits)+
  from this [of "[]"] show "map_of (account_map as) i = Some a \<Longrightarrow> a \<in> set as \<and> ac_id a = i" by (simp add: account_map_def)
qed

lemma take_snapshot_out:
  assumes "result_out x res" "states_out x ss" "take_snapshot res (account_map as) ss = (snapshot, err, ss')"
  shows "states_out x ss' \<and> pred_option (\<lambda>a. ac_id a \<noteq> x) snapshot"
proof (cases "account res")
  case None
  with assms show ?thesis by (simp add: take_snapshot_def)
next
  case (Some c)
  with assms(1) have "account_id c \<noteq> x" by (simp add: result_out_def)
  moreover have "states_out x [s]" if "account_id s \<noteq> x" for s using that by (simp add: states_out_def)
  ultimately show ?thesis using assms(2,3) Some
    by (auto simp: take_snapshot_def dest!: account_map_of find_state_out [OF assms(2)] split: option.splits intro!: put_state_out)
qed

lemma persist_if_current_out:
  assumes "tasks_keep (held_out x) e" "held_out x w" "states_out x [s]" "ac_id a = account_id s"
  shows "held_out x (snd (persist_state_if_current (le_tasks e p) a s w))"
  using assms tasks_keepD [OF assms(1,2), of p]
  by (auto simp: persist_state_if_current_def update_status_if_current_def Let_def held_out_def accounts_out_def states_out_def is_current_def)

lemma persist_selection_out:
  "tasks_keep (held_out x) e \<Longrightarrow> held_out x w \<Longrightarrow> states_out x ss \<Longrightarrow> held_out x (snd (persist_selection_state e i (account_map as) ss w))"
proof (induction ss arbitrary: i w)
  case (Cons s ss)
  then have s: "states_out x [s]" "states_out x ss" by (simp_all add: states_out_def)
  show ?case
  proof (cases "map_of (account_map as) (account_id s)")
    case None
    with Cons.IH [OF Cons.prems(1,2) s(2)] show ?thesis by simp
  next
    case (Some a)
    have "held_out x (snd (persist_state_if_current (le_tasks e [i]) a s w))"
      using account_map_of [OF Some] by (intro persist_if_current_out [OF Cons.prems(1,2) s(1)]) simp
    with Cons.IH [OF Cons.prems(1) _ s(2)] Some show ?thesis by (auto split: prod.splits) (metis snd_conv)
  qed
qed simp

lemma selection_round_out:
  assumes "tasks_keep (held_out x) e" "held_out x w" "accounts_out x (si_accounts inputs)" "selection_round e rq inputs w = (Inr r, w')"
  shows "held_out x w' \<and> pred_option (\<lambda>a. ac_id a \<noteq> x) (rr_snapshot r)"
proof -
  let ?as = "si_accounts inputs" and ?amap = "account_map (si_accounts inputs)"
  obtain ss rt where b: "build_states (sub e 0) 0 ?as (si_latest_primary inputs) (si_latest_secondary inputs)
      (prune_runtime (case si_runtime_accounts inputs of Some (x # xs) \<Rightarrow> x # xs | _ \<Rightarrow> ?as) (lw_runtime w)) = (ss, rt)" by fastforce
  have so: "states_out x ss" using build_states_out [OF assms(3)] b by (metis fst_conv)
  have w1: "held_out x (w\<lparr>lw_runtime := rt\<rparr>)" using assms(2) by simp
  from assms(4) b obtain res ss1 w2 where c: "(if rq_sticky_key rq = None
        then bind_sum (pick (sub e 1) 0 rq None True False ss) (\<lambda>(states, res). Inr (res, states, w\<lparr>lw_runtime := rt\<rparr>))
        else select_with_stickiness (sub e 1) rq ?amap ss (w\<lparr>lw_runtime := rt\<rparr>)) = Inr (res, ss1, w2)"
    by (auto simp: selection_round_def Let_def simp del: One_nat_def split: sum.splits prod.splits)
  have o1: "states_out x ss1 \<and> result_out x res \<and> held_out x w2"
  proof (cases "rq_sticky_key rq")
    case None
    with c have "pick (sub e 1) 0 rq None True False ss = Inr (ss1, res)" "w2 = w\<lparr>lw_runtime := rt\<rparr>" by auto
    with pick_out [OF so] w1 show ?thesis by (auto simp: result_out_def)
  next
    case (Some k)
    with c show ?thesis using select_with_stickiness_out [OF tasks_keep_sub [OF assms(1)] w1 so] by auto
  qed
  let ?sel = "filter (\<lambda>s. account_id s \<in> fst ` set ?amap) ss1"
  define w3 where "w3 = sync_states (sub e 2) 0 (map_option account_id (account res)) ?amap ?sel w2"
  obtain snapshot err ss2 where t: "take_snapshot res ?amap ?sel = (snapshot, err, ss2)" by (metis surj_pair)
  have "states_out x ?sel" using o1 by (simp add: states_out_def)
  note o2 = take_snapshot_out [OF _ this t]
  have w3: "held_out x (le_tasks e [4] w3)" unfolding w3_def
    using o1 by (intro tasks_keepD [OF assms(1)] sync_states_out [OF tasks_keep_sub [OF assms(1)]]) simp
  obtain stale w4 where p: "persist_selection_state (sub e 3) 0 ?amap ss2 (le_tasks e [4] w3) = (stale, w4)" by fastforce
  have w4: "held_out x w4" using persist_selection_out [OF tasks_keep_sub [OF assms(1)] w3, of ss2 3 0 ?as] o1 o2 p by simp
  from assms(4) b c t p have "w' = le_tasks e [5] w4" "rr_snapshot r = snapshot"
    by (auto simp: selection_round_def Let_def w3_def simp del: One_nat_def)
  with w4 o1 o2 assms(1) show ?thesis by (simp add: tasks_keepD)
qed

lemma inputs_cache_set_out:
  "held_out x w \<Longrightarrow> accounts_out x (si_accounts inputs) \<Longrightarrow> held_out x (w\<lparr>lw_cache := inputs_cache_set t inputs key g (lw_cache w)\<rparr>)"
proof -
  have d: "set (dict_set k v d) \<subseteq> insert (k, v) (set d)" for k and v :: "selection_inputs \<times> pyfloat" and d :: "(cache_key \<times> _) list"
    by (induction k v d rule: dict_set.induct) auto
  show "held_out x w \<Longrightarrow> accounts_out x (si_accounts inputs) \<Longrightarrow> ?thesis"
    using d by (fastforce simp: held_out_def inputs_cache_set_def)
qed

lemma inputs_cache_get_out: "held_out x w \<Longrightarrow> inputs_cache_get t key (lw_cache w) = Some inputs \<Longrightarrow> accounts_out x (si_accounts inputs)"
  by (fastforce simp: held_out_def inputs_cache_get_def split: if_splits option.splits dest!: map_of_SomeD)

lemma additional_filter_subset:
  "filter_accounts_for_additional_limit e as model limit w = Inr (as', code, msg) \<Longrightarrow> set as' \<subseteq> set as"
  by (auto simp: filter_accounts_for_additional_limit_def Let_def split: if_splits) (erule set_zip_leftD)+

lemma read_inputs_out: "held_out x w \<Longrightarrow> read_inputs e lr w = Inr inputs \<Longrightarrow> accounts_out x (si_accounts inputs)"
proof -
  assume h: "held_out x w" and r: "read_inputs e lr w = Inr inputs"
  have "set (si_accounts inputs) \<subseteq> set (lw_accounts w)"
    using r by (auto simp: read_inputs_def Let_def empty_inputs_def filter_accounts_for_model_def split: if_splits option.splits
        dest!: additional_filter_subset)
  with h show ?thesis by (auto simp: held_out_def accounts_out_def)
qed

lemma load_for_request_out:
  assumes "tasks_keep (held_out x) e" "held_out x w" "load_for_request e lr w = (Inr inputs, w')"
  shows "held_out x w' \<and> accounts_out x (si_accounts inputs)"
proof -
  from assms(3) obtain inputs1 where l: "load_selection_inputs e lr w = (Inr inputs1, w')"
      and i: "set (si_accounts inputs) \<subseteq> set (si_accounts inputs1)"
    by (auto simp: load_for_request_def split: prod.splits sum.splits)
  have "held_out x w' \<and> accounts_out x (si_accounts inputs1)"
    using l assms(1,2) read_inputs_out [of x "le_tasks e [0] w" e lr inputs1] inputs_cache_get_out [of x w]
    by (auto simp: load_selection_inputs_def Let_def tasks_keepD split: option.splits sum.splits intro!: inputs_cache_set_out)
  with i show ?thesis by (auto simp: accounts_out_def)
qed

definition loop_out :: "string \<Rightarrow> loop_result \<Rightarrow> bool" where
  "loop_out x l \<longleftrightarrow> (case l of Returned_Selection s \<Rightarrow> as_account s = None | Left_Loop snapshot err \<Rightarrow> pred_option (\<lambda>a. ac_id a \<noteq> x) snapshot)"

lemma selection_loop_out:
  assumes "tasks_keep (held_out x) e"
  shows "held_out x w \<Longrightarrow> accounts_out x (si_accounts inputs) \<Longrightarrow> selection_loop fuel e rq lr attempt inputs w = Some (Inr l, w') \<Longrightarrow>
    held_out x w' \<and> loop_out x l"
proof (induction fuel arbitrary: attempt inputs w)
  case (Suc fuel)
  from Suc.prems(3) obtain r w1 where r: "selection_round (sub e (Suc attempt)) rq inputs w = (Inr r, w1)"
    by (auto simp: Let_def split: prod.splits sum.splits)
  note o = selection_round_out [OF tasks_keep_sub [OF assms] Suc.prems(1,2) r]
  show ?case
  proof (cases "judge_round rq (Suc attempt) r w1")
    case (Leave snapshot err)
    then have "snapshot = None \<or> snapshot = rr_snapshot r" by (auto simp: judge_round_def split: option.splits if_splits)
    with Leave o r Suc.prems(3) show ?thesis by (auto simp: Let_def loop_out_def)
  next
    case Again
    with Suc.prems(3) r obtain inputs' w2 where l: "load_for_request (sub (sub e (Suc attempt)) 6) lr w1 = (Inr inputs', w2)"
      by (auto simp: Let_def split: prod.splits sum.splits)
    note o2 = load_for_request_out [OF tasks_keep_sub [OF tasks_keep_sub [OF assms]] o [THEN conjunct1] l]
    show ?thesis using Again Suc.prems(3) r l o2 Suc.IH [of w2 inputs' "Suc attempt"]
      by (auto simp: Let_def loop_out_def split: if_splits)
  qed
qed simp

text \<open>
  C36. An account that is switched off stays out. If an account is paused or deactivated in the table and in
  the cached inputs when a selection starts, and no other task switches it on or caches inputs where it
  is on, then whatever else the other tasks do during the selection, sticky or not, it is not the
  account the selection returns, and the selection itself does not switch it on.
\<close>

theorem switched_off_stays_out:
  assumes "held_out x w" and "tasks_keep (held_out x) e" and "lb_select_account fuel e rq lr w = Some (Inr sel, w')"
  shows "held_out x w' \<and> (\<forall>a. as_account sel = Some a \<longrightarrow> ac_id a \<noteq> x)"
proof -
  from assms(3) obtain inputs w1 where l: "load_for_request (sub e 0) lr w = (Inr inputs, w1)"
    by (auto simp: lb_select_account_def split: prod.splits sum.splits)
  note o = load_for_request_out [OF tasks_keep_sub [OF assms(2)] assms(1) l]
  let ?w = "w1\<lparr>lw_degradation := (if is_upstream_circuit_breaker_open e then set_degraded (Some ''upstream circuit breaker is open'') (lw_degradation w1)
      else if si_accounts inputs \<noteq> [] \<or> si_error_code inputs \<noteq> None then set_normal (lw_degradation w1) else lw_degradation w1)\<rparr>"
  show ?thesis
  proof (cases "no_candidates inputs")
    case True
    with assms(3) l o show ?thesis by (auto simp: lb_select_account_def Let_def)
  next
    case False
    with assms(3) l obtain r w2 where r: "selection_loop fuel e rq lr 0 inputs ?w = Some (Inr r, w2)" "finish_selection r w2 = (sel, w')"
      by (auto simp: lb_select_account_def Let_def split: option.splits prod.splits sum.splits)
    have "held_out x w2 \<and> loop_out x r" using o by (intro selection_loop_out [OF assms(2) _ _ r(1)]) simp_all
    with r(2) show ?thesis by (auto simp: finish_selection_def loop_out_def Let_def split: loop_result.splits if_splits)
  qed
qed

section \<open>Where a sticky mapping points\<close>

definition no_other_tasks :: "lb_env \<Rightarrow> bool" where
  "no_other_tasks e \<longleftrightarrow> (\<forall>p w. le_tasks e p w = w)"

lemma pick_eligible:
  assumes "pick e k rq None fb probe [s] = Inr (ss, res)" "fst (triage (le_time e [k]) s) = Eligible"
  shows "\<exists>c. account res = Some c"
proof -
  have "available_states (le_time e [k]) [s] \<noteq> []" using assms(2) by (simp add: available_states_def)
  then show ?thesis using assms(1) unfolding pick_def
    by (cases rule: select_account_cases [of "le_random e [k]" "le_time e [k]" "[s]" None "rq_prefer_earlier_reset rq" "rq_strategy rq" fb probe])
      (auto simp: effective_now_def)
qed

lemma triage_recoverable: "status s \<in> RECOVERABLE_STATUSES \<Longrightarrow> status (snd (triage t s)) \<in> RECOVERABLE_STATUSES"
  by (auto simp: triage_defs RECOVERABLE_STATUSES_def split: account_status.splits if_splits)

text \<open>Selecting the pinned account alone leaves its id and keeps or renews the mapping.\<close>

lemma try_pinned_spec:
  assumes "no_other_tasks e" "key \<noteq> []" "rq_sticky_max_age rq \<noteq> None" "try_pinned e k rq key kind now pinned w = Inr (p, res, w')"
    and "status pinned \<in> RECOVERABLE_STATUSES" "\<exists>row. get_entry key kind (lw_sticky w) = Some row \<and> st_account_id row = account_id pinned"
  shows "status p \<in> RECOVERABLE_STATUSES \<and> account_id p = account_id pinned
    \<and> (\<exists>row. get_entry key kind (lw_sticky w') = Some row \<and> st_account_id row = account_id pinned)
    \<and> pred_option (\<lambda>r. \<exists>c. account r = Some c \<and> account_id c = account_id pinned) res"
proof (rule pick_ok [of e k rq now False False "[pinned]"])
  fix t r
  assume p: "pick e k rq now False False [pinned] = Inr (map (snd \<circ> triage t) [pinned], r)"
    and c: "\<And>c. account r = Some c \<Longrightarrow> \<exists>s \<in> set [pinned]. c = snd (triage t s) \<and> fst (triage t s) \<noteq> Skipped"
  have eq: "p = snd (triage t pinned)" "res = (if account r = None then None else Some r)"
      "w' = (if account r \<noteq> None then sticky_put e k key kind (account_id pinned) w else w)"
    using assms(3,4) p by (auto simp: try_pinned_def)
  have "lw_sticky (sticky_put e k key kind (account_id pinned) w) = upsert_rows (le_utcnow e [k]) key (account_id pinned) kind (lw_sticky w)"
    using assms(1) by (simp add: sticky_put_def no_other_tasks_def sticky_upsert_def Let_def)
  then show ?thesis using eq c assms(5,6) upsert_get [OF assms(2), of kind "le_utcnow e [k]" "account_id pinned" "lw_sticky w"]
    by (auto simp: triage_frame triage_recoverable)
qed

text \<open>
  C37. A warm account keeps its conversation. For a mapping with a maximal age that has not expired and whose
  account is in the pool, not switched off, within its budget and not limited for long: if the account
  can serve now it is the one selected, and in every case, also when a fallback is selected, the
  mapping points to it afterwards.
\<close>

theorem sticky_keeps_warm_account:
  assumes "no_other_tasks e" and "rq_sticky_key rq = Some key" "key \<noteq> []" "rq_sticky_kind rq = Some kind" "rq_sticky_max_age rq = Some age"
    and "\<not> rq_reallocate_sticky rq" and "routes (le_utcnow e [7]) (Some age) (lw_sticky w) key kind = Some i" "i \<noteq> []"
    and "find_state i ss = Some pinned" "status pinned \<in> RECOVERABLE_STATUSES"
    and "\<not> budget_exhausted rq pinned" "\<not> rate_limit_far_away (le_time e [0]) rq pinned"
    and "select_with_stickiness e rq amap ss w = Inr (res, ss', w')"
  shows "(fst (triage (le_time e [1]) pinned) = Eligible \<longrightarrow> (\<exists>c. account res = Some c \<and> account_id c = i))
    \<and> (\<exists>row. get_entry key kind (lw_sticky w') = Some row \<and> st_account_id row = i)"
proof -
  have id: "account_id pinned = i" using find_SomeD [OF assms(9) [unfolded find_state_def]] by simp
  from assms(7) have entry: "\<exists>row. get_entry key kind (lw_sticky w) = Some row \<and> st_account_id row = account_id pinned"
    by (auto simp: routes_iff id split: option.splits if_splits)
  have g: "get_account_id (le_utcnow e [7]) key kind (Some age) (lw_sticky w) = (Some i, lw_sticky w)"
    using assms(7) by (auto simp: routes_def get_account_id_def split: option.splits if_splits)
  have sel: "select_pinned e rq key kind amap pinned ss w = Inr (res, ss', w')"
    using assms(13) by (simp add: select_with_stickiness_def assms(2-5,8,9) assms(1) [unfolded no_other_tasks_def] g)
  obtain p res1 w1 where t: "try_pinned e 1 rq key kind None pinned w = Inr (p, res1, w1)"
    using try_pinned_not_Inl by (metis surj_pair sum.exhaust)
  have age: "rq_sticky_max_age rq \<noteq> None" using assms(5) by simp
  note s1 = try_pinned_spec [OF assms(1,3) age t assms(10) entry]
  have ph: "pinned_phase e rq key kind pinned ss w = Inr ((res1, False), p, put_state p ss, w1)"
    using t assms(6,11,12) by (simp add: pinned_phase_def del: One_nat_def)
  show ?thesis
  proof (cases res1)
    case (Some r)
    then have "res = r" "w' = w1" using sel ph by (simp_all add: select_pinned_def)
    with s1 Some id show ?thesis by auto
  next
    case None
    have "fst (triage (le_time e [1]) pinned) \<noteq> Eligible"
    proof
      assume e: "fst (triage (le_time e [1]) pinned) = Eligible"
      from t obtain ps r where "pick e 1 rq None False False [pinned] = Inr (ps, r)" "res1 = (if account r = None then None else Some r)"
        by (auto simp: try_pinned_def simp del: One_nat_def)
      with pick_eligible [OF this(1) e] None show False by auto
    qed
    moreover obtain res2 w2 where gr: "grace_phase e rq key kind False p w1 = Inr (res2, w2)" using grace_phase_not_Inl by (metis surj_pair sum.exhaust)
    have "\<exists>row. get_entry key kind (lw_sticky w2) = Some row \<and> st_account_id row = i"
    proof (cases "status p = RATE_LIMITED")
      case True
      with gr obtain p2 where "try_pinned e 4 rq key kind (Some (le_time e [4] + STICKY_GRACE_PERIOD_SECONDS)) p w1 = Inr (p2, res2, w2)"
        by (auto simp: grace_phase_def)
      from try_pinned_spec [OF assms(1,3) age this] s1 id show ?thesis by auto
    next
      case False
      with gr s1 id show ?thesis by (auto simp: grace_phase_def)
    qed
    moreover have "w' = w2"
      using sel ph None gr s1 age by (cases res2) (auto simp: select_pinned_def choose_any_def split: option.splits)
    ultimately show ?thesis by blast
  qed
qed
section \<open>The cache is coherent\<close>

definition cached_inputs :: "selection_cache \<Rightarrow> cache_key \<Rightarrow> selection_inputs option" where
  "cached_inputs c k = map_option fst (map_of (sc_cache c) k)"

interpretation selection_inputs_cache: versioned_cache cached_inputs sc_generation "\<lambda>t k v n. inputs_cache_set t v k (Some n)" "\<lambda>_ :: unit. inputs_cache_invalidate" "\<lambda>_. UNIV"
  by unfold_locales (auto simp: cached_inputs_def inputs_cache_set_def inputs_cache_invalidate_def split: if_splits)

text \<open>
  A load notes the generation, reads the tables and stores what it read under that generation; an
  invalidation follows every reported outcome. Once the invalidations are done, what the cache serves is
  what the tables gave after them.
\<close>

lemma cached_inputs_fresh:
  assumes "selection_inputs_cache.coherent fresh c A B {}" and "inputs_cache_get t k c = Some v"
  shows "fresh k v"
proof -
  have "cached_inputs c k = Some v" using assms(2) by (auto simp: inputs_cache_get_def cached_inputs_def split: if_splits option.splits)
  from selection_inputs_cache.coherentD(1) [OF assms(1) this] show ?thesis by simp
qed

lemma marks_invalidate:
  "sc_generation (lw_cache (snd (mark_state e f a w))) = sc_generation (lw_cache (le_tasks e [0] (w\<lparr>lw_runtime :=
     snd (sync_runtime_state (le_time e [9]) a (f (fst (state_for a (lw_runtime w)))) False None (snd (state_for a (lw_runtime w))))\<rparr>))) + 1
   \<and> cached_inputs (lw_cache (snd (mark_state e f a w))) k = None"
  by (simp add: mark_state_def Let_def persist_state_def inputs_cache_invalidate_def cached_inputs_def split: prod.splits)
section \<open>Examples\<close>

definition sample_env :: "(nat list \<Rightarrow> lb_world \<Rightarrow> lb_world) \<Rightarrow> lb_env" where
  [py_eval]: "sample_env tasks = \<lparr>le_settings = \<lparr>ls_soft_drain_enabled = False, ls_drain = default_drain_config, ls_usage_refresh_interval_seconds = 60,
       ls_circuit_breaker_enabled = False\<rparr>,
     le_quotas = empty_maps, le_models = (\<lambda>_. \<lparr>mr_ttl_seconds = 300, mr_snapshot = None, mr_bootstrap_models = []\<rparr>), le_breakers = [],
     le_dialect = Sqlite, le_time = (\<lambda>_. 5000), le_monotonic = (\<lambda>_. 50), le_utcnow = (\<lambda>_. 5000000000), le_random = (\<lambda>_. 0), le_tasks = tasks\<rparr>"

definition sample_world :: "acct list \<Rightarrow> lb_world" where
  [py_eval]: "sample_world as = \<lparr>lw_accounts = as, lw_usage = [], lw_additional = [],
     lw_sticky = [\<lparr>st_key = ''k'', st_kind = CODEX_SESSION, st_account_id = ''b'', st_created_at = 0, st_updated_at = 4999000000\<rparr>],
     lw_runtime = [], lw_cache = \<lparr>sc_ttl_seconds = 5, sc_cache = [], sc_generation = 0\<rparr>, lw_degradation = DegradationManager\<rparr>"

definition sample_acct :: "string \<Rightarrow> account_status \<Rightarrow> int option \<Rightarrow> acct" where
  [py_eval]: "sample_acct i st reset = \<lparr>ac_id = i, ac_plan_type = ''plus'', ac_status = st, ac_deactivation_reason = None, ac_reset_at = reset, ac_blocked_at = None\<rparr>"

definition sample_request :: "string option \<Rightarrow> sticky_request" where
  [py_eval]: "sample_request key = \<lparr>rq_sticky_key = key, rq_sticky_kind = Some CODEX_SESSION, rq_reallocate_sticky = False, rq_sticky_max_age = Some 60,
     rq_prefer_earlier_reset = False, rq_strategy = round_robin, rq_budget_threshold = 95\<rparr>"

definition sample_load :: load_request where
  [py_eval]: "sample_load = \<lparr>lr_model = None, lr_additional_limit_name = None, lr_account_ids = None, lr_exclude_account_ids = []\<rparr>"

text \<open>Another task that changes every row each time the selection waits: no write of the selection ever finds its row current.\<close>

definition busy_tasks :: "nat list \<Rightarrow> lb_world \<Rightarrow> lb_world" where
  [py_eval]: "busy_tasks p w = w\<lparr>lw_accounts := map (\<lambda>a. a\<lparr>ac_blocked_at := Some (or_zero (ac_blocked_at a) + 1)\<rparr>) (lw_accounts w)\<rparr>"


definition idle :: "nat list \<Rightarrow> lb_world \<Rightarrow> lb_world" where
  [py_eval]: "idle p w = w"

theorem switched_off_stays_out_witness:
  "\<exists>sel w'. lb_select_account 4 (sample_env idle) (sample_request None) sample_load (sample_world [sample_acct ''a'' PAUSED None, sample_acct ''b'' ACTIVE None]) = Some (Inr sel, w')
     \<and> held_out ''a'' w' \<and> (\<forall>a. as_account sel = Some a \<longrightarrow> ac_id a \<noteq> ''a'') \<and> map_option ac_id (as_account sel) = Some ''b''"
proof -
  let ?w = "sample_world [sample_acct ''a'' PAUSED None, sample_acct ''b'' ACTIVE None]"
  let ?s = "lb_select_account 4 (sample_env idle) (sample_request None) sample_load ?w"
  have "map_option (\<lambda>p. map_sum id (\<lambda>x. map_option ac_id (as_account x)) (fst p)) ?s = Some (Inr (Some ''b''))" by code_simp
  then obtain sel w' where s: "?s = Some (Inr sel, w')" "map_option ac_id (as_account sel) = Some ''b''"
    by (cases ?s) (auto simp: map_sum_def split: sum.splits)
  have h: "held_out ''a'' ?w" by (simp add: held_out_def accounts_out_def sample_world_def sample_acct_def OFF_def)
  have k: "tasks_keep (held_out ''a'') (sample_env idle)" by (simp add: tasks_keep_def sample_env_def idle_def)
  show ?thesis using switched_off_stays_out [OF h k s(1)] s by blast
qed

definition sample_pool :: "account_state list" where
  [py_eval]: "sample_pool = [sample_account ''a'' ACTIVE, (sample_account ''b'' ACTIVE)\<lparr>error_count := 3, last_error_at := Some 4990\<rparr>]"

theorem sticky_keeps_warm_account_witness:
  "\<exists>res ss' w' row. select_with_stickiness (sample_env idle) (sample_request (Some ''k'')) [(''a'', sample_acct ''a'' ACTIVE None)] sample_pool (sample_world []) = Inr (res, ss', w')
     \<and> map_option account_id (account res) = Some ''a'' \<and> get_entry ''k'' CODEX_SESSION (lw_sticky w') = Some row \<and> st_account_id row = ''b''"
proof -
  let ?e = "sample_env idle" and ?rq = "sample_request (Some ''k'')" and ?w = "sample_world []"
  let ?p = "(sample_account ''b'' ACTIVE)\<lparr>error_count := 3, last_error_at := Some 4990\<rparr>"
  let ?s = "select_with_stickiness ?e ?rq [(''a'', sample_acct ''a'' ACTIVE None)] sample_pool ?w"
  have "map_sum id (\<lambda>x. map_option account_id (account (fst x))) ?s = Inr (Some ''a'')" by code_simp
  then obtain res ss' w' where s: "?s = Inr (res, ss', w')" "map_option account_id (account res) = Some ''a''"
    by (cases ?s) auto
  have q: "no_other_tasks ?e" by (simp add: no_other_tasks_def sample_env_def idle_def)
  have rq: "rq_sticky_key ?rq = Some ''k''" "rq_sticky_kind ?rq = Some CODEX_SESSION" "rq_sticky_max_age ?rq = Some 60" "\<not> rq_reallocate_sticky ?rq"
    by (simp_all add: sample_request_def)
  have r: "routes (le_utcnow ?e [7]) (Some 60) (lw_sticky ?w) ''k'' CODEX_SESSION = Some ''b''" unfolding routes_def by code_simp
  have f: "find_state ''b'' sample_pool = Some ?p" by code_simp
  have n: "status ?p \<in> RECOVERABLE_STATUSES" "\<not> budget_exhausted ?rq ?p" "\<not> rate_limit_far_away (le_time ?e [0]) ?rq ?p" by code_simp+
  have "\<exists>row. get_entry ''k'' CODEX_SESSION (lw_sticky w') = Some row \<and> st_account_id row = ''b''"
    using sticky_keeps_warm_account [OF q rq(1) _ rq(2-4) r _ f n s(1)] by simp
  with s show ?thesis by blast
qed

end
